(* ===== verification/Prelude.thy ===== *)
theory Prelude
  imports Main "HOL-Library.Word" "HOL-Library.Monad_Syntax"
begin

unbundle bit_operations_syntax

text \<open>
  Prelude of the PandOSsh development: the machine types, the collections of
  facts that the component proofs share, and generic facts on lists, options,
  maps and words.

  Conventions used throughout:
  \<^item> a C object of type int or unsigned int is a 32-bit word; a comparison the
    source makes on signed values reads the word with \<open>sint\<close>;
  \<^item> a computation that may be undefined in C (a NULL dereference, a pointer to a
    structure computed from a list head that is not embedded in it, an index
    outside an array) or that may loop forever returns an \<open>option\<close>: \<open>None\<close> is
    "undefined or does not return". A theorem that an operation returns
    \<open>Some\<close> therefore states that it is free of these errors and terminates;
  \<^item> mutation is explicit state passing.
\<close>

type_synonym u32 = "32 word"

abbreviation (input) NULL :: u32 where
  "NULL \<equiv> 0"

text \<open>Signed comparison of two C ints.\<close>

abbreviation slt :: "u32 \<Rightarrow> u32 \<Rightarrow> bool" where
  "slt a b \<equiv> sint a < sint b"

named_theorems links_simps \<open>how the link operations act on the link heap\<close>
named_theorems ring_intros \<open>link operations keep the ring structure\<close>
named_theorems op_defs \<open>definitions of the operations of a component\<close>
named_theorems lists_simps \<open>the list map of an abstract state after an update\<close>

section \<open>Options\<close>

lemma bind_eq_Some_conv':
  "Option.bind m f = Some y \<longleftrightarrow> (\<exists>x. m = Some x \<and> f x = Some y)"
  by (cases m) auto

section \<open>Lists\<close>

lemma split_at_elem:
  assumes "x \<in> set xs" "distinct xs"
  shows "\<exists>as bs. xs = as @ x # bs \<and> x \<notin> set as \<and> x \<notin> set bs"
  using split_list [OF assms(1)] assms(2) by fastforce

lemma remove1_split:
  "x \<notin> set as \<Longrightarrow> remove1 x (as @ x # bs) = as @ bs"
  by (induction as) auto

lemma remove1_map_inj: "inj f \<Longrightarrow> remove1 (f x) (map f xs) = map f (remove1 x xs)"
  by (induction xs) (auto dest: injD)

lemma find_map_inj:
  "find P (map f xs) = map_option f (find (P \<circ> f) xs)"
  by (induction xs) auto

lemma find_eq_elem: "find (\<lambda>y. x = y) xs = (if x \<in> set xs then Some x else None)"
  by (induction xs) auto

lemma takeWhile_dropWhile_split:
  "\<exists>as bs. xs = as @ bs \<and> as = takeWhile P xs \<and> bs = dropWhile P xs"
  by simp

lemma last_append_hd_tl:
  "ys @ [h] = hd (ys @ [h]) # tl (ys @ [h])"
  by simp

lemma butlast_last_Cons:
  "h # xs = butlast (h # xs) @ [last (h # xs)]"
  by simp

lemma in_butlast_neq_last:
  "distinct xs \<Longrightarrow> n \<in> set (butlast xs) \<Longrightarrow> n \<noteq> last xs"
  by (induction xs) (auto split: if_splits)

lemma filter_eq_remove1:
  "distinct xs \<Longrightarrow> filter (\<lambda>y. y \<noteq> x) xs = remove1 x xs"
  by (induction xs) (auto simp: filter_id_conv)

section \<open>Words\<close>

lemma of_nat_diff_one_u32:
  "0 < n \<Longrightarrow> (of_nat n :: u32) - 1 = of_nat (n - 1)"
  by (simp add: of_nat_diff)

lemma unat_of_nat_u32: "n < 2 ^ 32 \<Longrightarrow> unat (of_nat n :: u32) = n"
  by (simp add: unat_of_nat)

lemma of_nat_u32_eq_0:
  assumes "n < 2 ^ 32"
  shows "(of_nat n :: u32) = 0 \<longleftrightarrow> n = 0"
proof
  assume "(of_nat n :: u32) = 0"
  then have "unat (of_nat n :: u32) = unat (0 :: u32)" by (rule arg_cong)
  then show "n = 0" using unat_of_nat_u32 [OF assms] by (simp only: unat_0)
qed simp

text \<open>A signed value that is not negative is the unsigned one.\<close>

lemma unat_less_iff: "unat x < n \<longleftrightarrow> uint x < int n" for x :: u32
  using of_nat_less_iff [of "unat x" n, where ?'a = int] by simp

lemma nonneg_sint: 
  assumes "0 \<le> sint (x :: u32)" shows "sint x = uint x"
proof -
  have "uint (word_of_int (sint x) :: u32) = sint x mod 2 ^ 32"
    by (simp add: unsigned_of_int take_bit_eq_mod del: of_int_sint)
  moreover have "sint x mod 2 ^ 32 = sint x" using assms sint_lt [of x] by simp
  ultimately show ?thesis by simp
qed

lemma sint_small:
  assumes "uint x < 2 ^ 31"
  shows "sint (x :: u32) = uint x"
proof -
  have "sint x = signed_take_bit 31 (uint x)" by (simp add: sint_uint)
  also have "\<dots> = uint x" using assms uint_ge_0 [of x] by (intro signed_take_bit_int_eq_self order.trans [OF _ uint_ge_0]) simp_all
  finally show ?thesis .
qed

lemma signed_range:
  "n \<le> 2 ^ 31 \<Longrightarrow> 0 \<le> sint (x :: u32) \<and> sint x < int n \<longleftrightarrow> unat x < n"
  using nonneg_sint [of x] sint_small [of x] by (auto simp: unat_less_iff)

lemma sint_of_nat_small: "k < 2 ^ 31 \<Longrightarrow> sint (of_nat k :: u32) = int k"
  by (simp add: signed_of_nat signed_take_bit_int_eq_self)

section \<open>Computations that return\<close>

text \<open>\<open>returns m P\<close>: the computation is defined and ends with a result for which P holds.\<close>

definition returns :: "'a option \<Rightarrow> ('a \<Rightarrow> bool) \<Rightarrow> bool" where
  "returns m P \<longleftrightarrow> (\<exists>x. m = Some x \<and> P x)"

lemma returns_bind: "returns (Option.bind m f) P \<longleftrightarrow> returns m (\<lambda>x. returns (f x) P)"
  by (cases m) (auto simp: returns_def)

lemma returns_Some: "returns (Some x) P \<longleftrightarrow> P x"
  by (simp add: returns_def)

lemmas returns_bindI = returns_bind [THEN iffD2]

lemmas returns_SomeI = returns_Some [THEN iffD2]

lemma returns_mono: "returns m P \<Longrightarrow> (\<And>x. P x \<Longrightarrow> Q x) \<Longrightarrow> returns m Q"
  unfolding returns_def by blast

end
