(* ===== verification/Listx.thy ===== *)
theory Listx
  imports Prelude
begin

text \<open>
  The intrusive doubly linked lists of headers/listx.h. A list node (a struct
  list\_head) is a value of an arbitrary type of nodes; the heap of links gives
  the two pointers of every node. The operations are the inline functions of the
  header, statement by statement. The abstraction \<open>rings\<close> relates a heap to a map
  from the list heads to the sequence of nodes each list holds, and every
  operation is proved to act on that map as the corresponding list operation.
\<close>

section \<open>The operations\<close>

text \<open>struct list\_head: the two pointers of every node.\<close>

record 'n links =
  nxt :: "'n \<Rightarrow> 'n"
  prv :: "'n \<Rightarrow> 'n"

definition INIT_LIST_HEAD :: "'n \<Rightarrow> 'n links \<Rightarrow> 'n links" where
  "INIT_LIST_HEAD lst l =
    (let l = l\<lparr>nxt := (nxt l)(lst := lst)\<rparr>
     in l\<lparr>prv := (prv l)(lst := lst)\<rparr>)"

text \<open>The function \<^verbatim>\<open>__list_add(new, prev, next)\<close>.\<close>

definition list_add_between :: "'n \<Rightarrow> 'n \<Rightarrow> 'n \<Rightarrow> 'n links \<Rightarrow> 'n links" where
  "list_add_between new p n l =
    (let l = l\<lparr>prv := (prv l)(n := new)\<rparr>;
         l = l\<lparr>nxt := (nxt l)(new := n)\<rparr>;
         l = l\<lparr>prv := (prv l)(new := p)\<rparr>
     in l\<lparr>nxt := (nxt l)(p := new)\<rparr>)"

definition list_add :: "'n \<Rightarrow> 'n \<Rightarrow> 'n links \<Rightarrow> 'n links" where
  "list_add new head l = list_add_between new head (nxt l head) l"

definition list_add_tail :: "'n \<Rightarrow> 'n \<Rightarrow> 'n links \<Rightarrow> 'n links" where
  "list_add_tail new head l = list_add_between new (prv l head) head l"

text \<open>The function \<^verbatim>\<open>__list_del(prev, next)\<close>.\<close>

definition list_del_between :: "'n \<Rightarrow> 'n \<Rightarrow> 'n links \<Rightarrow> 'n links" where
  "list_del_between p n l =
    (let l = l\<lparr>prv := (prv l)(n := p)\<rparr>
     in l\<lparr>nxt := (nxt l)(p := n)\<rparr>)"

definition list_del :: "'n \<Rightarrow> 'n links \<Rightarrow> 'n links" where
  "list_del entry l =
    (let l = list_del_between (prv l entry) (nxt l entry) l;
         l = l\<lparr>nxt := (nxt l)(entry := entry)\<rparr>
     in l\<lparr>prv := (prv l)(entry := entry)\<rparr>)"

definition list_is_last :: "'n \<Rightarrow> 'n \<Rightarrow> 'n links \<Rightarrow> bool" where
  "list_is_last lst head l \<longleftrightarrow> nxt l lst = head"

definition list_empty :: "'n \<Rightarrow> 'n links \<Rightarrow> bool" where
  "list_empty head l \<longleftrightarrow> nxt l head = head"

text \<open>\<open>None\<close> is the NULL the functions return on an empty list.\<close>

definition list_next :: "'n \<Rightarrow> 'n links \<Rightarrow> 'n option" where
  "list_next current l = (if list_empty current l then None else Some (nxt l current))"

definition list_prev :: "'n \<Rightarrow> 'n links \<Rightarrow> 'n option" where
  "list_prev current l = (if list_empty current l then None else Some (prv l current))"

text \<open>
  The loop \<^verbatim>\<open>list_for_each(pos, head) body\<close>, started at the node \<open>pos\<close>. The body
  returns \<open>None\<close> when it is undefined, \<open>Some None\<close> to go on with the next node,
  and \<open>Some (Some v)\<close> when it leaves the loop (break or return) with the value
  \<open>v\<close>. The bodies of the program write to the list only when they leave the loop,
  so the heap is fixed while it runs. The loop returns \<open>Some None\<close> when it comes
  back to the head, and it has no value when it never does.
\<close>

partial_function (option) list_for_each_from ::
  "'n links \<Rightarrow> ('n \<Rightarrow> 'r option option) \<Rightarrow> 'n \<Rightarrow> 'n \<Rightarrow> 'r option option" where
  "list_for_each_from l body head pos =
    (if pos = head then Some None
     else Option.bind (body pos) (\<lambda>r. case r of
            Some v \<Rightarrow> Some (Some v)
          | None \<Rightarrow> list_for_each_from l body head (nxt l pos)))"

definition list_for_each :: "'n links \<Rightarrow> 'n \<Rightarrow> ('n \<Rightarrow> 'r option option) \<Rightarrow> 'r option option" where
  "list_for_each l head body = list_for_each_from l body head (nxt l head)"

text \<open>The same loop over the sequence of nodes: the reference for \<open>list_for_each\<close>.\<close>

fun foreach :: "('a \<Rightarrow> 'r option option) \<Rightarrow> 'a list \<Rightarrow> 'r option option" where
  "foreach body [] = Some None"
| "foreach body (x # xs) =
    Option.bind (body x) (\<lambda>r. case r of Some v \<Rightarrow> Some (Some v) | None \<Rightarrow> foreach body xs)"

section \<open>Rings\<close>

text \<open>
  A sequence of nodes is linked when each points forward to the next one and the
  next one points back. A list with head \<open>h\<close> and nodes \<open>xs\<close> is a ring from \<open>h\<close>
  through \<open>xs\<close> back to \<open>h\<close> without repetition.
\<close>

fun linked :: "'n links \<Rightarrow> 'n list \<Rightarrow> bool" where
  "linked l (a # b # r) \<longleftrightarrow> nxt l a = b \<and> prv l b = a \<and> linked l (b # r)"
| "linked l _ \<longleftrightarrow> True"

definition ring :: "'n links \<Rightarrow> 'n \<Rightarrow> 'n list \<Rightarrow> bool" where
  "ring l h xs \<longleftrightarrow> distinct (h # xs) \<and> linked l (h # xs @ [h])"

text \<open>
  A heap holds a family of lists: \<open>R h = Some xs\<close> says that \<open>h\<close> is an initialised
  list head and \<open>xs\<close> its nodes. No node is on two lists, and no head is a node of
  another list.
\<close>

definition rings :: "'n links \<Rightarrow> ('n \<rightharpoonup> 'n list) \<Rightarrow> bool" where
  "rings l R \<longleftrightarrow>
    (\<forall>h xs. R h = Some xs \<longrightarrow> ring l h xs) \<and>
    (\<forall>h h' xs xs'. R h = Some xs \<longrightarrow> R h' = Some xs' \<longrightarrow> h \<noteq> h' \<longrightarrow>
       set (h # xs) \<inter> set (h' # xs') = {})"

text \<open>The nodes a family occupies, heads included, and the nodes on a list.\<close>

definition nodes :: "('n \<rightharpoonup> 'n list) \<Rightarrow> 'n set" where
  "nodes R = {n. \<exists>h xs. R h = Some xs \<and> n \<in> set (h # xs)}"

definition members :: "('n \<rightharpoonup> 'n list) \<Rightarrow> 'n set" where
  "members R = {n. \<exists>h xs. R h = Some xs \<and> n \<in> set xs}"

subsection \<open>Linked sequences\<close>

lemma linked_append:
  "linked l (xs @ a # ys) \<longleftrightarrow> linked l (xs @ [a]) \<and> linked l (a # ys)"
proof (induction xs)
  case Nil
  then show ?case by (cases ys) auto
next
  case (Cons x xs)
  then show ?case by (cases xs) auto
qed

lemma linked_frame:
  assumes "\<And>n. n \<in> set (butlast xs) \<Longrightarrow> nxt l' n = nxt l n"
    and "\<And>n. n \<in> set (tl xs) \<Longrightarrow> prv l' n = prv l n"
  shows "linked l' xs \<longleftrightarrow> linked l xs"
  using assms
proof (induction l xs rule: linked.induct)
  case (1 l a b r)
  have "linked l' (b # r) \<longleftrightarrow> linked l (b # r)"
    by (rule "1.IH") (use "1.prems" in \<open>cases r; auto\<close>)+
  with "1.prems" show ?case by auto
qed auto

text \<open>A ring split before and after a position.\<close>

lemma linked_split:
  "linked l ((as @ [a]) @ (b # bs)) \<longleftrightarrow>
    linked l (as @ [a]) \<and> nxt l a = b \<and> prv l b = a \<and> linked l (b # bs)"
  using linked_append [of l as a "b # bs"] by auto

lemma ring_frame:
  assumes "\<And>n. n \<in> set (h # xs) \<Longrightarrow> nxt l' n = nxt l n \<and> prv l' n = prv l n"
  shows "ring l' h xs \<longleftrightarrow> ring l h xs"
proof -
  have "linked l' (h # xs @ [h]) \<longleftrightarrow> linked l (h # xs @ [h])"
    by (rule linked_frame) (use assms in auto)
  then show ?thesis by (simp add: ring_def)
qed

lemma ring_cut:
  assumes "ring l h (xs @ ys)"
  shows "nxt l (last (h # xs)) = hd (ys @ [h])"
    and "prv l (hd (ys @ [h])) = last (h # xs)"
    and "linked l (h # xs)"
    and "linked l (ys @ [h])"
proof -
  have "h # (xs @ ys) @ [h] =
    (butlast (h # xs) @ [last (h # xs)]) @ (hd (ys @ [h]) # tl (ys @ [h]))"
    by (metis append_Cons append_assoc butlast_last_Cons last_append_hd_tl)
  with assms have "linked l ((butlast (h # xs) @ [last (h # xs)]) @ (hd (ys @ [h]) # tl (ys @ [h])))"
    by (simp only: ring_def)
  then have *: "linked l (butlast (h # xs) @ [last (h # xs)])"
    "nxt l (last (h # xs)) = hd (ys @ [h])" "prv l (hd (ys @ [h])) = last (h # xs)"
    "linked l (hd (ys @ [h]) # tl (ys @ [h]))"
    unfolding linked_split by blast+
  show "linked l (h # xs)" using *(1) by (simp only: butlast_last_Cons [symmetric])
  show "linked l (ys @ [h])" using *(4) by (simp only: last_append_hd_tl [symmetric])
  show "nxt l (last (h # xs)) = hd (ys @ [h])" "prv l (hd (ys @ [h])) = last (h # xs)"
    by (fact *(2,3))+
qed

lemma ring_join:
  assumes "distinct (h # xs @ ys)"
    and "nxt l (last (h # xs)) = hd (ys @ [h])"
    and "prv l (hd (ys @ [h])) = last (h # xs)"
    and "linked l (h # xs)"
    and "linked l (ys @ [h])"
  shows "ring l h (xs @ ys)"
proof -
  have "h # (xs @ ys) @ [h] =
    (butlast (h # xs) @ [last (h # xs)]) @ (hd (ys @ [h]) # tl (ys @ [h]))"
    by (metis append_Cons append_assoc butlast_last_Cons last_append_hd_tl)
  moreover have "linked l (butlast (h # xs) @ [last (h # xs)])"
    using assms(4) by (simp only: butlast_last_Cons [symmetric])
  moreover have "linked l (hd (ys @ [h]) # tl (ys @ [h]))"
    using assms(5) by (simp only: last_append_hd_tl [symmetric])
  ultimately have "linked l (h # (xs @ ys) @ [h])"
    using assms(2,3) by (simp only: linked_split)
  with assms(1) show ?thesis by (simp add: ring_def)
qed


subsection \<open>What the operations do to one ring\<close>

text \<open>Inserting between two neighbours of a ring.\<close>

lemma nxt_list_add_between [links_simps]:
  "nxt (list_add_between new p n l) = (nxt l)(new := n, p := new)"
  by (simp add: list_add_between_def)

lemma prv_list_add_between [links_simps]:
  "prv (list_add_between new p n l) = (prv l)(n := new, new := p)"
  by (simp add: list_add_between_def)

lemma nxt_list_del [links_simps]:
  "nxt (list_del e l) = (nxt l)(prv l e := nxt l e, e := e)"
  by (simp add: list_del_def list_del_between_def)

lemma prv_list_del [links_simps]:
  "prv (list_del e l) = (prv l)(nxt l e := prv l e, e := e)"
  by (simp add: list_del_def list_del_between_def)

lemma links_INIT_LIST_HEAD [links_simps]:
  "nxt (INIT_LIST_HEAD h l) = (nxt l)(h := h)"
  "prv (INIT_LIST_HEAD h l) = (prv l)(h := h)"
  by (simp_all add: INIT_LIST_HEAD_def)

lemma ring_init: "ring (INIT_LIST_HEAD h l) h []"
  by (simp add: ring_def links_simps)

lemma ring_insert:
  assumes r: "ring l h (xs @ ys)" and new: "new \<notin> set (h # xs @ ys)"
  shows "ring (list_add_between new (last (h # xs)) (hd (ys @ [h])) l) h (xs @ new # ys)"
    (is "ring ?l h _")
proof (rule ring_join)
  let ?a = "last (h # xs)" and ?b = "hd (ys @ [h])"
  have d: "distinct (h # xs @ ys)" using r by (simp add: ring_def)
  have a: "?a \<in> set (h # xs)" "?a \<notin> set ys" and b: "?b \<in> set (h # ys)" "?b \<notin> set xs"
    using d last_in_set [of "h # xs"] hd_in_set [of "ys @ [h]"] by auto
  show "distinct (h # xs @ new # ys)" using d new by auto
  have "linked ?l (h # xs) \<longleftrightarrow> linked l (h # xs)"
  proof (rule linked_frame)
    fix n
    assume "n \<in> set (butlast (h # xs))"
    then have "n \<noteq> ?a" "n \<noteq> new"
      using d new in_butlast_neq_last [of "h # xs" n] in_set_butlastD [of n "h # xs"] by auto
    then show "nxt ?l n = nxt l n" by (simp add: links_simps)
  next
    fix n
    assume "n \<in> set (tl (h # xs))"
    then show "prv ?l n = prv l n" using b new by (auto simp: links_simps)
  qed
  then show "linked ?l (h # xs)" using ring_cut(3) [OF r] by blast
  show "nxt ?l ?a = hd ((new # ys) @ [h])" by (simp add: links_simps)
  show "prv ?l (hd ((new # ys) @ [h])) = ?a" by (simp add: links_simps)
  have "linked ?l (ys @ [h]) \<longleftrightarrow> linked l (ys @ [h])"
  proof (rule linked_frame)
    fix n
    assume "n \<in> set (butlast (ys @ [h]))"
    then show "nxt ?l n = nxt l n" using a new by (auto simp: links_simps)
  next
    fix n
    assume n: "n \<in> set (tl (ys @ [h]))"
    have "n \<noteq> ?b" using n d by (cases ys) auto
    moreover have "n \<noteq> new" using n new by (cases ys) auto
    ultimately show "prv ?l n = prv l n" by (simp add: links_simps)
  qed
  then have "linked ?l (ys @ [h])" using ring_cut(4) [OF r] by blast
  moreover have "nxt ?l new = ?b" "prv ?l ?b = new"
    using a b new by (auto simp: links_simps)
  ultimately show "linked ?l ((new # ys) @ [h])"
    by (cases "ys @ [h]") auto
qed


text \<open>Removing a node of a ring.\<close>

lemma ring_remove:
  assumes r: "ring l h (xs @ e # ys)"
  shows "ring (list_del e l) h (xs @ ys)" (is "ring ?l h _")
proof (rule ring_join)
  let ?a = "last (h # xs)" and ?b = "hd (ys @ [h])"
  have d: "distinct (h # xs @ e # ys)" using r by (simp add: ring_def)
  have a: "?a \<in> set (h # xs)" "?a \<notin> set (e # ys)"
    and b: "?b \<in> set (h # ys)" "?b \<notin> set (e # xs)"
    using d last_in_set [of "h # xs"] hd_in_set [of "ys @ [h]"] by auto
  have r': "ring l h ((xs @ [e]) @ ys)" using r by simp
  have pe: "prv l e = ?a" using ring_cut(2) [OF r] by simp
  have ne: "nxt l e = ?b" using ring_cut(1) [OF r'] by simp
  show "distinct (h # xs @ ys)" using d by auto
  have "linked ?l (h # xs) \<longleftrightarrow> linked l (h # xs)"
  proof (rule linked_frame)
    fix n
    assume "n \<in> set (butlast (h # xs))"
    then have "n \<noteq> ?a" "n \<noteq> e"
      using d in_butlast_neq_last [of "h # xs" n] in_set_butlastD [of n "h # xs"] by auto
    then show "nxt ?l n = nxt l n" by (simp add: links_simps pe)
  next
    fix n
    assume "n \<in> set (tl (h # xs))"
    then show "prv ?l n = prv l n" using b d by (auto simp: links_simps ne)
  qed
  then show "linked ?l (h # xs)" using ring_cut(3) [OF r] by blast
  show "nxt ?l ?a = ?b" using a by (simp add: links_simps pe ne)
  show "prv ?l ?b = ?a" using b by (simp add: links_simps pe ne)
  have "linked ?l (ys @ [h]) \<longleftrightarrow> linked l (ys @ [h])"
  proof (rule linked_frame)
    fix n
    assume "n \<in> set (butlast (ys @ [h]))"
    then show "nxt ?l n = nxt l n" using a d by (auto simp: links_simps pe)
  next
    fix n
    assume n: "n \<in> set (tl (ys @ [h]))"
    have "n \<noteq> ?b" "n \<noteq> e" using n d by (cases ys; auto)+
    then show "prv ?l n = prv l n" by (simp add: links_simps ne)
  qed
  then show "linked ?l (ys @ [h])" using ring_cut(4) [OF r'] by blast
qed

lemma ring_del_neighbours:
  assumes "ring l h (xs @ e # ys)"
  shows "nxt l e \<in> set (h # xs @ ys)" and "prv l e \<in> set (h # xs @ ys)"
proof -
  have r': "ring l h ((xs @ [e]) @ ys)" using assms by simp
  have "prv l e = last (h # xs)" using ring_cut(2) [OF assms] by simp
  then show "prv l e \<in> set (h # xs @ ys)" using last_in_set [of "h # xs"] by auto
  have "nxt l e = hd (ys @ [h])" using ring_cut(1) [OF r'] by simp
  then show "nxt l e \<in> set (h # xs @ ys)" using hd_in_set [of "ys @ [h]"] by auto
qed

lemma ring_empty_iff: "ring l h xs \<Longrightarrow> nxt l h = h \<longleftrightarrow> xs = []"
  using ring_cut(1) [of l h "[]" xs] by (cases xs) (auto simp: ring_def)

lemma ring_list_for_each_from:
  "ring l h (xs @ ys) \<Longrightarrow> list_for_each_from l body h (hd (ys @ [h])) = foreach body ys"
proof (induction ys arbitrary: xs)
  case Nil
  then show ?case by (simp add: list_for_each_from.simps)
next
  case (Cons y ys)
  have r: "ring l h ((xs @ [y]) @ ys)" using Cons.prems by simp
  have y: "y \<noteq> h" using Cons.prems by (auto simp: ring_def)
  have n: "nxt l y = hd (ys @ [h])" using ring_cut(1) [OF r] by simp
  have "list_for_each_from l body h y =
    Option.bind (body y) (\<lambda>r. case r of Some v \<Rightarrow> Some (Some v)
      | None \<Rightarrow> list_for_each_from l body h (hd (ys @ [h])))"
    using y by (simp add: list_for_each_from.simps [of l body h y] n)
  then show ?case unfolding Cons.IH [OF r] by simp
qed

section \<open>Families of lists\<close>

lemma rings_ring: "rings l R \<Longrightarrow> R h = Some xs \<Longrightarrow> ring l h xs"
  by (simp add: rings_def)

lemma rings_distinct: "rings l R \<Longrightarrow> R h = Some xs \<Longrightarrow> distinct (h # xs)"
  by (auto simp: rings_def ring_def)

lemma rings_disjoint:
  "rings l R \<Longrightarrow> R h = Some xs \<Longrightarrow> R h' = Some xs' \<Longrightarrow> h \<noteq> h' \<Longrightarrow>
    set (h # xs) \<inter> set (h' # xs') = {}"
  unfolding rings_def by blast

text \<open>A node is on one list at most.\<close>

lemma rings_unique_list:
  "rings l R \<Longrightarrow> R h = Some xs \<Longrightarrow> R h' = Some xs' \<Longrightarrow> n \<in> set xs \<Longrightarrow> n \<in> set xs' \<Longrightarrow> h = h'"
  using rings_disjoint by fastforce

lemma rings_head_not_member: "rings l R \<Longrightarrow> R h = Some xs \<Longrightarrow> h \<notin> members R"
  unfolding members_def using rings_disjoint rings_distinct by fastforce

text \<open>
  The common step of all proofs: an update of the heap that writes only nodes of
  one list and nodes outside the family, and that makes this list the ring of
  another sequence, gives the updated family.
\<close>

lemma rings_update:
  assumes R: "rings l R"
    and h: "ring l' h ys"
    and new: "\<And>g xs. g \<noteq> h \<Longrightarrow> R g = Some xs \<Longrightarrow> set (h # ys) \<inter> set (g # xs) = {}"
    and frame: "\<And>g xs n. g \<noteq> h \<Longrightarrow> R g = Some xs \<Longrightarrow> n \<in> set (g # xs) \<Longrightarrow>
      nxt l' n = nxt l n \<and> prv l' n = prv l n"
  shows "rings l' (R(h \<mapsto> ys))"
  unfolding rings_def
proof (intro conjI allI impI)
  fix g xs
  assume g: "(R(h \<mapsto> ys)) g = Some xs"
  show "ring l' g xs"
  proof (cases "g = h")
    case True
    with g h show ?thesis by simp
  next
    case False
    with g have "ring l g xs" using rings_ring [OF R] by simp
    moreover have "ring l' g xs \<longleftrightarrow> ring l g xs"
      by (rule ring_frame) (use False g frame in auto)
    ultimately show ?thesis by simp
  qed
next
  fix g g' xs xs'
  assume "(R(h \<mapsto> ys)) g = Some xs" "(R(h \<mapsto> ys)) g' = Some xs'" "g \<noteq> g'"
  then show "set (g # xs) \<inter> set (g' # xs') = {}"
    using new [of g xs] new [of g' xs'] rings_disjoint [OF R, of g xs g' xs']
    by (auto split: if_splits)
qed

lemma rings_INIT_LIST_HEAD [ring_intros]:
  assumes R: "rings l R" and h: "h \<notin> members R"
  shows "rings (INIT_LIST_HEAD h l) (R(h \<mapsto> []))"
  by (rule rings_update [OF R ring_init]) (use h in \<open>auto simp: members_def links_simps\<close>)

lemma rings_list_add_at:
  assumes R: "rings l R" and h: "R h = Some (xs @ ys)" and new: "new \<notin> nodes R"
  shows "rings (list_add new (last (h # xs)) l) (R(h \<mapsto> xs @ new # ys))"
proof (rule rings_update [OF R])
  let ?a = "last (h # xs)" and ?b = "hd (ys @ [h])"
  have r: "ring l h (xs @ ys)" using rings_ring [OF R h] .
  have b: "nxt l ?a = ?b" by (rule ring_cut(1) [OF r])
  have n: "new \<notin> set (h # xs @ ys)" using new h unfolding nodes_def by fastforce
  show "ring (list_add new ?a l) h (xs @ new # ys)"
    using ring_insert [OF r n] by (simp only: list_add_def b)
  have ab: "?a \<in> set (h # xs @ ys)" "?b \<in> set (h # xs @ ys)"
    using last_in_set [of "h # xs"] hd_in_set [of "ys @ [h]"] by auto
  fix g zs
  assume g: "g \<noteq> h" "R g = Some zs"
  have D: "set (h # xs @ ys) \<inter> set (g # zs) = {}"
    using rings_disjoint [OF R h g(2)] g(1) by auto
  have N: "new \<notin> set (g # zs)" using new g(2) by (auto simp: nodes_def)
  show "set (h # xs @ new # ys) \<inter> set (g # zs) = {}" using D N by auto
  fix n
  assume "n \<in> set (g # zs)"
  then have "n \<noteq> ?a" "n \<noteq> ?b" "n \<noteq> new" using D N ab by blast+
  then show "nxt (list_add new ?a l) n = nxt l n \<and> prv (list_add new ?a l) n = prv l n"
    by (simp only: list_add_def b links_simps fun_upd_apply) simp
qed

lemma rings_list_add [ring_intros]:
  "rings l R \<Longrightarrow> R h = Some xs \<Longrightarrow> new \<notin> nodes R \<Longrightarrow>
    rings (list_add new h l) (R(h \<mapsto> new # xs))"
  using rings_list_add_at [of l R h "[]" xs new] by simp

lemma rings_list_add_tail [ring_intros]:
  assumes R: "rings l R" and h: "R h = Some xs" and new: "new \<notin> nodes R"
  shows "rings (list_add_tail new h l) (R(h \<mapsto> xs @ [new]))"
proof -
  have r: "ring l h (xs @ [])" using rings_ring [OF R h] by simp
  have "list_add_tail new h l = list_add new (last (h # xs)) l"
    using ring_cut(1,2) [OF r] by (simp add: list_add_tail_def list_add_def)
  then show ?thesis using rings_list_add_at [OF R, of h xs "[]" new] h new by simp
qed

lemma rings_list_del_at:
  assumes R: "rings l R" and h: "R h = Some (xs @ e # ys)"
  shows "rings (list_del e l) (R(h \<mapsto> xs @ ys))"
proof (rule rings_update [OF R])
  have r: "ring l h (xs @ e # ys)" using rings_ring [OF R h] .
  show "ring (list_del e l) h (xs @ ys)" by (rule ring_remove [OF r])
  fix g zs
  assume g: "g \<noteq> h" "R g = Some zs"
  have D: "set (h # xs @ e # ys) \<inter> set (g # zs) = {}"
    using rings_disjoint [OF R h g(2)] g(1) by auto
  then show "set (h # xs @ ys) \<inter> set (g # zs) = {}" by auto
  fix n
  assume "n \<in> set (g # zs)"
  then have "n \<noteq> e" "n \<noteq> nxt l e" "n \<noteq> prv l e"
    using D ring_del_neighbours [OF r] by auto
  then show "nxt (list_del e l) n = nxt l n \<and> prv (list_del e l) n = prv l n"
    by (simp add: links_simps)
qed

lemma rings_list_del [ring_intros]:
  assumes R: "rings l R" and h: "R h = Some xs" and e: "e \<in> set xs"
  shows "rings (list_del e l) (R(h \<mapsto> remove1 e xs))"
proof -
  obtain as bs where xs: "xs = as @ e # bs" "e \<notin> set as"
    using split_at_elem [OF e] rings_distinct [OF R h] by auto
  then show ?thesis
    using rings_list_del_at [OF R, of h as e bs] h by (simp add: remove1_split)
qed

lemma rings_list_empty: "rings l R \<Longrightarrow> R h = Some xs \<Longrightarrow> list_empty h l \<longleftrightarrow> xs = []"
  by (simp add: list_empty_def ring_empty_iff rings_ring)

lemma rings_nxt: "rings l R \<Longrightarrow> R h = Some xs \<Longrightarrow> nxt l h = hd (xs @ [h])"
  using ring_cut(1) [of l h "[]" xs] rings_ring [of l R h xs] by simp

lemma rings_list_next:
  "rings l R \<Longrightarrow> R h = Some xs \<Longrightarrow>
    list_next h l = (case xs of [] \<Rightarrow> None | x # _ \<Rightarrow> Some x)"
  by (cases xs) (simp_all add: list_next_def rings_list_empty rings_nxt)

lemma rings_list_for_each:
  "rings l R \<Longrightarrow> R h = Some xs \<Longrightarrow> list_for_each l h body = foreach body xs"
  using ring_list_for_each_from [of l h "[]" xs body]
  by (simp add: list_for_each_def rings_nxt rings_ring)

lemma rings_empty_family: "rings l Map.empty"
  by (simp add: rings_def)

text \<open>Forgetting a list: its nodes become free nodes of the family.\<close>

lemma rings_forget:
  assumes "rings l R"
  shows "rings l (R(h := None))"
  unfolding rings_def
proof (intro conjI allI impI)
  fix g xs
  assume "(R(h := None)) g = Some xs"
  then show "ring l g xs" using rings_ring [OF assms, of g xs] by (simp split: if_splits)
next
  fix g g' xs xs'
  assume "(R(h := None)) g = Some xs" "(R(h := None)) g' = Some xs'" "g \<noteq> g'"
  then show "set (g # xs) \<inter> set (g' # xs') = {}"
    using rings_disjoint [OF assms, of g xs g' xs'] by (simp split: if_splits)
qed

lemma rings_frame:
  assumes R: "rings l R"
    and frame: "\<And>n. n \<in> nodes R \<Longrightarrow> nxt l' n = nxt l n \<and> prv l' n = prv l n"
  shows "rings l' R"
  unfolding rings_def
proof (intro conjI allI impI)
  fix h xs
  assume h: "R h = Some xs"
  have "ring l' h xs \<longleftrightarrow> ring l h xs"
    by (rule ring_frame) (use frame h in \<open>auto simp: nodes_def\<close>)
  then show "ring l' h xs" using rings_ring [OF R h] by simp
qed (use rings_disjoint [OF R] in blast)

subsection \<open>Loops over a sequence\<close>

lemma foreach_map: "foreach body (map f xs) = foreach (body \<circ> f) xs"
  by (induction xs) (auto split: option.splits)

lemma foreach_cong: "(\<And>x. x \<in> set xs \<Longrightarrow> f x = g x) \<Longrightarrow> foreach f xs = foreach g xs"
  by (induction xs) auto

lemma foreach_find:
  "foreach (\<lambda>x. Some (if P x then Some (g x) else None)) xs = Some (map_option g (find P xs))"
  by (induction xs) auto

end
