(* ===== verification/Machine.thy ===== *)
theory Machine
  imports Listx
begin

text \<open>
  The data model: headers/const.h, headers/types.h, the global variables of the
  nucleus (phase1/pcb.c, phase1/asl.c, phase2/src/initial.c) and the part of the
  uRISCV machine the sources use.

  What the sources take from the uRISCV headers and from the linker is a
  parameter, the record \<open>platform\<close>: the layout of the register file in a saved
  processor state, the decoding of the cause register, the device interface and
  the addresses of functions and variables. The predicate \<open>platform_ok\<close> collects
  the documented facts the code relies on.
\<close>

section \<open>Constants of headers/const.h\<close>

definition MAXPROC :: nat where
  "MAXPROC = 20"

abbreviation (input) NRSEMAPHORES :: nat where
  "NRSEMAPHORES \<equiv> 49"

abbreviation (input) NSUPPSEM :: nat where
  "NSUPPSEM \<equiv> 48"

abbreviation (input) WORDLEN :: u32 where
  "WORDLEN \<equiv> 4"

abbreviation (input) NOPROC :: u32 where
  "NOPROC \<equiv> - 1"

abbreviation (input) TIMESLICE :: u32 where
  "TIMESLICE \<equiv> 5000"

abbreviation (input) PSECOND :: u32 where
  "PSECOND \<equiv> 100000"

abbreviation (input) TIMESCALEADDR :: u32 where
  "TIMESCALEADDR \<equiv> 0x10000024"

abbreviation (input) RAMBASEADDR :: u32 where
  "RAMBASEADDR \<equiv> 0x10000000"

abbreviation (input) RAMBASESIZE :: u32 where
  "RAMBASESIZE \<equiv> 0x10000004"

abbreviation (input) START_DEVREG :: u32 where
  "START_DEVREG \<equiv> 0x10000054"

abbreviation (input) BIOSDATAPAGE :: u32 where
  "BIOSDATAPAGE \<equiv> 0x0FFFF000"

abbreviation (input) KERNELSTACK :: u32 where
  "KERNELSTACK \<equiv> 0x20001000"

abbreviation (input) STATE_T_SIZE_IN_BYTES :: u32 where
  "STATE_T_SIZE_IN_BYTES \<equiv> 148"

abbreviation (input) MIE_ALL :: u32 where
  "MIE_ALL \<equiv> 0xFFFFFFFF"

abbreviation (input) MIE_MTIE_MASK :: u32 where
  "MIE_MTIE_MASK \<equiv> 0x40"

abbreviation (input) MSTATUS_MIE_MASK :: u32 where
  "MSTATUS_MIE_MASK \<equiv> 0x8"

abbreviation (input) MSTATUS_MPIE_MASK :: u32 where
  "MSTATUS_MPIE_MASK \<equiv> 0x80"

abbreviation (input) MSTATUS_MPP_MASK :: u32 where
  "MSTATUS_MPP_MASK \<equiv> 0x1800"

abbreviation (input) MSTATUS_MPP_M :: u32 where
  "MSTATUS_MPP_M \<equiv> 0x1800"

abbreviation (input) MSTATUS_MPP_U :: u32 where
  "MSTATUS_MPP_U \<equiv> 0"

abbreviation (input) CLEAREXECCODE :: u32 where
  "CLEAREXECCODE \<equiv> 0xFFFFFF00"

abbreviation (input) PRIVINSTR :: u32 where
  "PRIVINSTR \<equiv> 10"

abbreviation (input) CAUSESHIFT :: nat where
  "CAUSESHIFT \<equiv> 2"

abbreviation (input) OKCHARTRANS :: u32 where
  "OKCHARTRANS \<equiv> 5"

abbreviation (input) CHARRECV :: u32 where
  "CHARRECV \<equiv> 5"

abbreviation (input) PGFAULTEXCEPT :: nat where
  "PGFAULTEXCEPT \<equiv> 0"

abbreviation (input) GENERALEXCEPT :: nat where
  "GENERALEXCEPT \<equiv> 1"

abbreviation (input) MAXPAGES :: u32 where
  "MAXPAGES \<equiv> 32"

abbreviation (input) GETPAGENO :: u32 where
  "GETPAGENO \<equiv> 0x3FFFF000"

abbreviation (input) VPNSHIFT :: nat where
  "VPNSHIFT \<equiv> 12"

abbreviation (input) IL_TIMER :: u32 where
  "IL_TIMER \<equiv> 3"

abbreviation (input) IL_CPUTIMER :: u32 where
  "IL_CPUTIMER \<equiv> 7"

abbreviation (input) IL_DISK :: u32 where
  "IL_DISK \<equiv> 17"

abbreviation (input) IL_FLASH :: u32 where
  "IL_FLASH \<equiv> 18"

abbreviation (input) IL_ETHERNET :: u32 where
  "IL_ETHERNET \<equiv> 19"

abbreviation (input) IL_PRINTER :: u32 where
  "IL_PRINTER \<equiv> 20"

abbreviation (input) IL_TERMINAL :: u32 where
  "IL_TERMINAL \<equiv> 21"

section \<open>The platform\<close>

record platform =
  STATE_GPR_LEN :: nat                 \<comment> \<open>length of the register array of a state\<close>
  gpr_sp :: nat                        \<comment> \<open>index of \<open>reg_sp\<close> in it\<close>
  gpr_a0 :: nat
  gpr_a1 :: nat
  gpr_a2 :: nat
  gpr_a3 :: nat
  CAUSE_IS_INT :: "u32 \<Rightarrow> bool"
  CAUSE_EXCCODE_MASK :: u32
  ACK :: u32                           \<comment> \<open>acknowledge command of a device\<close>
  DEVPERINT :: u32                     \<comment> \<open>devices per interrupt line\<close>
  DEVREGSIZE :: u32                    \<comment> \<open>bytes of a device register\<close>
  PRID :: u32                          \<comment> \<open>what \<open>getPRID()\<close> returns\<close>
  adr_device_semaphores :: u32         \<comment> \<open>address of \<open>device_semaphores[0]\<close>\<close>
  adr_test :: u32
  adr_uTLB_RefillHandler :: u32
  adr_exceptionHandler :: u32

text \<open>
  The documented facts of the platform: the registers the code names are different
  entries of the register array; there are eight devices per interrupt line, each
  with a register of sixteen bytes; the array of the device semaphores is word
  aligned, lies above address 0, does not wrap around the address space and does
  not overlap the device registers.
\<close>

definition platform_ok :: "platform \<Rightarrow> bool" where
  "platform_ok pf \<longleftrightarrow>
    gpr_a0 pf < STATE_GPR_LEN pf \<and> gpr_a1 pf < STATE_GPR_LEN pf \<and>
    gpr_a2 pf < STATE_GPR_LEN pf \<and> gpr_a3 pf < STATE_GPR_LEN pf \<and>
    gpr_sp pf < STATE_GPR_LEN pf \<and>
    distinct [gpr_sp pf, gpr_a0 pf, gpr_a1 pf, gpr_a2 pf, gpr_a3 pf] \<and>
    DEVPERINT pf = 8 \<and> DEVREGSIZE pf = 16 \<and>
    unat (adr_device_semaphores pf) mod 4 = 0 \<and>
    0x20000000 \<le> unat (adr_device_semaphores pf) \<and>
    unat (adr_device_semaphores pf) + 4 * NRSEMAPHORES < 2 ^ 32"

section \<open>Data types of headers/types.h\<close>

text \<open>The saved processor state of the machine.\<close>

record state_t =
  entry_hi :: u32
  cause :: u32
  status :: u32
  pc_epc :: u32
  mie :: u32
  gpr :: "nat \<Rightarrow> u32"

record pteEntry_t =
  pte_entryHI :: u32
  pte_entryLO :: u32

record context_t =
  ctx_stackPtr :: u32
  ctx_status :: u32
  ctx_pc :: u32

text \<open>
  The support structure. The two exception stacks are only ever used through their
  addresses, and the list head \<open>s_list\<close> is not used; neither is part of the record.
\<close>

record support_t =
  sup_asid :: u32
  sup_exceptState :: "nat \<Rightarrow> state_t"
  sup_exceptContext :: "nat \<Rightarrow> context_t"
  sup_privatePgTbl :: "nat \<Rightarrow> pteEntry_t"

text \<open>
  A process control block without its three list heads, which live in the heap of
  links. A pointer to a PCB is the index of the PCB in \<open>pcbFree_table\<close>, the only
  place PCBs exist; \<open>None\<close> is the NULL pointer. A semaphore is named by its address.
\<close>

record pcb_t =
  p_parent :: "nat option"
  p_s :: state_t
  p_time :: u32
  p_semAdd :: u32
  p_supportStruct :: u32
  p_prio :: u32
  p_pid :: u32

record semd_t =
  s_key :: u32

text \<open>
  All list heads of the program: the four global ones, three in every PCB and two
  in every semaphore descriptor.
\<close>

datatype lnode =
    PcbFree_h | ReadyQueue | SemdFree_h | Semd_h
  | P_list nat | P_child nat | P_sib nat
  | S_procq nat | S_link nat

text \<open>
  \<^verbatim>\<open>container_of(ptr, type, member)\<close> for the members the program uses. The pointer
  arithmetic gives a pointer to the enclosing structure only when the node is that
  member of a structure.
\<close>

fun container_of_p_list :: "lnode \<Rightarrow> nat option" where
  "container_of_p_list (P_list p) = Some p"
| "container_of_p_list _ = None"

fun container_of_p_sib :: "lnode \<Rightarrow> nat option" where
  "container_of_p_sib (P_sib p) = Some p"
| "container_of_p_sib _ = None"

fun container_of_s_link :: "lnode \<Rightarrow> nat option" where
  "container_of_s_link (S_link i) = Some i"
| "container_of_s_link _ = None"

section \<open>The state of the nucleus\<close>

text \<open>
  The memory is split by type: the link fields, the PCBs, the semaphore descriptors,
  the saved processor states and the support structures that the code reaches
  through a pointer, and the words of memory (semaphores and device registers) by
  their address. The fields from \<open>tod\<close> on are the machine: the clock that STCK
  reads, the interval timer and the processor local timer as last loaded, the mie
  and status registers, the TLB registers and the entries written to the TLB.
\<close>

record passupvector_t =
  tlb_refill_handler :: u32
  tlb_refill_stackPtr :: u32
  exception_handler :: u32
  exception_stackPtr :: u32

record kernel =
  links :: "lnode links"
  pcbs :: "nat \<Rightarrow> pcb_t"
  semds :: "nat \<Rightarrow> semd_t"
  next_pid :: u32
  processCount :: u32
  softBlock_count :: u32
  currProc :: "nat option"
  tod_start :: u32
  ram :: "u32 \<Rightarrow> u32"
  states :: "u32 \<Rightarrow> state_t"
  supports :: "u32 \<Rightarrow> support_t"
  passupvector :: passupvector_t
  tod :: u32
  itimer :: u32
  cpu_timer :: u32
  cpu_mie :: u32
  cpu_status :: u32
  cpu_entryHI :: u32
  cpu_entryLO :: u32
  tlb_written :: "(u32 \<times> u32) list"

text \<open>
  How a handler gives up the processor. LDST loads a processor state, LDCXT a
  context; after HALT and PANIC nothing runs; WAIT idles until an interrupt;
  RETURN is a plain return of a handler to its caller in the BIOS.
\<close>

datatype exit =
    LDST state_t
  | LDCXT u32 u32 u32
  | HALT
  | WAIT
  | PANIC
  | RETURN

section \<open>Access to the state\<close>

definition upd_pcb :: "nat \<Rightarrow> (pcb_t \<Rightarrow> pcb_t) \<Rightarrow> kernel \<Rightarrow> kernel" where
  "upd_pcb p f s = s\<lparr>pcbs := (pcbs s)(p := f (pcbs s p))\<rparr>"

definition upd_links :: "(lnode links \<Rightarrow> lnode links) \<Rightarrow> kernel \<Rightarrow> kernel" where
  "upd_links f s = s\<lparr>links := f (links s)\<rparr>"

definition write_word :: "u32 \<Rightarrow> u32 \<Rightarrow> kernel \<Rightarrow> kernel" where
  "write_word a v s = s\<lparr>ram := (ram s)(a := v)\<rparr>"

definition upd_state :: "u32 \<Rightarrow> (state_t \<Rightarrow> state_t) \<Rightarrow> kernel \<Rightarrow> kernel" where
  "upd_state a f s = s\<lparr>states := (states s)(a := f (states s a))\<rparr>"

abbreviation reg_a0 :: "platform \<Rightarrow> state_t \<Rightarrow> u32" where
  "reg_a0 pf st \<equiv> gpr st (gpr_a0 pf)"

definition set_a0 :: "platform \<Rightarrow> u32 \<Rightarrow> state_t \<Rightarrow> state_t" where
  "set_a0 pf v st = st\<lparr>gpr := (gpr st)(gpr_a0 pf := v)\<rparr>"

text \<open>The address of \<open>device_semaphores[i]\<close>.\<close>

definition device_semaphore :: "platform \<Rightarrow> u32 \<Rightarrow> u32" where
  "device_semaphore pf i = adr_device_semaphores pf + 4 * i"

lemma upd_pcb_simps [simp]:
  "links (upd_pcb p f s) = links s"
  "pcbs (upd_pcb p f s) = (pcbs s)(p := f (pcbs s p))"
  "semds (upd_pcb p f s) = semds s"
  "next_pid (upd_pcb p f s) = next_pid s"
  "processCount (upd_pcb p f s) = processCount s"
  "softBlock_count (upd_pcb p f s) = softBlock_count s"
  "currProc (upd_pcb p f s) = currProc s"
  "ram (upd_pcb p f s) = ram s"
  "states (upd_pcb p f s) = states s"
  "supports (upd_pcb p f s) = supports s"
  "tod (upd_pcb p f s) = tod s"
  "tod_start (upd_pcb p f s) = tod_start s"
  by (simp_all add: upd_pcb_def)

lemma upd_links_simps [simp]:
  "links (upd_links f s) = f (links s)"
  "pcbs (upd_links f s) = pcbs s"
  "semds (upd_links f s) = semds s"
  "next_pid (upd_links f s) = next_pid s"
  "processCount (upd_links f s) = processCount s"
  "softBlock_count (upd_links f s) = softBlock_count s"
  "currProc (upd_links f s) = currProc s"
  "ram (upd_links f s) = ram s"
  "states (upd_links f s) = states s"
  "supports (upd_links f s) = supports s"
  "tod (upd_links f s) = tod s"
  "tod_start (upd_links f s) = tod_start s"
  by (simp_all add: upd_links_def)

section \<open>phase2/src/auxfun.c\<close>

text \<open>copyState copies every field, the registers in a loop.\<close>

definition copyState :: "platform \<Rightarrow> state_t \<Rightarrow> state_t \<Rightarrow> state_t" where
  "copyState pf myStruct newState =
    (let st = myStruct\<lparr>cause := cause newState\<rparr>;
         st = st\<lparr>entry_hi := entry_hi newState\<rparr>;
         st = st\<lparr>mie := mie newState\<rparr>;
         st = st\<lparr>pc_epc := pc_epc newState\<rparr>;
         st = st\<lparr>status := status newState\<rparr>
     in fold (\<lambda>i st. st\<lparr>gpr := (gpr st)(i := gpr newState i)\<rparr>) [0..<STATE_GPR_LEN pf] st)"

definition getCurrExceptionState :: "platform \<Rightarrow> u32" where
  "getCurrExceptionState pf = BIOSDATAPAGE + PRID pf * STATE_T_SIZE_IN_BYTES"

lemma copy_gpr_loop:
  "fold (\<lambda>i st. st\<lparr>gpr := (gpr st)(i := g i)\<rparr>) [0..<n] st =
    st\<lparr>gpr := (\<lambda>i. if i < n then g i else gpr st i)\<rparr>"
  by (induction n) (auto simp: fun_eq_iff less_Suc_eq)

lemma copyState_simps [simp]:
  "cause (copyState pf d st) = cause st"
  "entry_hi (copyState pf d st) = entry_hi st"
  "mie (copyState pf d st) = mie st"
  "pc_epc (copyState pf d st) = pc_epc st"
  "status (copyState pf d st) = status st"
  "gpr (copyState pf d st) = (\<lambda>i. if i < STATE_GPR_LEN pf then gpr st i else gpr d i)"
  by (simp_all add: copyState_def copy_gpr_loop Let_def cong: if_cong)

end
