(* ===== verification/Pcb.thy ===== *)
theory Pcb
  imports Machine
begin

text \<open>
  phase1/pcb.c: the free list of PCBs, process queues ordered by priority, and
  process trees. The first part is the code; the second part gives what every
  operation does to the family of lists of the kernel (\<open>rings\<close>).
\<close>

section \<open>The code\<close>

subsection \<open>Allocation\<close>

primrec initPcbs_loop :: "nat \<Rightarrow> lnode links \<Rightarrow> lnode links" where
  "initPcbs_loop 0 l = l"
| "initPcbs_loop (Suc i) l = list_add (P_list i) PcbFree_h (initPcbs_loop i l)"

definition initPcbs :: "kernel \<Rightarrow> kernel" where
  "initPcbs s =
    (let s = upd_links (INIT_LIST_HEAD PcbFree_h) s
     in upd_links (initPcbs_loop MAXPROC) s)"

definition freePcb :: "nat \<Rightarrow> kernel \<Rightarrow> kernel" where
  "freePcb p s = upd_links (list_add (P_list p) PcbFree_h) s"

text \<open>The processor state of a fresh PCB: every field 0, the registers in a loop.\<close>

definition zero_state :: "platform \<Rightarrow> state_t \<Rightarrow> state_t" where
  "zero_state pf st =
    (let st = st\<lparr>entry_hi := 0\<rparr>;
         st = st\<lparr>cause := 0\<rparr>;
         st = st\<lparr>status := 0\<rparr>;
         st = st\<lparr>pc_epc := 0\<rparr>;
         st = st\<lparr>mie := 0\<rparr>
     in fold (\<lambda>i st. st\<lparr>gpr := (gpr st)(i := 0)\<rparr>) [0..<STATE_GPR_LEN pf] st)"

definition initPcb :: "platform \<Rightarrow> nat \<Rightarrow> kernel \<Rightarrow> kernel" where
  "initPcb pf p s =
    (let s = upd_links (INIT_LIST_HEAD (P_list p)) s;
         s = upd_pcb p (\<lambda>b. b\<lparr>p_parent := None\<rparr>) s;
         s = upd_links (INIT_LIST_HEAD (P_child p)) s;
         s = upd_links (INIT_LIST_HEAD (P_sib p)) s;
         s = upd_pcb p (\<lambda>b. b\<lparr>p_s := zero_state pf (p_s b)\<rparr>) s;
         s = upd_pcb p (\<lambda>b. b\<lparr>p_semAdd := NULL\<rparr>) s;
         s = upd_pcb p (\<lambda>b. b\<lparr>p_supportStruct := NULL\<rparr>) s;
         s = upd_pcb p (\<lambda>b. b\<lparr>p_time := 0\<rparr>) s;
         s = upd_pcb p (\<lambda>b. b\<lparr>p_prio := 0\<rparr>) s;
         s = upd_pcb p (\<lambda>b. b\<lparr>p_pid := next_pid s\<rparr>) s
     in s\<lparr>next_pid := next_pid s + 1\<rparr>)"

definition allocPcb :: "platform \<Rightarrow> kernel \<Rightarrow> (nat option \<times> kernel) option" where
  "allocPcb pf s =
    (case list_next PcbFree_h (links s) of
       None \<Rightarrow> Some (None, s)
     | Some lst \<Rightarrow> do {
         let s = upd_links (list_del lst) s;
         p \<leftarrow> container_of_p_list lst;
         Some (Some p, initPcb pf p s)
       })"

subsection \<open>Process queues\<close>

definition mkEmptyProcQ :: "lnode option \<Rightarrow> kernel \<Rightarrow> kernel" where
  "mkEmptyProcQ head s =
    (case head of Some h \<Rightarrow> upd_links (INIT_LIST_HEAD h) s | None \<Rightarrow> s)"

definition emptyProcQ :: "lnode \<Rightarrow> kernel \<Rightarrow> bool" where
  "emptyProcQ head s = list_empty head (links s)"

text \<open>
  The loop of insertProcQ stops at the first PCB of lower priority, or at the head
  when there is none; the new PCB goes before the node it stopped at.
\<close>

definition insertProcQ :: "lnode \<Rightarrow> nat \<Rightarrow> kernel \<Rightarrow> kernel option" where
  "insertProcQ head p s = do {
     let pPrio = p_prio (pcbs s p);
     r \<leftarrow> list_for_each (links s) head (\<lambda>curr. do {
            c \<leftarrow> container_of_p_list curr;
            Some (if slt (p_prio (pcbs s c)) pPrio then Some curr else None) });
     let curr = (case r of Some n \<Rightarrow> n | None \<Rightarrow> head);
     Some (upd_links (list_add (P_list p) (prv (links s) curr)) s)
   }"

text \<open>The outer option is undefinedness, the inner one the NULL the function returns.\<close>

definition headProcQ :: "lnode \<Rightarrow> kernel \<Rightarrow> nat option option" where
  "headProcQ head s =
    (if list_empty head (links s) then Some None
     else do {
       n \<leftarrow> list_next head (links s);
       p \<leftarrow> container_of_p_list n;
       Some (Some p)
     })"

definition removeProcQ :: "lnode \<Rightarrow> kernel \<Rightarrow> (nat option \<times> kernel) option" where
  "removeProcQ head s =
    (if list_empty head (links s) then Some (None, s)
     else do {
       n \<leftarrow> list_next head (links s);
       retVal \<leftarrow> container_of_p_list n;
       Some (Some retVal, upd_links (\<lambda>l. list_del (nxt l head) l) s)
     })"

definition outProcQ :: "lnode \<Rightarrow> nat \<Rightarrow> kernel \<Rightarrow> (nat option \<times> kernel) option" where
  "outProcQ head p s = do {
     r \<leftarrow> list_for_each (links s) head (\<lambda>curr. do {
            c \<leftarrow> container_of_p_list curr;
            Some (if p = c then Some curr else None) });
     case r of
       Some pos \<Rightarrow> Some (Some p, upd_links (list_del pos) s)
     | None \<Rightarrow> Some (None, s)
   }"

subsection \<open>Process trees\<close>

definition emptyChild :: "nat option \<Rightarrow> kernel \<Rightarrow> bool" where
  "emptyChild p s = (case p of None \<Rightarrow> True | Some q \<Rightarrow> list_empty (P_child q) (links s))"

definition insertChild :: "nat option \<Rightarrow> nat option \<Rightarrow> kernel \<Rightarrow> kernel" where
  "insertChild prnt p s =
    (case (prnt, p) of
       (Some pr, Some c) \<Rightarrow>
         (let s = upd_pcb c (\<lambda>b. b\<lparr>p_parent := Some pr\<rparr>) s
          in upd_links (list_add (P_sib c) (P_child pr)) s)
     | _ \<Rightarrow> s)"

definition removeChild :: "nat option \<Rightarrow> kernel \<Rightarrow> (nat option \<times> kernel) option" where
  "removeChild p s =
    (if emptyChild p s then Some (None, s)
     else do {
       q \<leftarrow> p;
       child_list \<leftarrow> list_next (P_child q) (links s);
       let s = upd_links (list_del child_list) s;
       child \<leftarrow> container_of_p_sib child_list;
       let s = upd_pcb child (\<lambda>b. b\<lparr>p_parent := None\<rparr>) s;
       Some (Some child, s)
     })"

definition outChild :: "nat option \<Rightarrow> kernel \<Rightarrow> nat option \<times> kernel" where
  "outChild p s =
    (case p of
       None \<Rightarrow> (None, s)
     | Some q \<Rightarrow>
         (if p_parent (pcbs s q) = None then (None, s)
          else
            (let s = upd_links (list_del (P_sib q)) s;
                 s = upd_pcb q (\<lambda>b. b\<lparr>p_parent := None\<rparr>) s
             in (Some q, s))))"

section \<open>Reference definitions\<close>

text \<open>
  The order a process queue keeps: priorities never increase along the queue. The
  insertion it asks for: after every PCB of the same or a higher priority.
\<close>

definition prio_sorted :: "(nat \<Rightarrow> u32) \<Rightarrow> nat list \<Rightarrow> bool" where
  "prio_sorted pr q \<longleftrightarrow> sorted_wrt (\<lambda>a b. sint (pr b) \<le> sint (pr a)) q"

definition prio_insert :: "(nat \<Rightarrow> u32) \<Rightarrow> nat \<Rightarrow> nat list \<Rightarrow> nat list" where
  "prio_insert pr p q =
    takeWhile (\<lambda>c. \<not> slt (pr c) (pr p)) q @ p # dropWhile (\<lambda>c. \<not> slt (pr c) (pr p)) q"

abbreviation prio :: "kernel \<Rightarrow> nat \<Rightarrow> u32" where
  "prio s \<equiv> (\<lambda>p. p_prio (pcbs s p))"

lemma prio_insert_split:
  obtains a b where "q = a @ b" "prio_insert pr p q = a @ p # b"
    "\<And>c. c \<in> set a \<Longrightarrow> sint (pr p) \<le> sint (pr c)"
    "\<And>d r. b = d # r \<Longrightarrow> sint (pr d) < sint (pr p)"
proof
  let ?P = "\<lambda>c. \<not> slt (pr c) (pr p)"
  show "q = takeWhile ?P q @ dropWhile ?P q" by simp
  show "prio_insert pr p q = takeWhile ?P q @ p # dropWhile ?P q"
    by (simp add: prio_insert_def)
  show "sint (pr p) \<le> sint (pr c)" if "c \<in> set (takeWhile ?P q)" for c
    using set_takeWhileD [OF that] by simp
  show "sint (pr d) < sint (pr p)" if "dropWhile ?P q = d # r" for d r
    using that hd_dropWhile [of ?P q] by force
qed

lemma set_prio_insert [simp]: "set (prio_insert pr p q) = insert p (set q)"
  by (rule prio_insert_split [of q pr p]) auto

lemma prio_insert_Nil [simp]: "prio_insert pr p [] = [p]"
  by (simp add: prio_insert_def)

lemma length_prio_insert [simp]: "length (prio_insert pr p q) = Suc (length q)"
  by (rule prio_insert_split [of q pr p]) auto

lemma distinct_prio_insert [simp]:
  "distinct (prio_insert pr p q) \<longleftrightarrow> distinct q \<and> p \<notin> set q"
  by (rule prio_insert_split [of q pr p]) auto

lemma prio_insert_sorted:
  assumes "prio_sorted pr q"
  shows "prio_sorted pr (prio_insert pr p q)"
proof -
  obtain a b where ab: "q = a @ b" "prio_insert pr p q = a @ p # b"
    "\<And>c. c \<in> set a \<Longrightarrow> sint (pr p) \<le> sint (pr c)"
    "\<And>d r. b = d # r \<Longrightarrow> sint (pr d) < sint (pr p)"
    using prio_insert_split by blast
  have "sint (pr c) \<le> sint (pr p)" if c: "c \<in> set b" for c
  proof -
    obtain d r where dr: "b = d # r" using c by (cases b) auto
    then have "sint (pr d) < sint (pr p)" by (rule ab(4))
    moreover have "sint (pr c) \<le> sint (pr d)"
      using assms c unfolding prio_sorted_def ab(1) dr by (auto simp: sorted_wrt_append)
    ultimately show ?thesis by simp
  qed
  with assms ab(1,3) show ?thesis
    unfolding ab(2) prio_sorted_def by (auto simp: sorted_wrt_append)
qed

lemma prio_insert_cong:
  assumes "\<And>c. c \<in> insert p (set q) \<Longrightarrow> pr c = pr' c"
  shows "prio_insert pr p q = prio_insert pr' p q"
proof -
  have "takeWhile (\<lambda>c. \<not> slt (pr c) (pr p)) q = takeWhile (\<lambda>c. \<not> slt (pr' c) (pr' p)) q"
    by (rule takeWhile_cong) (use assms in auto)
  moreover have "dropWhile (\<lambda>c. \<not> slt (pr c) (pr p)) q = dropWhile (\<lambda>c. \<not> slt (pr' c) (pr' p)) q"
    by (rule dropWhile_cong) (use assms in auto)
  ultimately show ?thesis by (simp add: prio_insert_def)
qed

text \<open>Sortedness only depends on the priorities of the queued PCBs.\<close>

lemma prio_sorted_cong:
  "(\<And>p. p \<in> set q \<Longrightarrow> pr p = pr' p) \<Longrightarrow> prio_sorted pr q \<longleftrightarrow> prio_sorted pr' q"
  unfolding prio_sorted_def by (induction q) auto

lemma prio_sorted_remove1: "prio_sorted pr q \<Longrightarrow> prio_sorted pr (remove1 p q)"
  unfolding prio_sorted_def by (induction q) (auto dest: notin_set_remove1)

lemma prio_sorted_filter: "prio_sorted pr q \<Longrightarrow> prio_sorted pr (filter P q)"
  unfolding prio_sorted_def by (induction q) auto

lemma prio_sorted_tl: "prio_sorted pr (p # q) \<Longrightarrow> prio_sorted pr q"
  by (simp add: prio_sorted_def)


section \<open>The operations on the family of lists\<close>

text \<open>
  A family whose list \<open>head\<close> holds the process queue \<open>q\<close>.
\<close>

lemma foreach_p_list:
  "foreach (\<lambda>n. Option.bind (container_of_p_list n) (f n)) (map P_list q) =
    foreach (\<lambda>c. f (P_list c) c) q"
  by (simp add: foreach_map comp_def)

lemma initPcbs_loop_rings:
  assumes "rings l R" "R PcbFree_h = Some []" "\<And>i. P_list i \<notin> nodes R" "n \<le> MAXPROC"
  shows "rings (initPcbs_loop n l) (R(PcbFree_h \<mapsto> map P_list (rev [0..<n])))"
  using assms(4)
proof (induction n)
  case 0
  then show ?case using assms(1,2) by (simp add: fun_upd_idem)
next
  case (Suc n)
  let ?R = "R(PcbFree_h \<mapsto> map P_list (rev [0..<n]))"
  have "P_list n \<notin> nodes ?R"
    using assms(2,3) by (fastforce simp: nodes_def split: if_splits)
  then have "rings (list_add (P_list n) PcbFree_h (initPcbs_loop n l))
    (?R(PcbFree_h \<mapsto> P_list n # map P_list (rev [0..<n])))"
    by (intro rings_list_add Suc.IH) (use Suc.prems in auto)
  moreover have "?R(PcbFree_h \<mapsto> P_list n # map P_list (rev [0..<n])) =
    R(PcbFree_h \<mapsto> map P_list (rev [0..<Suc n]))" by simp
  ultimately show ?case by (simp only: initPcbs_loop.simps)
qed

lemma emptyProcQ_iff:
  "rings (links s) R \<Longrightarrow> R head = Some (map P_list q) \<Longrightarrow> emptyProcQ head s \<longleftrightarrow> q = []"
  by (simp add: emptyProcQ_def rings_list_empty)

lemma insertProcQ_eq:
  assumes R: "rings (links s) R" and h: "R head = Some (map P_list q)"
    and p: "P_list p \<notin> nodes R"
  shows "\<exists>l. insertProcQ head p s = Some (s\<lparr>links := l\<rparr>) \<and>
    rings l (R(head \<mapsto> map P_list (prio_insert (prio s) p q)))"
proof -
  let ?P = "\<lambda>c. \<not> slt (prio s c) (prio s p)"
  let ?a = "takeWhile ?P q" and ?b = "dropWhile ?P q"
  have h': "R head = Some (map P_list ?a @ map P_list ?b)" using h by (simp flip: map_append)
  have f: "foreach (\<lambda>c. Some (if slt (prio s c) (prio s p) then Some (P_list c) else None)) q =
    Some (case ?b of [] \<Rightarrow> None | c # _ \<Rightarrow> Some (P_list c))"
    by (induction q) auto
  define curr where "curr = hd (map P_list ?b @ [head])"
  have "insertProcQ head p s = Some (upd_links (list_add (P_list p) (prv (links s) curr)) s)"
    unfolding insertProcQ_def rings_list_for_each [OF R h] foreach_p_list curr_def Let_def f
    by (cases ?b) (simp_all del: dropWhile_eq_Nil_conv)
  moreover have "prv (links s) curr = last (head # map P_list ?a)"
    unfolding curr_def by (rule ring_cut(2)) (use rings_ring [OF R h'] in simp)
  ultimately have "insertProcQ head p s =
    Some (s\<lparr>links := list_add (P_list p) (last (head # map P_list ?a)) (links s)\<rparr>)"
    by (simp only: upd_links_def)
  then show ?thesis
    using rings_list_add_at [OF R h' p] unfolding prio_insert_def map_append list.map by blast
qed

lemma headProcQ_eq:
  assumes "rings (links s) R" "R head = Some (map P_list q)"
  shows "headProcQ head s = Some (case q of [] \<Rightarrow> None | p # _ \<Rightarrow> Some p)"
  by (cases q) (simp_all add: headProcQ_def rings_list_empty [OF assms] rings_list_next [OF assms])

lemma removeProcQ_Nil:
  "rings (links s) R \<Longrightarrow> R head = Some [] \<Longrightarrow> removeProcQ head s = Some (None, s)"
  by (simp add: removeProcQ_def rings_list_empty)

lemma removeProcQ_Cons:
  assumes R: "rings (links s) R" and h: "R head = Some (map P_list (p # q))"
  shows "\<exists>l. removeProcQ head s = Some (Some p, s\<lparr>links := l\<rparr>) \<and>
    rings l (R(head \<mapsto> map P_list q))"
proof -
  have "removeProcQ head s = Some (Some p, s\<lparr>links := list_del (P_list p) (links s)\<rparr>)"
    using rings_list_empty [OF R h] rings_list_next [OF R h] rings_nxt [OF R h]
    by (simp add: removeProcQ_def upd_links_def)
  moreover have "rings (list_del (P_list p) (links s)) (R(head \<mapsto> map P_list q))"
    using rings_list_del [OF R h, of "P_list p"] by simp
  ultimately show ?thesis by blast
qed

lemma outProcQ_eq:
  assumes R: "rings (links s) R" and h: "R head = Some (map P_list q)"
  shows "\<exists>l. outProcQ head p s = Some (if p \<in> set q then Some p else None, s\<lparr>links := l\<rparr>) \<and>
    rings l (R(head \<mapsto> map P_list (remove1 p q)))"
proof -
  have d: "distinct q" using rings_distinct [OF R h] by (simp add: distinct_map)
  have eq: "outProcQ head p s = Some (if p \<in> set q then Some p else None,
    s\<lparr>links := if p \<in> set q then list_del (P_list p) (links s) else links s\<rparr>)"
    unfolding outProcQ_def rings_list_for_each [OF R h] foreach_p_list
    by (simp add: foreach_find find_eq_elem upd_links_def)
  show ?thesis
  proof (cases "p \<in> set q")
    case True
    have "rings (list_del (P_list p) (links s)) (R(head \<mapsto> remove1 (P_list p) (map P_list q)))"
      using rings_list_del [OF R h, of "P_list p"] True by simp
    moreover have "remove1 (P_list p) (map P_list q) = map P_list (remove1 p q)"
      by (simp add: remove1_map_inj inj_def)
    ultimately show ?thesis using eq True by auto
  next
    case False
    then have "R(head \<mapsto> map P_list (remove1 p q)) = R"
      using h by (simp add: remove1_idem fun_upd_idem)
    then show ?thesis using eq False R by (intro exI [of _ "links s"]) simp
  qed
qed

end
