(* ===== verification/Asl.thy ===== *)
theory Asl
  imports Pcb
begin

text \<open>
  phase1/asl.c: the active semaphore list. A semaphore is named by its address
  (the key); the descriptors of the active semaphores are on the list \<open>semd_h\<close>,
  the unused ones on \<open>semdFree_h\<close>.
\<close>

section \<open>The code\<close>

primrec initASL_loop :: "nat \<Rightarrow> lnode links \<Rightarrow> lnode links" where
  "initASL_loop 0 l = l"
| "initASL_loop (Suc i) l = list_add (S_link i) SemdFree_h (initASL_loop i l)"

definition initASL :: "kernel \<Rightarrow> kernel" where
  "initASL s =
    (let s = upd_links (INIT_LIST_HEAD SemdFree_h) s;
         s = upd_links (INIT_LIST_HEAD Semd_h) s
     in upd_links (initASL_loop MAXPROC) s)"

definition set_key :: "nat \<Rightarrow> u32 \<Rightarrow> kernel \<Rightarrow> kernel" where
  "set_key i k s = s\<lparr>semds := (semds s)(i := (semds s i)\<lparr>s_key := k\<rparr>)\<rparr>"

text \<open>
  The search all operations start with: the loop \<^verbatim>\<open>list_for_each_entry(curr, &semd_h,
  s_link)\<close> left at the first descriptor with the key.
\<close>

definition asl_find :: "u32 \<Rightarrow> kernel \<Rightarrow> nat option option" where
  "asl_find semAdd s =
    list_for_each (links s) Semd_h (\<lambda>pos. do {
      sem \<leftarrow> container_of_s_link pos;
      Some (if s_key (semds s sem) = semAdd then Some sem else None) })"

text \<open>A descriptor whose queue has become empty goes back to the free list.\<close>

definition release_semd :: "nat \<Rightarrow> kernel \<Rightarrow> kernel" where
  "release_semd i s =
    (let s = upd_links (list_del (S_link i)) s;
         s = set_key i NULL s
     in upd_links (list_add (S_link i) SemdFree_h) s)"

text \<open>The result \<open>True\<close> is the TRUE the function returns when no descriptor is free.\<close>

definition insertBlocked :: "u32 \<Rightarrow> nat \<Rightarrow> kernel \<Rightarrow> (bool \<times> kernel) option" where
  "insertBlocked semAdd p s = do {
     r \<leftarrow> asl_find semAdd s;
     case r of
       Some sem \<Rightarrow>
         (let s = upd_links (list_add_tail (P_list p) (S_procq sem)) s;
              s = upd_pcb p (\<lambda>b. b\<lparr>p_semAdd := semAdd\<rparr>) s
          in Some (False, s))
     | None \<Rightarrow>
         (if \<not> list_empty SemdFree_h (links s) then do {
            first \<leftarrow> list_next SemdFree_h (links s);
            new_sem \<leftarrow> container_of_s_link first;
            let s = upd_links (list_del first) s;
            let s = set_key new_sem semAdd s;
            let s = mkEmptyProcQ (Some (S_procq new_sem)) s;
            let s = upd_links (list_add_tail (S_link new_sem) Semd_h) s;
            let s = upd_links (list_add_tail (P_list p) (S_procq new_sem)) s;
            let s = upd_pcb p (\<lambda>b. b\<lparr>p_semAdd := semAdd\<rparr>) s;
            Some (False, s)
          } else Some (True, s))
   }"

definition removeBlocked :: "u32 \<Rightarrow> kernel \<Rightarrow> (nat option \<times> kernel) option" where
  "removeBlocked semAdd s = do {
     r \<leftarrow> asl_find semAdd s;
     case r of
       Some sem \<Rightarrow> do {
         first \<leftarrow> list_next (S_procq sem) (links s);
         p \<leftarrow> container_of_p_list first;
         let s = upd_links (list_del first) s;
         let s = (if emptyProcQ (S_procq sem) s then release_semd sem s else s);
         Some (Some p, s)
       }
     | None \<Rightarrow> Some (None, s)
   }"

text \<open>
  outBlocked looks for the PCB in the queue of every descriptor whose key is the
  semaphore address of the PCB, until it finds it.
\<close>

definition outBlocked :: "nat \<Rightarrow> kernel \<Rightarrow> (nat option \<times> kernel) option" where
  "outBlocked p s = do {
     r \<leftarrow> list_for_each (links s) Semd_h (\<lambda>pos. do {
            sem \<leftarrow> container_of_s_link pos;
            if p_semAdd (pcbs s p) = s_key (semds s sem) then do {
              found \<leftarrow> list_for_each (links s) (S_procq sem) (\<lambda>pos. do {
                        p_curr \<leftarrow> container_of_p_list pos;
                        Some (if p = p_curr then Some () else None) });
              Some (map_option (\<lambda>_. sem) found)
            } else Some None });
     case r of
       Some sem \<Rightarrow>
         (let s = upd_links (list_del (P_list p)) s;
              s = (if emptyProcQ (S_procq sem) s then release_semd sem s else s)
          in Some (Some p, s))
     | None \<Rightarrow> Some (None, s)
   }"

definition headBlocked :: "u32 \<Rightarrow> kernel \<Rightarrow> nat option option" where
  "headBlocked semAdd s = do {
     r \<leftarrow> asl_find semAdd s;
     case r of
       Some sem \<Rightarrow> headProcQ (S_procq sem) s
     | None \<Rightarrow> Some None
   }"

section \<open>Facts about the code\<close>

lemma set_key_simps [simp]:
  "links (set_key i k s) = links s"
  "pcbs (set_key i k s) = pcbs s"
  "semds (set_key i k s) = (semds s)(i := (semds s i)\<lparr>s_key := k\<rparr>)"
  by (simp_all add: set_key_def)

lemma foreach_s_link:
  "foreach (\<lambda>n. Option.bind (container_of_s_link n) (f n)) (map S_link q) =
    foreach (\<lambda>i. f (S_link i) i) q"
  by (simp add: foreach_map comp_def)

lemma initASL_loop_rings:
  assumes "rings l R" "R SemdFree_h = Some []" "\<And>i. S_link i \<notin> nodes R" "n \<le> MAXPROC"
  shows "rings (initASL_loop n l) (R(SemdFree_h \<mapsto> map S_link (rev [0..<n])))"
  using assms(4)
proof (induction n)
  case 0
  then show ?case using assms(1,2) by (simp add: fun_upd_idem)
next
  case (Suc n)
  let ?R = "R(SemdFree_h \<mapsto> map S_link (rev [0..<n]))"
  have "S_link n \<notin> nodes ?R"
    using assms(2,3) by (fastforce simp: nodes_def split: if_splits)
  then have "rings (list_add (S_link n) SemdFree_h (initASL_loop n l))
    (?R(SemdFree_h \<mapsto> S_link n # map S_link (rev [0..<n])))"
    by (intro rings_list_add Suc.IH) (use Suc.prems in auto)
  moreover have "?R(SemdFree_h \<mapsto> S_link n # map S_link (rev [0..<n])) =
    R(SemdFree_h \<mapsto> map S_link (rev [0..<Suc n]))" by simp
  ultimately show ?case by (simp only: initASL_loop.simps)
qed

text \<open>The search finds the first active descriptor with the key.\<close>

lemma asl_find_eq:
  assumes "rings (links s) R" "R Semd_h = Some (map S_link act)"
  shows "asl_find k s = Some (find (\<lambda>i. s_key (semds s i) = k) act)"
  unfolding asl_find_def rings_list_for_each [OF assms] foreach_s_link
  using foreach_find [where g = "\<lambda>i. i"] by (simp add: option.map_ident)

end
