(* ===== verification/Interfaces.thy ===== *)
theory Interfaces
  imports Prelude
begin

text \<open>
  The contracts between the components, as locales: the queues of processes waiting for
  a semaphore (provided by asl.c, used by the services and the interrupt handlers), the
  ready queue (provided by pcb.c, used by the scheduler), and the nucleus as a system of
  transitions (provided by the exception handlers). The clients' lemmas are proved here
  once; the theories of the providers interpret the locales on the model of the code.
\<close>

section \<open>Waiting queues\<close>

text \<open>At most \<open>n\<close> removals from the queue of \<open>k\<close>: the elements in the order they come.\<close>

fun takes :: "('k \<Rightarrow> 's \<Rightarrow> ('p option \<times> 's) option) \<Rightarrow> nat \<Rightarrow> 'k \<Rightarrow> 's \<Rightarrow> ('p list \<times> 's) option" where
  "takes f 0 k s = Some ([], s)"
| "takes f (Suc n) k s = Option.bind (f k s) (\<lambda>(r, s). case r of
      None \<Rightarrow> Some ([], s)
    | Some p \<Rightarrow> Option.bind (takes f n k s) (\<lambda>(ps, s). Some (p # ps, s)))"

locale wait_queues =
  fixes inv :: "'s \<Rightarrow> 'a \<Rightarrow> bool"
    and idle :: "'a \<Rightarrow> 'p \<Rightarrow> bool"
    and view :: "'s \<Rightarrow> 'a \<Rightarrow> 'k \<Rightarrow> 'p list"
    and block :: "'k \<Rightarrow> 'p \<Rightarrow> 's \<Rightarrow> (bool \<times> 's) option"
    and unblock1 :: "'k \<Rightarrow> 's \<Rightarrow> ('p option \<times> 's) option"
  assumes block_law: "inv s a \<Longrightarrow> idle a p \<Longrightarrow>
      \<exists>s' a'. block k p s = Some (False, s') \<and> inv s' a' \<and> view s' a' = (view s a)(k := view s a k @ [p])"
    and unblock_Nil: "inv s a \<Longrightarrow> view s a k = [] \<Longrightarrow> unblock1 k s = Some (None, s)"
    and unblock_Cons: "inv s a \<Longrightarrow> view s a k = p # q \<Longrightarrow>
      \<exists>s' a'. unblock1 k s = Some (Some p, s') \<and> inv s' a' \<and> view s' a' = (view s a)(k := q) \<and> idle a' p"
begin

text \<open>Removals return the waiting elements first in, first out, and leave the other queues alone.\<close>

lemma takes_fifo:
  assumes "inv s a"
  shows "\<exists>s' a'. takes unblock1 n k s = Some (take n (view s a k), s') \<and> inv s' a' \<and>
    view s' a' = (view s a)(k := drop n (view s a k))"
  using assms
proof (induction n arbitrary: s a)
  case 0
  then show ?case by (intro exI [of _ s] exI [of _ a]) simp
next
  case (Suc n)
  show ?case
  proof (cases "view s a k")
    case Nil
    then show ?thesis
      using unblock_Nil [OF Suc.prems Nil] Suc.prems
      by (intro exI [of _ s] exI [of _ a]) (simp add: fun_upd_idem)
  next
    case (Cons p q)
    from unblock_Cons [OF Suc.prems Cons] obtain s1 a1 where
      u: "unblock1 k s = Some (Some p, s1)" "inv s1 a1" "view s1 a1 = (view s a)(k := q)" by blast
    have k: "view s1 a1 k = q" "(view s1 a1)(k := drop n q) = (view s a)(k := drop n q)"
      using u(3) by simp_all
    from Suc.IH [OF u(2)] obtain s2 a2 where
      t: "takes unblock1 n k s1 = Some (take n q, s2)" "inv s2 a2" "view s2 a2 = (view s a)(k := drop n q)"
      unfolding k by blast
    then show ?thesis
      using u(1) Cons by (intro exI [of _ s2] exI [of _ a2]) simp
  qed
qed

text \<open>
  Bounded bypass: an element that blocks behind \<open>n\<close> others comes out last of the next
  \<open>n + 1\<close> removals, whatever the other queues hold.
\<close>

lemma block_then_takes:
  assumes "inv s a" "idle a p"
  shows "\<exists>s1 s2 a2. block k p s = Some (False, s1) \<and>
    takes unblock1 (Suc (length (view s a k))) k s1 = Some (view s a k @ [p], s2) \<and>
    inv s2 a2 \<and> view s2 a2 = (view s a)(k := [])"
proof -
  obtain s1 a1 where b: "block k p s = Some (False, s1)" "inv s1 a1"
    "view s1 a1 = (view s a)(k := view s a k @ [p])" using block_law [OF assms] by blast
  from takes_fifo [OF b(2), of "Suc (length (view s a k))" k] show ?thesis
    using b by (auto simp: b(3))
qed

end

section \<open>Priority queues\<close>

locale prio_queue =
  fixes inv :: "'s \<Rightarrow> 'a \<Rightarrow> bool"
    and idle :: "'a \<Rightarrow> 'p \<Rightarrow> bool"
    and queue :: "'a \<Rightarrow> 'p list"
    and rank :: "'s \<Rightarrow> 'p \<Rightarrow> int"
    and ins :: "'p \<Rightarrow> 's \<Rightarrow> 's option"
    and rem :: "'s \<Rightarrow> ('p option \<times> 's) option"
  assumes sorted_law: "inv s a \<Longrightarrow> sorted_wrt (\<lambda>x y. rank s y \<le> rank s x) (queue a)"
    and ins_law: "inv s a \<Longrightarrow> idle a p \<Longrightarrow>
      \<exists>s' a' xs ys. ins p s = Some s' \<and> inv s' a' \<and> rank s' = rank s \<and>
        queue a = xs @ ys \<and> queue a' = xs @ p # ys \<and>
        (\<forall>x\<in>set xs. rank s p \<le> rank s x) \<and> (\<forall>y\<in>set ys. rank s y < rank s p)"
    and rem_Nil: "inv s a \<Longrightarrow> queue a = [] \<Longrightarrow> rem s = Some (None, s)"
    and rem_Cons: "inv s a \<Longrightarrow> queue a = p # q \<Longrightarrow>
      \<exists>s' a'. rem s = Some (Some p, s') \<and> inv s' a' \<and> queue a' = q \<and> rank s' = rank s \<and> idle a' p"
begin

text \<open>The element removed has the highest priority.\<close>

lemma rem_max:
  assumes "inv s a" "queue a \<noteq> []"
  shows "\<exists>p s' a'. rem s = Some (Some p, s') \<and> inv s' a' \<and> queue a = p # queue a' \<and>
    (\<forall>q\<in>set (queue a'). rank s q \<le> rank s p)"
proof -
  obtain p q where q: "queue a = p # q" using assms(2) by (cases "queue a") auto
  with rem_Cons [OF assms(1) q] sorted_law [OF assms(1)] show ?thesis by fastforce
qed

text \<open>
  An inserted element is removed before every element of lower priority and after every
  one that was queued with the same or a higher priority: removal right after insertion
  returns the new element only when all others have a lower priority.
\<close>

lemma ins_rem:
  assumes "inv s a" "idle a p"
  shows "\<exists>s1 s2 a2. ins p s = Some s1 \<and> inv s2 a2 \<and>
    (if \<forall>q\<in>set (queue a). rank s q < rank s p
     then rem s1 = Some (Some p, s2) \<and> queue a2 = queue a
     else rem s1 = Some (Some (hd (queue a)), s2) \<and> rank s p \<le> rank s (hd (queue a)))"
proof -
  obtain s1 a1 xs ys where i: "ins p s = Some s1" "inv s1 a1" "queue a = xs @ ys" "queue a1 = xs @ p # ys"
    "\<forall>x\<in>set xs. rank s p \<le> rank s x" "\<forall>y\<in>set ys. rank s y < rank s p"
    using ins_law [OF assms] by blast
  show ?thesis
  proof (cases xs)
    case Nil
    with i(4) rem_Cons [OF i(2), of p ys] i(1,3,6) show ?thesis by auto
  next
    case (Cons x xs')
    with i(4) rem_Cons [OF i(2), of x "xs' @ p # ys"] i(1,3,5) show ?thesis by force
  qed
qed

end

section \<open>Transition systems\<close>

inductive reach :: "('s \<Rightarrow> bool) \<Rightarrow> ('s \<Rightarrow> 's \<Rightarrow> bool) \<Rightarrow> 's \<Rightarrow> bool" for init step where
  reach_init: "init s \<Longrightarrow> reach init step s"
| reach_step: "reach init step s \<Longrightarrow> step s s' \<Longrightarrow> reach init step s'"

locale transition_system =
  fixes init :: "'s \<Rightarrow> bool" and step :: "'s \<Rightarrow> 's \<Rightarrow> bool" and inv :: "'s \<Rightarrow> bool"
  assumes init_inv: "init s \<Longrightarrow> inv s"
    and step_inv: "inv s \<Longrightarrow> step s s' \<Longrightarrow> inv s'"
begin

lemma reach_inv: "reach init step s \<Longrightarrow> inv s"
  by (induction rule: reach.induct) (auto intro: init_inv step_inv)

end

text \<open>A system that also answers every enabled request, with a step of its own.\<close>

locale responsive_system = transition_system init step inv
  for init :: "'s \<Rightarrow> bool" and step :: "'s \<Rightarrow> 's \<Rightarrow> bool" and inv :: "'s \<Rightarrow> bool" +
  fixes enabled :: "'s \<Rightarrow> bool" and answer :: "'s \<Rightarrow> ('e \<times> 's) option"
  assumes answer_law: "inv s \<Longrightarrow> enabled s \<Longrightarrow> \<exists>e s'. answer s = Some (e, s') \<and> step s s'"
begin

lemma reach_answer:
  assumes "reach init step s" "enabled s"
  shows "\<exists>e s'. answer s = Some (e, s') \<and> reach init step s'"
  using answer_law [OF reach_inv [OF assms(1)] assms(2)] reach_step [OF assms(1)] by blast

end

end
