(* ===== verification/Phase1.thy ===== *)
theory Phase1
  imports Asl Interfaces
begin

text \<open>
  The abstract state of the data structures of phase 1 and the refinement: every
  operation of pcb.c and asl.c, run on the linked structures, is defined (no NULL
  is dereferenced, no loop runs forever) and acts on the abstract state as a plain
  list operation. The predicate \<open>kwf\<close> relates the kernel state to the abstract state
  and carries the invariants of the structures.
\<close>

section \<open>The abstract state\<close>

record phase1 =
  a_free :: "nat list"             \<comment> \<open>the free PCBs, in list order\<close>
  a_ready :: "nat list"            \<comment> \<open>the ready queue\<close>
  a_sfree :: "nat list"            \<comment> \<open>the free semaphore descriptors\<close>
  a_asl :: "nat list"              \<comment> \<open>the active semaphore descriptors\<close>
  a_procq :: "nat \<Rightarrow> nat list"     \<comment> \<open>the PCBs blocked on a descriptor\<close>
  a_child :: "nat \<Rightarrow> nat list"     \<comment> \<open>the children of a PCB\<close>

definition live :: "phase1 \<Rightarrow> nat set" where
  "live a = {p. p < MAXPROC \<and> p \<notin> set (a_free a)}"

text \<open>The PCBs in the ready queue or on a semaphore.\<close>

definition blocked :: "phase1 \<Rightarrow> nat set" where
  "blocked a = (\<Union>i\<in>set (a_asl a). set (a_procq a i))"

text \<open>The family of linked lists that represents an abstract state.\<close>

fun lists_of :: "phase1 \<Rightarrow> lnode \<Rightarrow> lnode list option" where
  "lists_of a PcbFree_h = Some (map P_list (a_free a))"
| "lists_of a ReadyQueue = Some (map P_list (a_ready a))"
| "lists_of a SemdFree_h = Some (map S_link (a_sfree a))"
| "lists_of a Semd_h = Some (map S_link (a_asl a))"
| "lists_of a (P_child p) = (if p \<in> live a then Some (map P_sib (a_child a p)) else None)"
| "lists_of a (S_procq i) = (if i \<in> set (a_asl a) then Some (map P_list (a_procq a i)) else None)"
| "lists_of a (P_list p) = None"
| "lists_of a (P_sib p) = None"
| "lists_of a (S_link i) = None"

abbreviation key :: "kernel \<Rightarrow> nat \<Rightarrow> u32" where
  "key s \<equiv> (\<lambda>i. s_key (semds s i))"

abbreviation parent :: "kernel \<Rightarrow> nat \<Rightarrow> nat option" where
  "parent s \<equiv> (\<lambda>p. p_parent (pcbs s p))"

abbreviation semAdd :: "kernel \<Rightarrow> nat \<Rightarrow> u32" where
  "semAdd s \<equiv> (\<lambda>p. p_semAdd (pcbs s p))"

text \<open>The processes waiting on the semaphore with address \<open>k\<close>, in FIFO order.\<close>

definition waiting :: "kernel \<Rightarrow> phase1 \<Rightarrow> u32 \<Rightarrow> nat list" where
  "waiting s a k = (case find (\<lambda>i. key s i = k) (a_asl a) of None \<Rightarrow> [] | Some i \<Rightarrow> a_procq a i)"

section \<open>The invariant\<close>

definition wf_pcbs :: "phase1 \<Rightarrow> bool" where
  "wf_pcbs a \<longleftrightarrow>
    set (a_free a) \<subseteq> {..<MAXPROC} \<and> set (a_ready a) \<subseteq> live a \<and> blocked a \<subseteq> live a"

text \<open>
  The active semaphore list: every descriptor is either free or active, no two
  active descriptors have the same key, the queue of an active descriptor is not
  empty, and every PCB in it records the key.
\<close>

definition wf_asl :: "kernel \<Rightarrow> phase1 \<Rightarrow> bool" where
  "wf_asl s a \<longleftrightarrow>
    set (a_sfree a) \<union> set (a_asl a) = {..<MAXPROC} \<and>
    distinct (map (key s) (a_asl a)) \<and>
    (\<forall>i\<in>set (a_asl a). a_procq a i \<noteq> [] \<and> (\<forall>p\<in>set (a_procq a i). semAdd s p = key s i))"

text \<open>
  The process trees: the children list of a process holds exactly the processes
  whose parent field names it, parents are live, and there is no cycle (a rank
  that grows from parent to child).
\<close>

definition wf_tree :: "kernel \<Rightarrow> phase1 \<Rightarrow> bool" where
  "wf_tree s a \<longleftrightarrow>
    (\<forall>p\<in>live a. set (a_child a p) = {c \<in> live a. parent s c = Some p}) \<and>
    (\<forall>c\<in>live a. \<forall>p. parent s c = Some p \<longrightarrow> p \<in> live a) \<and>
    (\<exists>rk :: nat \<Rightarrow> nat. \<forall>c\<in>live a. \<forall>p. parent s c = Some p \<longrightarrow> rk p < rk c)"

definition kwf :: "kernel \<Rightarrow> phase1 \<Rightarrow> bool" where
  "kwf s a \<longleftrightarrow> rings (links s) (lists_of a) \<and> wf_pcbs a \<and> wf_asl s a \<and> wf_tree s a"

lemma wf_rings: "kwf s a \<Longrightarrow> rings (links s) (lists_of a)"
  by (simp add: kwf_def)

lemma wfD:
  assumes "kwf s a"
  shows "wf_pcbs a" and "wf_asl s a" and "wf_tree s a"
  using assms by (simp_all only: kwf_def)

text \<open>The invariant only reads these parts of the kernel state.\<close>

lemma wf_cong:
  assumes "links s' = links s"
    and "\<And>i. i \<in> set (a_asl a) \<Longrightarrow> key s' i = key s i"
    and "\<And>p. p \<in> blocked a \<Longrightarrow> semAdd s' p = semAdd s p"
    and "\<And>p. p \<in> live a \<Longrightarrow> parent s' p = parent s p"
  shows "kwf s' a \<longleftrightarrow> kwf s a"
proof -
  have m: "map (key s') (a_asl a) = map (key s) (a_asl a)" using assms(2) by simp
  have "(\<forall>p\<in>set (a_procq a i). semAdd s' p = key s' i) \<longleftrightarrow>
      (\<forall>p\<in>set (a_procq a i). semAdd s p = key s i)" if "i \<in> set (a_asl a)" for i
    using that assms(2) [OF that] assms(3) unfolding blocked_def by (metis UN_I)
  then have "wf_asl s' a \<longleftrightarrow> wf_asl s a" unfolding wf_asl_def m by blast
  moreover have "wf_tree s' a \<longleftrightarrow> wf_tree s a"
    using assms(4) unfolding wf_tree_def by auto
  ultimately show ?thesis using assms(1) by (simp add: kwf_def)
qed

text \<open>What each part of the invariant does not read.\<close>

lemma live_upd [simp]:
  "live (a\<lparr>a_ready := q\<rparr>) = live a" "live (a\<lparr>a_sfree := f\<rparr>) = live a"
  "live (a\<lparr>a_asl := f\<rparr>) = live a" "live (a\<lparr>a_procq := g\<rparr>) = live a"
  "live (a\<lparr>a_child := g\<rparr>) = live a"
  by (simp_all add: live_def)

lemma blocked_upd [simp]:
  "blocked (a\<lparr>a_ready := q\<rparr>) = blocked a" "blocked (a\<lparr>a_sfree := f\<rparr>) = blocked a"
  "blocked (a\<lparr>a_free := f\<rparr>) = blocked a" "blocked (a\<lparr>a_child := g\<rparr>) = blocked a"
  by (simp_all add: blocked_def)

lemma wf_tree_upd [simp]:
  "wf_tree (s\<lparr>links := l\<rparr>) a = wf_tree s a" "wf_tree (s\<lparr>semds := d\<rparr>) a = wf_tree s a"
  "wf_tree s (a\<lparr>a_ready := q\<rparr>) = wf_tree s a" "wf_tree s (a\<lparr>a_sfree := f\<rparr>) = wf_tree s a"
  "wf_tree s (a\<lparr>a_asl := f\<rparr>) = wf_tree s a" "wf_tree s (a\<lparr>a_procq := g\<rparr>) = wf_tree s a"
  by (simp_all add: wf_tree_def)

lemma wf_asl_upd [simp]:
  "wf_asl (s\<lparr>links := l\<rparr>) a = wf_asl s a" "wf_asl s (a\<lparr>a_ready := q\<rparr>) = wf_asl s a"
  "wf_asl s (a\<lparr>a_free := f\<rparr>) = wf_asl s a" "wf_asl s (a\<lparr>a_child := g\<rparr>) = wf_asl s a"
  by (simp_all add: wf_asl_def)

lemma wf_tree_cong:
  assumes "live a' = live a" "a_child a' = a_child a" "\<And>p. parent s' p = parent s p"
  shows "wf_tree s' a' \<longleftrightarrow> wf_tree s a"
  by (simp only: wf_tree_def assms)

section \<open>Nodes of the lists\<close>

lemma ex_lnode:
  "(\<exists>h. P h) \<longleftrightarrow> P PcbFree_h \<or> P ReadyQueue \<or> P SemdFree_h \<or> P Semd_h \<or> (\<exists>p. P (P_list p)) \<or>
    (\<exists>p. P (P_child p)) \<or> (\<exists>p. P (P_sib p)) \<or> (\<exists>i. P (S_procq i)) \<or> (\<exists>i. P (S_link i))"
  by (metis lnode.exhaust)

lemma nodes_lists_of [simp]:
  "P_list p \<in> nodes (lists_of a) \<longleftrightarrow> p \<in> set (a_free a) \<or> p \<in> set (a_ready a) \<or> p \<in> blocked a"
  "P_sib c \<in> nodes (lists_of a) \<longleftrightarrow> (\<exists>p\<in>live a. c \<in> set (a_child a p))"
  "S_link i \<in> nodes (lists_of a) \<longleftrightarrow> i \<in> set (a_sfree a) \<or> i \<in> set (a_asl a)"
  "P_child p \<in> nodes (lists_of a) \<longleftrightarrow> p \<in> live a"
  "S_procq i \<in> nodes (lists_of a) \<longleftrightarrow> i \<in> set (a_asl a)"
  unfolding nodes_def mem_Collect_eq ex_lnode by (auto simp: blocked_def split: if_splits)

lemma members_lists_of [simp]:
  "P_child p \<notin> members (lists_of a)"
  "S_procq i \<notin> members (lists_of a)"
  unfolding members_def mem_Collect_eq ex_lnode by (auto split: if_splits)

text \<open>How updates of the abstract state act on its family of lists.\<close>

lemma lists_of_ready [lists_simps]:
  "lists_of (a\<lparr>a_ready := q\<rparr>) = (lists_of a)(ReadyQueue \<mapsto> map P_list q)"
proof
  show "lists_of (a\<lparr>a_ready := q\<rparr>) n = ((lists_of a)(ReadyQueue \<mapsto> map P_list q)) n" for n
    by (cases n) (auto simp: live_def)
qed

lemma lists_of_child [lists_simps]:
  "p \<in> live a \<Longrightarrow>
    lists_of (a\<lparr>a_child := (a_child a)(p := cs)\<rparr>) = (lists_of a)(P_child p \<mapsto> map P_sib cs)"
proof
  show "lists_of (a\<lparr>a_child := (a_child a)(p := cs)\<rparr>) n =
    ((lists_of a)(P_child p \<mapsto> map P_sib cs)) n" if "p \<in> live a" for n
    using that by (cases n) (auto simp: live_def)
qed

lemma lists_of_alloc [lists_simps]:
  assumes "a_free a = p # f" "p < MAXPROC" "p \<notin> set f"
  shows "lists_of (a\<lparr>a_free := f, a_child := (a_child a)(p := [])\<rparr>) =
    (lists_of a)(PcbFree_h \<mapsto> map P_list f, P_child p \<mapsto> [])"
proof
  show "lists_of (a\<lparr>a_free := f, a_child := (a_child a)(p := [])\<rparr>) n =
    ((lists_of a)(PcbFree_h \<mapsto> map P_list f, P_child p \<mapsto> [])) n" for n
    using assms by (cases n) (auto simp: live_def)
qed

lemma lists_of_free [lists_simps]:
  "lists_of (a\<lparr>a_free := p # a_free a\<rparr>) =
    (lists_of a)(PcbFree_h \<mapsto> map P_list (p # a_free a), P_child p := None)"
proof
  show "lists_of (a\<lparr>a_free := p # a_free a\<rparr>) n =
    ((lists_of a)(PcbFree_h \<mapsto> map P_list (p # a_free a), P_child p := None)) n" for n
    by (cases n) (auto simp: live_def)
qed

lemma lists_of_procq [lists_simps]:
  "i \<in> set (a_asl a) \<Longrightarrow>
    lists_of (a\<lparr>a_procq := (a_procq a)(i := q)\<rparr>) = (lists_of a)(S_procq i \<mapsto> map P_list q)"
proof
  show "lists_of (a\<lparr>a_procq := (a_procq a)(i := q)\<rparr>) n =
    ((lists_of a)(S_procq i \<mapsto> map P_list q)) n" if "i \<in> set (a_asl a)" for n
    using that by (cases n) (auto simp: live_def)
qed

text \<open>A descriptor becomes active with a queue, or inactive.\<close>

lemma lists_of_activate [lists_simps]:
  assumes "a_sfree a = i # f"
  shows "lists_of (a\<lparr>a_sfree := f, a_asl := a_asl a @ [i], a_procq := (a_procq a)(i := q)\<rparr>) =
    (lists_of a)(SemdFree_h \<mapsto> map S_link f, Semd_h \<mapsto> map S_link (a_asl a @ [i]),
      S_procq i \<mapsto> map P_list q)"
proof
  show "lists_of (a\<lparr>a_sfree := f, a_asl := a_asl a @ [i], a_procq := (a_procq a)(i := q)\<rparr>) n =
    ((lists_of a)(SemdFree_h \<mapsto> map S_link f, Semd_h \<mapsto> map S_link (a_asl a @ [i]),
      S_procq i \<mapsto> map P_list q)) n" for n
    by (cases n) (auto simp: live_def)
qed

lemma lists_of_release [lists_simps]:
  assumes "distinct (a_asl a)"
  shows "lists_of (a\<lparr>a_sfree := i # a_sfree a, a_asl := remove1 i (a_asl a)\<rparr>) =
    (lists_of a)(Semd_h \<mapsto> map S_link (remove1 i (a_asl a)),
      SemdFree_h \<mapsto> map S_link (i # a_sfree a), S_procq i := None)"
proof
  show "lists_of (a\<lparr>a_sfree := i # a_sfree a, a_asl := remove1 i (a_asl a)\<rparr>) n =
    ((lists_of a)(Semd_h \<mapsto> map S_link (remove1 i (a_asl a)),
      SemdFree_h \<mapsto> map S_link (i # a_sfree a), S_procq i := None)) n" for n
    using assms by (cases n) (auto simp: live_def set_remove1_eq)
qed

section \<open>Disjointness of the queues\<close>

lemma wf_distinct:
  assumes "kwf s a"
  shows "distinct (a_free a)" and "distinct (a_ready a)" and "distinct (a_sfree a)"
    and "distinct (a_asl a)"
    and "\<And>i. i \<in> set (a_asl a) \<Longrightarrow> distinct (a_procq a i)"
    and "\<And>p. p \<in> live a \<Longrightarrow> distinct (a_child a p)"
proof -
  note R = wf_rings [OF assms]
  show "distinct (a_free a)" using rings_distinct [OF R, of PcbFree_h] by (simp add: distinct_map)
  show "distinct (a_ready a)" using rings_distinct [OF R, of ReadyQueue] by (simp add: distinct_map)
  show "distinct (a_sfree a)" using rings_distinct [OF R, of SemdFree_h] by (simp add: distinct_map)
  show "distinct (a_asl a)" using rings_distinct [OF R, of Semd_h] by (simp add: distinct_map)
  show "distinct (a_procq a i)" if "i \<in> set (a_asl a)" for i
    using that rings_distinct [OF R, of "S_procq i"] by (simp add: distinct_map)
  show "distinct (a_child a p)" if "p \<in> live a" for p
    using that rings_distinct [OF R, of "P_child p"] by (simp add: distinct_map)
qed

lemma wf_disjoint:
  assumes "kwf s a"
  shows "set (a_ready a) \<inter> set (a_free a) = {}"
    and "blocked a \<inter> set (a_free a) = {}"
    and "blocked a \<inter> set (a_ready a) = {}"
    and "set (a_sfree a) \<inter> set (a_asl a) = {}"
proof -
  note R = wf_rings [OF assms]
  show "set (a_ready a) \<inter> set (a_free a) = {}"
    using rings_unique_list [OF R, of ReadyQueue _ PcbFree_h _ "P_list _"] by fastforce
  have *: "p \<notin> set (a_free a)" "p \<notin> set (a_ready a)"
    if "i \<in> set (a_asl a)" "p \<in> set (a_procq a i)" for i p
    using that rings_unique_list [OF R, of "S_procq i" "map P_list (a_procq a i)" PcbFree_h
        "map P_list (a_free a)" "P_list p"]
      rings_unique_list [OF R, of "S_procq i" "map P_list (a_procq a i)" ReadyQueue
        "map P_list (a_ready a)" "P_list p"] by auto
  show "blocked a \<inter> set (a_free a) = {}" using *(1) by (auto simp: blocked_def)
  show "blocked a \<inter> set (a_ready a) = {}" using *(2) by (auto simp: blocked_def)
  show "set (a_sfree a) \<inter> set (a_asl a) = {}"
    using rings_unique_list [OF R, of SemdFree_h _ Semd_h _ "S_link _"] by fastforce
qed

lemma wf_procq_disjoint:
  assumes "kwf s a" "i \<in> set (a_asl a)" "j \<in> set (a_asl a)" "i \<noteq> j"
  shows "set (a_procq a i) \<inter> set (a_procq a j) = {}"
  using rings_unique_list [OF wf_rings [OF assms(1)], of "S_procq i" _ "S_procq j" _ "P_list _"]
    assms(2-4) by fastforce


section \<open>The operations of pcb.c\<close>

text \<open>
  A process that is in no queue: allocated, not ready and not blocked. The running
  process is one.
\<close>

definition detached :: "phase1 \<Rightarrow> nat \<Rightarrow> bool" where
  "detached a p \<longleftrightarrow> p \<in> live a \<and> p \<notin> set (a_ready a) \<and> p \<notin> blocked a"

lemma detached_not_node: "detached a p \<Longrightarrow> P_list p \<notin> nodes (lists_of a)"
  by (auto simp: detached_def live_def)

lemma live_not_free: "p \<in> live a \<Longrightarrow> p \<notin> set (a_free a)"
  by (simp add: live_def)

subsection \<open>Process queues\<close>

lemma insertProcQ_ready:
  assumes "kwf s a" "detached a p"
  shows "\<exists>l. insertProcQ ReadyQueue p s = Some (s\<lparr>links := l\<rparr>) \<and>
    kwf (s\<lparr>links := l\<rparr>) (a\<lparr>a_ready := prio_insert (prio s) p (a_ready a)\<rparr>)"
proof -
  obtain l where l: "insertProcQ ReadyQueue p s = Some (s\<lparr>links := l\<rparr>)"
    "rings l ((lists_of a)(ReadyQueue \<mapsto> map P_list (prio_insert (prio s) p (a_ready a))))"
    using insertProcQ_eq [OF wf_rings [OF assms(1)], of ReadyQueue "a_ready a" p]
      detached_not_node [OF assms(2)] by auto
  have "wf_pcbs (a\<lparr>a_ready := prio_insert (prio s) p (a_ready a)\<rparr>)"
    using assms by (auto simp: kwf_def wf_pcbs_def detached_def)
  then have "kwf (s\<lparr>links := l\<rparr>) (a\<lparr>a_ready := prio_insert (prio s) p (a_ready a)\<rparr>)"
    using assms(1) l(2) by (simp add: kwf_def lists_of_ready)
  with l(1) show ?thesis by blast
qed

lemma wf_ready_subset:
  assumes "kwf s a" "rings l ((lists_of a)(ReadyQueue \<mapsto> map P_list q))"
    and "set q \<subseteq> set (a_ready a)"
  shows "kwf (s\<lparr>links := l\<rparr>) (a\<lparr>a_ready := q\<rparr>)"
proof -
  have "wf_pcbs (a\<lparr>a_ready := q\<rparr>)"
    using assms(1,3) by (auto simp: kwf_def wf_pcbs_def)
  then show ?thesis using assms(1,2) by (simp add: kwf_def lists_of_ready)
qed

lemma removeProcQ_ready:
  assumes "kwf s a" "a_ready a = p # q"
  shows "\<exists>l. removeProcQ ReadyQueue s = Some (Some p, s\<lparr>links := l\<rparr>) \<and>
    kwf (s\<lparr>links := l\<rparr>) (a\<lparr>a_ready := q\<rparr>)"
proof -
  obtain l where l: "removeProcQ ReadyQueue s = Some (Some p, s\<lparr>links := l\<rparr>)"
    "rings l ((lists_of a)(ReadyQueue \<mapsto> map P_list q))"
    using removeProcQ_Cons [OF wf_rings [OF assms(1)], of ReadyQueue p q] assms(2) by auto
  moreover have "kwf (s\<lparr>links := l\<rparr>) (a\<lparr>a_ready := q\<rparr>)"
    by (rule wf_ready_subset [OF assms(1) l(2)]) (use assms(2) in auto)
  ultimately show ?thesis by blast
qed

lemma removeProcQ_ready_empty:
  "kwf s a \<Longrightarrow> a_ready a = [] \<Longrightarrow> removeProcQ ReadyQueue s = Some (None, s)"
  using removeProcQ_Nil [OF wf_rings, of s a ReadyQueue] by simp

lemma outProcQ_ready:
  assumes "kwf s a"
  shows "\<exists>l. outProcQ ReadyQueue p s =
      Some (if p \<in> set (a_ready a) then Some p else None, s\<lparr>links := l\<rparr>) \<and>
    kwf (s\<lparr>links := l\<rparr>) (a\<lparr>a_ready := remove1 p (a_ready a)\<rparr>)"
proof -
  obtain l where l: "outProcQ ReadyQueue p s =
      Some (if p \<in> set (a_ready a) then Some p else None, s\<lparr>links := l\<rparr>)"
    "rings l ((lists_of a)(ReadyQueue \<mapsto> map P_list (remove1 p (a_ready a))))"
    using outProcQ_eq [OF wf_rings [OF assms], of ReadyQueue "a_ready a" p] by auto
  moreover have "kwf (s\<lparr>links := l\<rparr>) (a\<lparr>a_ready := remove1 p (a_ready a)\<rparr>)"
    by (rule wf_ready_subset [OF assms l(2)]) (rule set_remove1_subset)
  ultimately show ?thesis by blast
qed

lemma emptyProcQ_ready: "kwf s a \<Longrightarrow> emptyProcQ ReadyQueue s \<longleftrightarrow> a_ready a = []"
  using emptyProcQ_iff [OF wf_rings, of s a ReadyQueue "a_ready a"] by simp

subsection \<open>Allocation\<close>

lemma zero_state_simps [simp]:
  "cause (zero_state pf st) = 0" "entry_hi (zero_state pf st) = 0"
  "mie (zero_state pf st) = 0" "pc_epc (zero_state pf st) = 0" "status (zero_state pf st) = 0"
  "gpr (zero_state pf st) = (\<lambda>i. if i < STATE_GPR_LEN pf then 0 else gpr st i)"
  by (simp_all add: zero_state_def copy_gpr_loop [where g = "\<lambda>_. 0"] Let_def cong: if_cong)

definition fresh_pcb :: "platform \<Rightarrow> u32 \<Rightarrow> pcb_t \<Rightarrow> pcb_t" where
  "fresh_pcb pf pid b = \<lparr>p_parent = None, p_s = zero_state pf (p_s b), p_time = 0,
    p_semAdd = NULL, p_supportStruct = NULL, p_prio = 0, p_pid = pid\<rparr>"

lemma initPcb_eq:
  "initPcb pf p s = s\<lparr>
     links := INIT_LIST_HEAD (P_sib p) (INIT_LIST_HEAD (P_child p) (INIT_LIST_HEAD (P_list p) (links s))),
     pcbs := (pcbs s)(p := fresh_pcb pf (next_pid s) (pcbs s p)),
     next_pid := next_pid s + 1\<rparr>"
  by (cases "pcbs s p") (simp add: initPcb_def upd_links_def upd_pcb_def fresh_pcb_def Let_def)

text \<open>Resetting a node that is on no list and heads no list changes nothing.\<close>

lemma rings_INIT_free_node:
  "rings l R \<Longrightarrow> n \<notin> nodes R \<Longrightarrow> rings (INIT_LIST_HEAD n l) R"
  by (erule rings_frame) (auto simp: links_simps)

lemma allocPcb_Nil: "kwf s a \<Longrightarrow> a_free a = [] \<Longrightarrow> allocPcb pf s = Some (None, s)"
  using rings_list_next [OF wf_rings, of s a PcbFree_h] by (simp add: allocPcb_def)

lemma wf_tree_alloc:
  assumes "wf_tree s a" "a_free a = p # f" "distinct (a_free a)" "p < MAXPROC"
    and "parent s' p = None" "\<And>q. q \<noteq> p \<Longrightarrow> parent s' q = parent s q"
  shows "wf_tree s' (a\<lparr>a_free := f, a_child := (a_child a)(p := [])\<rparr>)" (is "wf_tree s' ?a")
proof -
  have live: "live (a\<lparr>a_free := f\<rparr>) = insert p (live a)" and p: "p \<notin> live a"
    using assms(2-4) by (auto simp: live_def)
  have T: "\<And>q. q \<in> live a \<Longrightarrow> set (a_child a q) = {c \<in> live a. parent s c = Some q}"
    "\<And>c q. c \<in> live a \<Longrightarrow> parent s c = Some q \<Longrightarrow> q \<in> live a"
    using assms(1) unfolding wf_tree_def by blast+
  obtain rk :: "nat \<Rightarrow> nat"
    where rk: "\<forall>c\<in>live a. \<forall>p. parent s c = Some p \<longrightarrow> rk p < rk c"
    using assms(1) unfolding wf_tree_def by blast
  have old: "parent s' c = parent s c" if "c \<in> live a" for c
    using that p assms(6) by metis
  have "{c \<in> live ?a. parent s' c = Some q} = {c \<in> live a. parent s c = Some q}" for q
    using old assms(5) by (auto simp: live)
  moreover have "{c \<in> live a. parent s c = Some p} = {}" using T(2) p by blast
  ultimately have "\<forall>q\<in>live ?a. set (a_child ?a q) = {c \<in> live ?a. parent s' c = Some q}"
    using T(1) p by (auto simp: live)
  moreover have "\<forall>c\<in>live ?a. \<forall>q. parent s' c = Some q \<longrightarrow> q \<in> live ?a \<and> rk q < rk c"
    using old assms(5) T(2) rk by (auto simp: live)
  ultimately show ?thesis unfolding wf_tree_def by blast
qed


lemma allocPcb_Cons:
  assumes "kwf s a" "a_free a = p # f"
  shows "\<exists>l. allocPcb pf s = Some (Some p, s\<lparr>links := l,
      pcbs := (pcbs s)(p := fresh_pcb pf (next_pid s) (pcbs s p)), next_pid := next_pid s + 1\<rparr>) \<and>
    kwf (s\<lparr>links := l, pcbs := (pcbs s)(p := fresh_pcb pf (next_pid s) (pcbs s p)),
        next_pid := next_pid s + 1\<rparr>)
      (a\<lparr>a_free := f, a_child := (a_child a)(p := [])\<rparr>)"
proof -
  let ?l = "list_del (P_list p) (links s)"
  let ?l' = "INIT_LIST_HEAD (P_sib p) (INIT_LIST_HEAD (P_child p) (INIT_LIST_HEAD (P_list p) ?l))"
  let ?s = "s\<lparr>links := ?l', pcbs := (pcbs s)(p := fresh_pcb pf (next_pid s) (pcbs s p)),
    next_pid := next_pid s + 1\<rparr>"
  let ?a = "a\<lparr>a_free := f, a_child := (a_child a)(p := [])\<rparr>"
  note R = wf_rings [OF assms(1)]
  have p: "p < MAXPROC" "p \<notin> set f" "p \<notin> live a" "p \<notin> set (a_ready a)" "p \<notin> blocked a"
    using assms wf_distinct(1) [OF assms(1)] wf_disjoint [OF assms(1)]
    by (auto simp: kwf_def wf_pcbs_def live_def)
  have sib: "\<And>q. q \<in> live a \<Longrightarrow> p \<notin> set (a_child a q)"
    using assms(1) p(3) by (auto simp: kwf_def wf_tree_def)
  have "allocPcb pf s = Some (Some p, ?s)"
    using rings_list_next [OF R, of PcbFree_h] assms(2)
    by (simp add: allocPcb_def initPcb_eq upd_links_def)
  moreover have "rings ?l' (lists_of ?a)"
  proof -
    let ?R = "(lists_of a)(PcbFree_h \<mapsto> map P_list f)"
    have n: "P_list p \<notin> nodes ?R" "P_child p \<notin> nodes ?R" "P_sib p \<notin> nodes ?R"
      using p sib unfolding nodes_def mem_Collect_eq ex_lnode
      by (auto simp: blocked_def split: if_splits)
    have "rings ?l ?R" using rings_list_del [OF R, of PcbFree_h _ "P_list p"] assms(2) by simp
    then have "rings (INIT_LIST_HEAD (P_list p) ?l) ?R" using n(1) by (rule rings_INIT_free_node)
    moreover have "P_child p \<notin> members ?R" using n(2) by (auto simp: nodes_def members_def)
    ultimately have "rings (INIT_LIST_HEAD (P_child p) (INIT_LIST_HEAD (P_list p) ?l))
      (?R(P_child p \<mapsto> []))" by (rule rings_INIT_LIST_HEAD)
    moreover have "P_sib p \<notin> nodes (?R(P_child p \<mapsto> []))"
      using n(3) by (auto simp: nodes_def split: if_splits)
    ultimately have "rings ?l' (?R(P_child p \<mapsto> []))" by (rule rings_INIT_free_node)
    then show ?thesis by (simp only: lists_of_alloc [OF assms(2) p(1,2)])
  qed
  moreover have "wf_pcbs ?a" using assms by (auto simp: kwf_def wf_pcbs_def live_def)
  moreover have "wf_asl ?s ?a"
    using assms(1) p(5) by (auto simp: kwf_def wf_asl_def blocked_def)
  moreover have "wf_tree ?s ?a"
    by (rule wf_tree_alloc [of s a p f])
      (use assms wf_distinct(1) [OF assms(1)] p(1) in \<open>simp_all add: kwf_def fresh_pcb_def\<close>)
  ultimately show ?thesis by (intro exI [of _ ?l']) (simp add: kwf_def)
qed


text \<open>freePcb on a process that is in no queue, has no parent and no children.\<close>

lemma freePcb_eq:
  assumes "kwf s a" "detached a p" "a_child a p = []" "parent s p = None"
  shows "kwf (freePcb p s) (a\<lparr>a_free := p # a_free a\<rparr>)" (is "kwf _ ?a")
proof -
  have live: "live ?a = live a - {p}" by (auto simp: live_def)
  have p: "p \<in> live a" "p < MAXPROC" using assms(2) by (auto simp: detached_def live_def)
  have "rings (links (freePcb p s))
    ((lists_of a)(PcbFree_h \<mapsto> P_list p # map P_list (a_free a)))"
    using rings_list_add [OF wf_rings [OF assms(1)], of PcbFree_h] detached_not_node [OF assms(2)]
    by (simp add: freePcb_def)
  then have "rings (links (freePcb p s)) (lists_of ?a)"
    unfolding lists_of_free by (simp add: rings_forget)
  moreover have "wf_pcbs ?a"
    using assms(1,2) p(2) by (auto simp: kwf_def wf_pcbs_def live detached_def)
  moreover have "wf_asl (freePcb p s) ?a"
    using wfD(2) [OF assms(1)] by (simp add: wf_asl_def freePcb_def)
  moreover have "wf_tree (freePcb p s) ?a"
  proof -
    have T: "\<And>q. q \<in> live a \<Longrightarrow> set (a_child a q) = {c \<in> live a. parent s c = Some q}"
      "\<And>c q. c \<in> live a \<Longrightarrow> parent s c = Some q \<Longrightarrow> q \<in> live a"
      using assms(1) unfolding kwf_def wf_tree_def by blast+
    obtain rk :: "nat \<Rightarrow> nat"
      where rk: "\<forall>c\<in>live a. \<forall>p. parent s c = Some p \<longrightarrow> rk p < rk c"
      using assms(1) unfolding kwf_def wf_tree_def by blast
    have no: "{c \<in> live a. parent s c = Some p} = {}" using T(1) [OF p(1)] assms(3) by auto
    show ?thesis unfolding wf_tree_def freePcb_def upd_links_simps live
    proof (intro conjI ballI allI impI exI [of _ rk])
      fix q assume "q \<in> live a - {p}"
      then show "set (a_child ?a q) = {c \<in> live a - {p}. parent s c = Some q}"
        using T(1) [of q] assms(4) by auto
    next
      fix c q assume "c \<in> live a - {p}" "parent s c = Some q"
      then show "q \<in> live a - {p}" "rk q < rk c" using T(2) no rk by auto
    qed
  qed
  ultimately show ?thesis by (simp add: kwf_def)
qed

subsection \<open>Process trees\<close>

lemma emptyChild_eq: "kwf s a \<Longrightarrow> p \<in> live a \<Longrightarrow> emptyChild (Some p) s \<longleftrightarrow> a_child a p = []"
  using rings_list_empty [OF wf_rings, of s a "P_child p"] by (simp add: emptyChild_def)

lemma insertChild_eq:
  assumes "kwf s a" "q \<in> live a" "c \<in> live a" "c \<noteq> q" "parent s c = None" "a_child a c = []"
  shows "\<exists>l. insertChild (Some q) (Some c) s =
      s\<lparr>links := l, pcbs := (pcbs s)(c := (pcbs s c)\<lparr>p_parent := Some q\<rparr>)\<rparr> \<and>
    kwf (s\<lparr>links := l, pcbs := (pcbs s)(c := (pcbs s c)\<lparr>p_parent := Some q\<rparr>)\<rparr>)
      (a\<lparr>a_child := (a_child a)(q := c # a_child a q)\<rparr>)" (is "\<exists>l. _ \<and> kwf (?s l) ?a")
proof -
  let ?l = "list_add (P_sib c) (P_child q) (links s)"
  have T: "\<And>q. q \<in> live a \<Longrightarrow> set (a_child a q) = {c \<in> live a. parent s c = Some q}"
    "\<And>c q. c \<in> live a \<Longrightarrow> parent s c = Some q \<Longrightarrow> q \<in> live a"
    using assms(1) unfolding kwf_def wf_tree_def by blast+
  obtain rk :: "nat \<Rightarrow> nat"
    where rk: "\<forall>c\<in>live a. \<forall>p. parent s c = Some p \<longrightarrow> rk p < rk c"
    using assms(1) unfolding kwf_def wf_tree_def by blast
  have "P_sib c \<notin> nodes (lists_of a)" using T(1) assms(5) by auto
  then have "rings ?l (lists_of ?a)"
    using rings_list_add [OF wf_rings [OF assms(1)], of "P_child q"] assms(2)
    by (simp add: lists_of_child)
  moreover have "wf_pcbs ?a" using assms(1) by (simp add: kwf_def wf_pcbs_def)
  moreover have "wf_asl (?s ?l) ?a" using assms(1) by (auto simp: kwf_def wf_asl_def)
  moreover have "wf_tree (?s ?l) ?a"
    unfolding wf_tree_def
  proof (intro conjI ballI allI impI exI [of _ "rk(c := Suc (rk q))"])
    fix p assume "p \<in> live ?a"
    then show "set (a_child ?a p) = {d \<in> live ?a. parent (?s ?l) d = Some p}"
      using T(1) [of p] assms(2,3,5) by auto
  next
    fix d p assume d: "d \<in> live ?a" "parent (?s ?l) d = Some p"
    then show "p \<in> live ?a" using T(2) assms(2) by (auto split: if_splits)
    have "p \<noteq> c" using d T(1) [OF assms(3)] assms(4,6) by (auto split: if_splits)
    then show "(rk(c := Suc (rk q))) p < (rk(c := Suc (rk q))) d"
      using d rk assms(4) by (auto split: if_splits)
  qed
  ultimately show ?thesis
    by (intro exI [of _ ?l]) (simp add: kwf_def insertChild_def upd_pcb_def upd_links_def)
qed

text \<open>Taking a child away from its parent, at any position of the children list.\<close>

lemma wf_detach_child:
  assumes "kwf s a" "q \<in> live a" "c \<in> set (a_child a q)"
  shows "kwf (s\<lparr>links := list_del (P_sib c) (links s),
        pcbs := (pcbs s)(c := (pcbs s c)\<lparr>p_parent := None\<rparr>)\<rparr>)
      (a\<lparr>a_child := (a_child a)(q := remove1 c (a_child a q))\<rparr>)" (is "kwf ?s ?a")
proof -
  have T: "\<And>q. q \<in> live a \<Longrightarrow> set (a_child a q) = {c \<in> live a. parent s c = Some q}"
    "\<And>c q. c \<in> live a \<Longrightarrow> parent s c = Some q \<Longrightarrow> q \<in> live a"
    using assms(1) unfolding kwf_def wf_tree_def by blast+
  obtain rk :: "nat \<Rightarrow> nat"
    where rk: "\<forall>c\<in>live a. \<forall>p. parent s c = Some p \<longrightarrow> rk p < rk c"
    using assms(1) unfolding kwf_def wf_tree_def by blast
  have c: "c \<in> live a" "parent s c = Some q" using T(1) [OF assms(2)] assms(3) by auto
  have "rings (list_del (P_sib c) (links s))
      ((lists_of a)(P_child q \<mapsto> remove1 (P_sib c) (map P_sib (a_child a q))))"
    using rings_list_del [OF wf_rings [OF assms(1)], of "P_child q" _ "P_sib c"] assms(2,3) by simp
  moreover have "remove1 (P_sib c) (map P_sib (a_child a q)) = map P_sib (remove1 c (a_child a q))"
    by (simp add: remove1_map_inj inj_def)
  ultimately have "rings (links ?s) (lists_of ?a)" using assms(2) by (simp add: lists_of_child)
  moreover have "wf_pcbs ?a" using assms(1) by (simp add: kwf_def wf_pcbs_def)
  moreover have "wf_asl ?s ?a" using assms(1) by (auto simp: kwf_def wf_asl_def)
  moreover have "wf_tree ?s ?a"
    unfolding wf_tree_def
  proof (intro conjI ballI allI impI exI [of _ rk])
    fix p assume p: "p \<in> live ?a"
    have d: "distinct (a_child a p)" using wf_distinct(6) [OF assms(1)] p by simp
    have "{d \<in> live ?a. parent ?s d = Some p} = {d \<in> live a. parent s d = Some p} - {c}" by auto
    also have "\<dots> = set (a_child a p) - {c}" using T(1) [of p] p by simp
    also have "\<dots> = set (a_child ?a p)"
    proof (cases "p = q")
      case True
      then show ?thesis using d by (simp add: set_remove1_eq)
    next
      case False
      then have "c \<notin> set (a_child a p)" using T(1) [of p] p c(2) by simp
      with False show ?thesis by simp
    qed
    finally show "set (a_child ?a p) = {d \<in> live ?a. parent ?s d = Some p}" by (rule sym)
  next
    fix d p assume "d \<in> live ?a" "parent ?s d = Some p"
    then show "p \<in> live ?a" "rk p < rk d" using T(2) rk by (auto split: if_splits)
  qed
  ultimately show ?thesis by (simp add: kwf_def)
qed

lemma removeChild_Cons:
  assumes "kwf s a" "q \<in> live a" "a_child a q = c # cs"
  shows "\<exists>l. removeChild (Some q) s =
      Some (Some c, s\<lparr>links := l, pcbs := (pcbs s)(c := (pcbs s c)\<lparr>p_parent := None\<rparr>)\<rparr>) \<and>
    kwf (s\<lparr>links := l, pcbs := (pcbs s)(c := (pcbs s c)\<lparr>p_parent := None\<rparr>)\<rparr>)
      (a\<lparr>a_child := (a_child a)(q := cs)\<rparr>)"
proof -
  have "list_next (P_child q) (links s) = Some (P_sib c)"
    using rings_list_next [OF wf_rings [OF assms(1)], of "P_child q"] assms(2,3) by simp
  then have "removeChild (Some q) s = Some (Some c, s\<lparr>links := list_del (P_sib c) (links s),
      pcbs := (pcbs s)(c := (pcbs s c)\<lparr>p_parent := None\<rparr>)\<rparr>)"
    using emptyChild_eq [OF assms(1,2)] assms(3)
    by (simp add: removeChild_def upd_links_def upd_pcb_def Let_def)
  then show ?thesis using wf_detach_child [OF assms(1,2), of c] assms(3) by auto
qed

lemma outChild_eq:
  assumes "kwf s a" "c \<in> live a" "parent s c = Some q"
  shows "\<exists>l. outChild (Some c) s =
      (Some c, s\<lparr>links := l, pcbs := (pcbs s)(c := (pcbs s c)\<lparr>p_parent := None\<rparr>)\<rparr>) \<and>
    kwf (s\<lparr>links := l, pcbs := (pcbs s)(c := (pcbs s c)\<lparr>p_parent := None\<rparr>)\<rparr>)
      (a\<lparr>a_child := (a_child a)(q := remove1 c (a_child a q))\<rparr>)"
proof -
  have "q \<in> live a" "c \<in> set (a_child a q)"
    using assms unfolding kwf_def wf_tree_def by blast+
  from wf_detach_child [OF assms(1) this] show ?thesis
    using assms(3) by (intro exI [of _ "list_del (P_sib c) (links s)"])
      (simp add: outChild_def upd_links_def upd_pcb_def Let_def)
qed

lemma outChild_root: "parent s c = None \<Longrightarrow> outChild (Some c) s = (None, s)"
  by (simp add: outChild_def)


section \<open>The ready queue as a priority queue\<close>

lemma prio_insert_split_sorted:
  assumes "prio_sorted pr q"
  shows "\<exists>a b. q = a @ b \<and> prio_insert pr p q = a @ p # b \<and>
    (\<forall>c\<in>set a. sint (pr p) \<le> sint (pr c)) \<and> (\<forall>d\<in>set b. sint (pr d) < sint (pr p))"
proof -
  obtain a b where ab: "q = a @ b" "prio_insert pr p q = a @ p # b"
    "\<And>c. c \<in> set a \<Longrightarrow> sint (pr p) \<le> sint (pr c)"
    "\<And>d r. b = d # r \<Longrightarrow> sint (pr d) < sint (pr p)"
    using prio_insert_split by blast
  have "sint (pr c) < sint (pr p)" if c: "c \<in> set b" for c
  proof -
    obtain d r where dr: "b = d # r" using c by (cases b) auto
    moreover have "sint (pr c) \<le> sint (pr d)"
      using assms c unfolding prio_sorted_def ab(1) dr by (auto simp: sorted_wrt_append)
    ultimately show ?thesis using ab(4) [of d r] by simp
  qed
  then show ?thesis using ab(1-3) by blast
qed

interpretation readyq: prio_queue "\<lambda>s a. kwf s a \<and> prio_sorted (prio s) (a_ready a)" detached a_ready
  "\<lambda>s p. sint (prio s p)" "insertProcQ ReadyQueue" "removeProcQ ReadyQueue"
proof unfold_locales
  fix s a
  assume *: "kwf s a \<and> prio_sorted (prio s) (a_ready a)"
  then show "sorted_wrt (\<lambda>x y. sint (prio s y) \<le> sint (prio s x)) (a_ready a)"
    by (simp add: prio_sorted_def)
  show "a_ready a = [] \<Longrightarrow> removeProcQ ReadyQueue s = Some (None, s)"
    using * removeProcQ_ready_empty by blast
  show "\<exists>s' a' xs ys. insertProcQ ReadyQueue p s = Some s' \<and> (kwf s' a' \<and> prio_sorted (prio s') (a_ready a')) \<and>
      (\<lambda>p. sint (prio s' p)) = (\<lambda>p. sint (prio s p)) \<and> a_ready a = xs @ ys \<and> a_ready a' = xs @ p # ys \<and>
      (\<forall>x\<in>set xs. sint (prio s p) \<le> sint (prio s x)) \<and> (\<forall>y\<in>set ys. sint (prio s y) < sint (prio s p))"
    if d: "detached a p" for p
  proof -
    obtain l where l: "insertProcQ ReadyQueue p s = Some (s\<lparr>links := l\<rparr>)"
      "kwf (s\<lparr>links := l\<rparr>) (a\<lparr>a_ready := prio_insert (prio s) p (a_ready a)\<rparr>)"
      using insertProcQ_ready [OF _ d] * by blast
    obtain xs ys where "a_ready a = xs @ ys" "prio_insert (prio s) p (a_ready a) = xs @ p # ys"
      "\<forall>c\<in>set xs. sint (prio s p) \<le> sint (prio s c)" "\<forall>d\<in>set ys. sint (prio s d) < sint (prio s p)"
      using prio_insert_split_sorted * by blast
    then show ?thesis
      using l prio_insert_sorted [of "prio s" "a_ready a" p] * by fastforce
  qed
  show "\<exists>s' a'. removeProcQ ReadyQueue s = Some (Some p, s') \<and> (kwf s' a' \<and> prio_sorted (prio s') (a_ready a')) \<and>
      a_ready a' = q \<and> (\<lambda>p. sint (prio s' p)) = (\<lambda>p. sint (prio s p)) \<and> detached a' p"
    if q: "a_ready a = p # q" for p q
  proof -
    obtain l where "removeProcQ ReadyQueue s = Some (Some p, s\<lparr>links := l\<rparr>)"
      "kwf (s\<lparr>links := l\<rparr>) (a\<lparr>a_ready := q\<rparr>)"
      using removeProcQ_ready * q by blast
    moreover have "p \<in> live a" "p \<notin> blocked a" "p \<notin> set q"
      using * wfD(1) wf_disjoint(3) wf_distinct(2) q unfolding wf_pcbs_def by fastforce+
    ultimately show ?thesis
      using * q by (intro exI [of _ "s\<lparr>links := l\<rparr>"] exI [of _ "a\<lparr>a_ready := q\<rparr>"])
        (auto simp: detached_def dest: prio_sorted_tl)
  qed
qed

end
