(* ===== verification/Blocking.thy ===== *)
theory Blocking
  imports Phase1
begin

text \<open>
  The refinement of phase1/asl.c. The abstract view of the active semaphore list is
  the function \<open>waiting\<close>: a FIFO queue of processes per semaphore address. Each
  operation is shown to act on this function alone, to be defined in every
  well-formed state, and to keep the invariant.
\<close>

section \<open>The view of the active semaphore list\<close>

lemma find_key:
  assumes "kwf s a" "i \<in> set (a_asl a)"
  shows "find (\<lambda>j. key s j = key s i) (a_asl a) = Some i"
proof -
  have d: "distinct (map (key s) (a_asl a))" using wfD(2) [OF assms(1)] by (simp add: wf_asl_def)
  obtain xs ys where xy: "a_asl a = xs @ i # ys" using split_list [OF assms(2)] by blast
  have "find (\<lambda>j. key s j = key s i) (xs @ i # ys) = Some i" if "key s i \<notin> key s ` set xs" for xs
    using that by (induction xs) auto
  then show ?thesis using d unfolding xy by auto
qed

lemma waiting_active: "kwf s a \<Longrightarrow> i \<in> set (a_asl a) \<Longrightarrow> waiting s a (key s i) = a_procq a i"
  by (simp add: waiting_def find_key)

lemma find_key_None: "find (\<lambda>j. key s j = k) xs = None \<longleftrightarrow> k \<notin> key s ` set xs"
  by (auto simp: find_None_iff)

lemma waiting_inactive: "k \<notin> key s ` set (a_asl a) \<Longrightarrow> waiting s a k = []"
  by (simp add: waiting_def find_key_None [THEN iffD2])

lemma waiting_Nil_iff: "kwf s a \<Longrightarrow> waiting s a k = [] \<longleftrightarrow> k \<notin> key s ` set (a_asl a)"
proof
  assume wf: "kwf s a" and nil: "waiting s a k = []"
  show "k \<notin> key s ` set (a_asl a)"
  proof
    assume "k \<in> key s ` set (a_asl a)"
    then obtain i where i: "i \<in> set (a_asl a)" "key s i = k" by blast
    then have "a_procq a i = []" using waiting_active [OF wf i(1)] nil by simp
    then show False using i(1) wfD(2) [OF wf] by (simp add: wf_asl_def)
  qed
qed (rule waiting_inactive)

lemma waiting_ConsE:
  assumes "kwf s a" "waiting s a k \<noteq> []"
  obtains i where "i \<in> set (a_asl a)" "key s i = k" "waiting s a k = a_procq a i"
proof -
  have "k \<in> key s ` set (a_asl a)" using assms waiting_Nil_iff by blast
  then obtain i where i: "i \<in> set (a_asl a)" "key s i = k" by blast
  then show thesis using that waiting_active [OF assms(1) i(1)] by simp
qed

lemma waiting_frame:
  assumes "semds s' = semds s" "a_asl a' = a_asl a" "a_procq a' = a_procq a"
  shows "waiting s' a' = waiting s a"
  by (intro ext) (simp only: waiting_def assms)

lemma waiting_iff:
  assumes "kwf s a"
  shows "p \<in> set (waiting s a k) \<longleftrightarrow> p \<in> blocked a \<and> semAdd s p = k"
proof
  assume p: "p \<in> set (waiting s a k)"
  then have "waiting s a k \<noteq> []" by auto
  with assms obtain i where i: "i \<in> set (a_asl a)" "key s i = k" "waiting s a k = a_procq a i"
    by (rule waiting_ConsE)
  then show "p \<in> blocked a \<and> semAdd s p = k"
    using p wfD(2) [OF assms] unfolding wf_asl_def blocked_def by auto
next
  assume "p \<in> blocked a \<and> semAdd s p = k"
  then obtain i where i: "i \<in> set (a_asl a)" "p \<in> set (a_procq a i)" "semAdd s p = k"
    by (auto simp: blocked_def)
  then have "key s i = k" using wfD(2) [OF assms] unfolding wf_asl_def by auto
  then show "p \<in> set (waiting s a k)" using waiting_active [OF assms i(1)] i(2) by simp
qed

lemma waiting_distinct: "kwf s a \<Longrightarrow> distinct (waiting s a k)"
  by (cases "waiting s a k = []") (simp, metis waiting_ConsE wf_distinct(5))

text \<open>There are as many descriptors as PCBs, so one is free while some process is not blocked.\<close>

lemma free_descriptor:
  assumes "kwf s a" "detached a p"
  shows "a_sfree a \<noteq> []"
proof
  assume "a_sfree a = []"
  then have asl: "set (a_asl a) = {..<MAXPROC}" using wfD(2) [OF assms(1)] by (simp add: wf_asl_def)
  let ?f = "\<lambda>i. hd (a_procq a i)"
  have hd: "?f i \<in> set (a_procq a i)" if "i \<in> set (a_asl a)" for i
    using that wfD(2) [OF assms(1)] by (simp add: wf_asl_def)
  have "inj_on ?f (set (a_asl a))"
  proof (rule inj_onI, rule ccontr)
    fix i j assume ij: "i \<in> set (a_asl a)" "j \<in> set (a_asl a)" "?f i = ?f j" "i \<noteq> j"
    then show False using hd [OF ij(1)] hd [OF ij(2)] wf_procq_disjoint [OF assms(1) ij(1,2,4)] by auto
  qed
  then have "card (?f ` {..<MAXPROC}) = MAXPROC" unfolding asl by (simp add: card_image)
  moreover have "?f ` {..<MAXPROC} \<subseteq> {..<MAXPROC} - {p}"
  proof (rule image_subsetI)
    fix i assume "i \<in> {..<MAXPROC}"
    then have "?f i \<in> blocked a" using hd [of i] asl by (auto simp: blocked_def)
    moreover from this have "?f i < MAXPROC"
      using wfD(1) [OF assms(1)] by (auto simp: wf_pcbs_def live_def)
    ultimately show "?f i \<in> {..<MAXPROC} - {p}" using assms(2) by (auto simp: detached_def)
  qed
  then have "card (?f ` {..<MAXPROC}) \<le> card ({..<MAXPROC} - {p})"
    by (intro card_mono) auto
  moreover have "card ({..<MAXPROC} - {p}) < MAXPROC"
    using assms(2) by (simp add: detached_def live_def)
  ultimately show False by simp
qed

section \<open>insertBlocked\<close>

lemma insertBlocked_active:
  assumes "kwf s a" "detached a p" "i \<in> set (a_asl a)" "key s i = k"
  shows "\<exists>l. insertBlocked k p s = Some (False, s\<lparr>links := l,
      pcbs := (pcbs s)(p := (pcbs s p)\<lparr>p_semAdd := k\<rparr>)\<rparr>) \<and>
    kwf (s\<lparr>links := l, pcbs := (pcbs s)(p := (pcbs s p)\<lparr>p_semAdd := k\<rparr>)\<rparr>)
      (a\<lparr>a_procq := (a_procq a)(i := a_procq a i @ [p])\<rparr>)" (is "\<exists>l. _ \<and> kwf (?s l) ?a")
proof -
  let ?l = "list_add_tail (P_list p) (S_procq i) (links s)"
  note R = wf_rings [OF assms(1)]
  have "asl_find k s = Some (Some i)"
    using asl_find_eq [OF R, of "a_asl a" k] find_key [OF assms(1,3)] assms(4) by simp
  then have "insertBlocked k p s = Some (False, ?s ?l)"
    by (simp add: insertBlocked_def upd_links_def upd_pcb_def Let_def)
  moreover have "rings ?l (lists_of ?a)"
    using rings_list_add_tail [OF R, of "S_procq i"] assms(3) detached_not_node [OF assms(2)]
    by (simp add: lists_of_procq)
  moreover have b: "blocked ?a = insert p (blocked a)"
    using assms(3) by (auto simp: blocked_def split: if_splits)
  then have "wf_pcbs ?a" using wfD(1) [OF assms(1)] assms(2) by (simp add: wf_pcbs_def detached_def)
  moreover have "wf_asl (?s ?l) ?a"
    using wfD(2) [OF assms(1)] assms(2-4)
    by (auto simp: wf_asl_def detached_def blocked_def)
  moreover have "wf_tree (?s ?l) ?a"
    using wfD(3) [OF assms(1)] by (subst wf_tree_cong [of _ a _ s]) auto
  ultimately show ?thesis by (intro exI [of _ ?l]) (simp add: kwf_def)
qed

lemma activate_rings:
  assumes "kwf s a" "detached a p" "a_sfree a = i # f"
  shows "rings (list_add_tail (P_list p) (S_procq i) (list_add_tail (S_link i) Semd_h
      (INIT_LIST_HEAD (S_procq i) (list_del (S_link i) (links s)))))
    (lists_of (a\<lparr>a_sfree := f, a_asl := a_asl a @ [i], a_procq := (a_procq a)(i := [p])\<rparr>))"
    (is "rings ?l4 (lists_of ?a)")
proof -
  let ?l1 = "list_del (S_link i) (links s)"
  let ?l2 = "INIT_LIST_HEAD (S_procq i) ?l1"
  let ?l3 = "list_add_tail (S_link i) Semd_h ?l2"
  let ?R1 = "(lists_of a)(SemdFree_h \<mapsto> map S_link f)"
  let ?R2 = "?R1(S_procq i \<mapsto> [])"
  let ?R3 = "?R2(Semd_h \<mapsto> map S_link (a_asl a) @ [S_link i])"
  have i: "i \<notin> set (a_asl a)" "i \<notin> set f"
    using wf_disjoint(4) [OF assms(1)] wf_distinct(3) [OF assms(1)] assms(3) by auto
  have "rings ?l1 ?R1" using rings_list_del [OF wf_rings [OF assms(1)], of SemdFree_h _ "S_link i"] assms(3) by simp
  moreover have "S_procq i \<notin> members ?R1"
    unfolding members_def mem_Collect_eq ex_lnode by (auto split: if_splits)
  ultimately have "rings ?l2 ?R2" by (rule rings_INIT_LIST_HEAD)
  moreover have "S_link i \<notin> nodes ?R2"
    using i unfolding nodes_def mem_Collect_eq ex_lnode by (auto split: if_splits)
  ultimately have "rings ?l3 ?R3" using rings_list_add_tail [of ?l2 ?R2 Semd_h] by simp
  moreover have "P_list p \<notin> nodes ?R3"
    using detached_not_node [OF assms(2)] unfolding nodes_def mem_Collect_eq ex_lnode
    by (auto split: if_splits)
  ultimately have "rings ?l4 (?R3(S_procq i \<mapsto> [] @ [P_list p]))"
    using rings_list_add_tail [of ?l3 ?R3 "S_procq i" "[]" "P_list p"] by simp
  moreover have "?R3(S_procq i \<mapsto> [] @ [P_list p]) = lists_of ?a"
    unfolding lists_of_activate [OF assms(3)] by (auto simp: fun_eq_iff)
  ultimately show ?thesis by simp
qed

lemma activate_wf_asl:
  assumes "kwf s a" "detached a p" "k \<notin> key s ` set (a_asl a)" "a_sfree a = i # f"
    and "semds s' = (semds s)(i := (semds s i)\<lparr>s_key := k\<rparr>)" "pcbs s' = (pcbs s)(p := (pcbs s p)\<lparr>p_semAdd := k\<rparr>)"
  shows "wf_asl s' (a\<lparr>a_sfree := f, a_asl := a_asl a @ [i], a_procq := (a_procq a)(i := [p])\<rparr>)" (is "wf_asl s' ?a")
proof -
  have i: "i \<notin> set (a_asl a)" using wf_disjoint(4) [OF assms(1)] assms(4) by auto
  have keys: "map (key s') (a_asl ?a) = map (key s) (a_asl a) @ [k]" using i assms(5) by auto
  have old: "semAdd s' q = key s' j" if "j \<in> set (a_asl a)" "q \<in> set (a_procq a j)" for j q
    using that i assms(2,5,6) wfD(2) [OF assms(1)] by (auto simp: wf_asl_def detached_def blocked_def)
  have W: "set (a_sfree a) \<union> set (a_asl a) = {..<MAXPROC}" "distinct (map (key s) (a_asl a))"
    "\<And>j. j \<in> set (a_asl a) \<Longrightarrow> a_procq a j \<noteq> []"
    using wfD(2) [OF assms(1)] by (simp_all add: wf_asl_def)
  show ?thesis unfolding wf_asl_def keys
  proof (intro conjI ballI)
    show "set (a_sfree ?a) \<union> set (a_asl ?a) = {..<MAXPROC}" using W(1) assms(4) by auto
    show "distinct (map (key s) (a_asl a) @ [k])" using W(2) assms(3) by simp
    fix j assume j: "j \<in> set (a_asl ?a)"
    show "a_procq ?a j \<noteq> []" using j W(3) by auto
    show "semAdd s' q = key s' j" if "q \<in> set (a_procq ?a j)" for q
      using that j old [of j q] i assms(5,6) by (cases "j = i") simp_all
  qed
qed

lemma insertBlocked_new:
  assumes "kwf s a" "detached a p" "k \<notin> key s ` set (a_asl a)" "a_sfree a = i # f"
  shows "\<exists>l. insertBlocked k p s = Some (False, s\<lparr>links := l,
      semds := (semds s)(i := (semds s i)\<lparr>s_key := k\<rparr>),
      pcbs := (pcbs s)(p := (pcbs s p)\<lparr>p_semAdd := k\<rparr>)\<rparr>) \<and>
    kwf (s\<lparr>links := l, semds := (semds s)(i := (semds s i)\<lparr>s_key := k\<rparr>),
        pcbs := (pcbs s)(p := (pcbs s p)\<lparr>p_semAdd := k\<rparr>)\<rparr>)
      (a\<lparr>a_sfree := f, a_asl := a_asl a @ [i], a_procq := (a_procq a)(i := [p])\<rparr>)"
    (is "\<exists>l. _ \<and> kwf (?s l) ?a")
proof -
  let ?l = "list_add_tail (P_list p) (S_procq i) (list_add_tail (S_link i) Semd_h
      (INIT_LIST_HEAD (S_procq i) (list_del (S_link i) (links s))))"
  note R = wf_rings [OF assms(1)]
  have i: "i \<notin> set (a_asl a)" using wf_disjoint(4) [OF assms(1)] assms(4) by auto
  have "asl_find k s = Some None"
    using asl_find_eq [OF R, of "a_asl a" k] find_key_None [of s k "a_asl a"] assms(3) by simp
  then have "insertBlocked k p s = Some (False, ?s ?l)"
    using rings_list_next [OF R, of SemdFree_h] rings_list_empty [OF R, of SemdFree_h] assms(4)
    by (simp add: insertBlocked_def upd_links_def upd_pcb_def set_key_def mkEmptyProcQ_def Let_def)
  moreover have "blocked ?a = insert p (blocked a)"
    using i by (auto simp: blocked_def split: if_splits)
  then have "wf_pcbs ?a" using wfD(1) [OF assms(1)] assms(2) by (simp add: wf_pcbs_def detached_def)
  moreover have "wf_asl (?s ?l) ?a" by (rule activate_wf_asl [OF assms]) simp_all
  moreover have "wf_tree (?s ?l) ?a"
    using wfD(3) [OF assms(1)] by (subst wf_tree_cong [of _ a _ s]) auto
  ultimately show ?thesis
    using activate_rings [OF assms(1,2,4)] by (intro exI [of _ ?l]) (simp add: kwf_def)
qed


text \<open>The view after a process is put in the queue of a descriptor.\<close>

lemma waiting_enqueue:
  assumes "kwf s a" "kwf s' a'" "a_procq a' i = waiting s a k @ [p]" "key s' i = k"
    and "set (a_asl a') = insert i (set (a_asl a))"
    and "\<And>j. j \<in> set (a_asl a) \<Longrightarrow> j \<noteq> i \<Longrightarrow> key s' j = key s j \<and> a_procq a' j = a_procq a j"
    and "i \<in> set (a_asl a) \<Longrightarrow> key s i = k"
  shows "waiting s' a' = (waiting s a)(k := waiting s a k @ [p])"
proof
  fix k'
  show "waiting s' a' k' = ((waiting s a)(k := waiting s a k @ [p])) k'"
  proof (cases "k' = k")
    case True
    then show ?thesis using waiting_active [OF assms(2), of i] assms(3-5) by simp
  next
    case ne: False
    show ?thesis
    proof (cases "k' \<in> key s ` set (a_asl a)")
      case True
      then obtain j where j: "j \<in> set (a_asl a)" "key s j = k'" by blast
      have "j \<noteq> i" using j ne assms(7) by auto
      then have "key s' j = k'" "a_procq a' j = a_procq a j" using assms(6) [OF j(1)] j(2) by simp_all
      moreover have "waiting s' a' (key s' j) = a_procq a' j"
        by (rule waiting_active [OF assms(2)]) (simp add: assms(5) j(1))
      moreover have "waiting s a k' = a_procq a j" using waiting_active [OF assms(1) j(1)] j(2) by simp
      ultimately show ?thesis using ne by simp
    next
      case False
      have "key s' j \<noteq> k'" if "j \<in> set (a_asl a')" for j
      proof (cases "j = i")
        case True
        then show ?thesis using ne assms(4) by simp
      next
        case ji: False
        then have "j \<in> set (a_asl a)" using that assms(5) by simp
        then show ?thesis using assms(6) [OF _ ji] False by auto
      qed
      then have "k' \<notin> key s' ` set (a_asl a')" by blast
      then show ?thesis using False ne by (simp add: waiting_inactive)
    qed
  qed
qed

text \<open>
  insertBlocked on a process in no queue always finds a descriptor: it returns FALSE,
  and the process is the last one waiting on the semaphore.
\<close>

lemma insertBlocked_eq:
  assumes "kwf s a" "detached a p"
  shows "\<exists>l d a'. insertBlocked k p s = Some (False, s\<lparr>links := l, semds := d,
        pcbs := (pcbs s)(p := (pcbs s p)\<lparr>p_semAdd := k\<rparr>)\<rparr>) \<and>
      kwf (s\<lparr>links := l, semds := d, pcbs := (pcbs s)(p := (pcbs s p)\<lparr>p_semAdd := k\<rparr>)\<rparr>) a' \<and>
      waiting (s\<lparr>links := l, semds := d, pcbs := (pcbs s)(p := (pcbs s p)\<lparr>p_semAdd := k\<rparr>)\<rparr>) a' =
        (waiting s a)(k := waiting s a k @ [p]) \<and>
      blocked a' = insert p (blocked a) \<and>
      a_free a' = a_free a \<and> a_ready a' = a_ready a \<and> a_child a' = a_child a"
proof (cases "k \<in> key s ` set (a_asl a)")
  case True
  then obtain i where i: "i \<in> set (a_asl a)" "key s i = k" by blast
  let ?s = "\<lambda>l. s\<lparr>links := l, pcbs := (pcbs s)(p := (pcbs s p)\<lparr>p_semAdd := k\<rparr>)\<rparr>"
  let ?a = "a\<lparr>a_procq := (a_procq a)(i := a_procq a i @ [p])\<rparr>"
  obtain l where l: "insertBlocked k p s = Some (False, ?s l)" "kwf (?s l) ?a"
    using insertBlocked_active [OF assms i] by blast
  have "waiting (?s l) ?a = (waiting s a)(k := waiting s a k @ [p])"
    by (rule waiting_enqueue [OF assms(1) l(2), of i])
      (use i waiting_active [OF assms(1) i(1)] in auto)
  moreover have "blocked ?a = insert p (blocked a)"
    using i by (auto simp: blocked_def split: if_splits)
  ultimately show ?thesis using l by (intro exI [of _ l] exI [of _ "semds s"] exI [of _ ?a]) simp
next
  case False
  obtain i f where f: "a_sfree a = i # f" using free_descriptor [OF assms] by (cases "a_sfree a") auto
  let ?d = "(semds s)(i := (semds s i)\<lparr>s_key := k\<rparr>)"
  let ?s = "\<lambda>l. s\<lparr>links := l, semds := ?d, pcbs := (pcbs s)(p := (pcbs s p)\<lparr>p_semAdd := k\<rparr>)\<rparr>"
  let ?a = "a\<lparr>a_sfree := f, a_asl := a_asl a @ [i], a_procq := (a_procq a)(i := [p])\<rparr>"
  obtain l where l: "insertBlocked k p s = Some (False, ?s l)" "kwf (?s l) ?a"
    using insertBlocked_new [OF assms False f] by blast
  have i: "i \<notin> set (a_asl a)" using wf_disjoint(4) [OF assms(1)] f by auto
  have "waiting (?s l) ?a = (waiting s a)(k := waiting s a k @ [p])"
    by (rule waiting_enqueue [OF assms(1) l(2), of i]) (use i waiting_inactive [OF False] in auto)
  moreover have "blocked ?a = insert p (blocked a)"
    using i by (auto simp: blocked_def split: if_splits)
  ultimately show ?thesis using l by (intro exI [of _ l] exI [of _ ?d] exI [of _ ?a]) simp
qed

section \<open>Taking a process off a semaphore\<close>

text \<open>
  The step removeBlocked and outBlocked share: unlink the PCB and, when the queue has
  become empty, give the descriptor back.
\<close>

definition unblock :: "nat \<Rightarrow> nat \<Rightarrow> kernel \<Rightarrow> kernel" where
  "unblock i p s =
    (let s = upd_links (list_del (P_list p)) s
     in if emptyProcQ (S_procq i) s then release_semd i s else s)"

lemma unblock_stays:
  assumes "kwf s a" "i \<in> set (a_asl a)" "p \<in> set (a_procq a i)" "remove1 p (a_procq a i) \<noteq> []"
  shows "\<exists>l. unblock i p s = s\<lparr>links := l\<rparr> \<and>
    kwf (s\<lparr>links := l\<rparr>) (a\<lparr>a_procq := (a_procq a)(i := remove1 p (a_procq a i))\<rparr>)"
    (is "\<exists>l. _ \<and> kwf _ ?a")
proof -
  let ?l = "list_del (P_list p) (links s)"
  have "rings ?l ((lists_of a)(S_procq i \<mapsto> map P_list (remove1 p (a_procq a i))))"
    using rings_list_del [OF wf_rings [OF assms(1)], of "S_procq i" _ "P_list p"] assms(2,3)
    by (simp add: remove1_map_inj inj_def)
  then have R: "rings ?l (lists_of ?a)" using assms(2) by (simp add: lists_of_procq)
  then have "emptyProcQ (S_procq i) (upd_links (list_del (P_list p)) s) \<longleftrightarrow> remove1 p (a_procq a i) = []"
    using assms(2) emptyProcQ_iff [of "upd_links (list_del (P_list p)) s" "lists_of ?a" "S_procq i"]
    by simp
  then have "unblock i p s = s\<lparr>links := ?l\<rparr>"
    using assms(4) by (simp add: unblock_def upd_links_def)
  moreover have "set (a_procq ?a j) \<subseteq> set (a_procq a j)" for j
    using set_remove1_subset [of p "a_procq a i"] by simp
  then have "blocked ?a \<subseteq> blocked a" by (fastforce simp: blocked_def)
  then have "wf_pcbs ?a" using wfD(1) [OF assms(1)] by (auto simp: wf_pcbs_def)
  moreover have "wf_asl (s\<lparr>links := ?l\<rparr>) ?a"
    using wfD(2) [OF assms(1)] assms(4) set_remove1_subset [of p "a_procq a i"]
    by (auto simp: wf_asl_def)
  moreover have "wf_tree (s\<lparr>links := ?l\<rparr>) ?a" using wfD(3) [OF assms(1)] by simp
  ultimately show ?thesis using R by (intro exI [of _ ?l]) (simp add: kwf_def)
qed


lemma release_rings:
  assumes "kwf s a" "i \<in> set (a_asl a)" "a_procq a i = [p]"
  shows "rings (list_add (S_link i) SemdFree_h (list_del (S_link i) (list_del (P_list p) (links s))))
    (lists_of (a\<lparr>a_sfree := i # a_sfree a, a_asl := remove1 i (a_asl a)\<rparr>))" (is "rings ?l3 (lists_of ?a)")
proof -
  let ?l1 = "list_del (P_list p) (links s)"
  let ?l2 = "list_del (S_link i) ?l1"
  let ?act = "remove1 i (a_asl a)"
  let ?R1 = "(lists_of a)(S_procq i \<mapsto> [])"
  let ?R2 = "?R1(Semd_h \<mapsto> map S_link ?act, S_procq i := None)"
  have i: "i \<notin> set (a_sfree a)" "set ?act = set (a_asl a) - {i}"
    using wf_disjoint(4) [OF assms(1)] assms(2) wf_distinct(4) [OF assms(1)] by (auto simp: set_remove1_eq)
  have R1: "rings ?l1 ?R1"
    using rings_list_del [OF wf_rings [OF assms(1)], of "S_procq i" _ "P_list p"] assms(2,3) by simp
  have "rings ?l2 (?R1(Semd_h \<mapsto> map S_link ?act))"
    using rings_list_del [OF R1, of Semd_h "map S_link (a_asl a)" "S_link i"] assms(2)
    by (simp add: remove1_map_inj inj_def)
  then have R2: "rings ?l2 ?R2" by (rule rings_forget)
  have "S_link i \<notin> nodes ?R2"
    using i unfolding nodes_def mem_Collect_eq ex_lnode by (auto split: if_splits)
  then have "rings ?l3 (?R2(SemdFree_h \<mapsto> S_link i # map S_link (a_sfree a)))"
    using rings_list_add [OF R2, of SemdFree_h "map S_link (a_sfree a)" "S_link i"] by simp
  moreover have "?R2(SemdFree_h \<mapsto> S_link i # map S_link (a_sfree a)) = lists_of ?a"
    unfolding lists_of_release [OF wf_distinct(4) [OF assms(1)]] by (auto simp: fun_eq_iff)
  ultimately show ?thesis by simp
qed

lemma release_wf_asl:
  assumes "kwf s a" "i \<in> set (a_asl a)"
    and "semds s' = (semds s)(i := (semds s i)\<lparr>s_key := NULL\<rparr>)" "pcbs s' = pcbs s"
  shows "wf_asl s' (a\<lparr>a_sfree := i # a_sfree a, a_asl := remove1 i (a_asl a)\<rparr>)" (is "wf_asl s' ?a")
proof -
  let ?act = "remove1 i (a_asl a)"
  have act: "set ?act = set (a_asl a) - {i}"
    using wf_distinct(4) [OF assms(1)] by (simp add: set_remove1_eq)
  have keys: "map (key s') ?act = map (key s) ?act" using act assms(3) by auto
  have W: "set (a_sfree a) \<union> set (a_asl a) = {..<MAXPROC}" "distinct (map (key s) (a_asl a))"
    using wfD(2) [OF assms(1)] by (simp_all add: wf_asl_def)
  have "distinct (map (key s) ?act)"
    using W(2) wf_distinct(4) [OF assms(1)] act by (simp add: distinct_map inj_on_diff)
  then have D: "distinct (map (key s') ?act)" by (simp only: keys)
  have Q: "a_procq a j \<noteq> [] \<and> (\<forall>p\<in>set (a_procq a j). semAdd s p = key s j)" if "j \<in> set (a_asl a)" for j
    using that wfD(2) [OF assms(1)] by (simp add: wf_asl_def)
  show ?thesis unfolding wf_asl_def
  proof (intro conjI)
    show "set (a_sfree ?a) \<union> set (a_asl ?a) = {..<MAXPROC}" using W(1) act assms(2) by auto
    show "distinct (map (key s') (a_asl ?a))" using D by simp
  qed (use Q act assms(3,4) in auto)
qed

lemma unblock_release:
  assumes "kwf s a" "i \<in> set (a_asl a)" "a_procq a i = [p]"
  shows "\<exists>l. unblock i p s = s\<lparr>links := l, semds := (semds s)(i := (semds s i)\<lparr>s_key := NULL\<rparr>)\<rparr> \<and>
    kwf (s\<lparr>links := l, semds := (semds s)(i := (semds s i)\<lparr>s_key := NULL\<rparr>)\<rparr>)
      (a\<lparr>a_sfree := i # a_sfree a, a_asl := remove1 i (a_asl a)\<rparr>)"
    (is "\<exists>l. _ \<and> kwf (?s l) ?a")
proof -
  let ?l = "list_add (S_link i) SemdFree_h (list_del (S_link i) (list_del (P_list p) (links s)))"
  let ?R1 = "(lists_of a)(S_procq i \<mapsto> [])"
  have "rings (list_del (P_list p) (links s)) ?R1"
    using rings_list_del [OF wf_rings [OF assms(1)], of "S_procq i" _ "P_list p"] assms(2,3) by simp
  then have "emptyProcQ (S_procq i) (upd_links (list_del (P_list p)) s)"
    using emptyProcQ_iff [of "upd_links (list_del (P_list p)) s" ?R1 "S_procq i" "[]"] by simp
  then have "unblock i p s = ?s ?l"
    by (simp add: unblock_def release_semd_def upd_links_def set_key_def Let_def)
  moreover have "blocked ?a \<subseteq> blocked a" using set_remove1_subset [of i "a_asl a"] by (auto simp: blocked_def)
  then have "wf_pcbs ?a" using wfD(1) [OF assms(1)] by (auto simp: wf_pcbs_def)
  moreover have "wf_asl (?s ?l) ?a" by (rule release_wf_asl [OF assms(1,2)]) simp_all
  moreover have "wf_tree (?s ?l) ?a"
    using wfD(3) [OF assms(1)] by (subst wf_tree_cong [of _ a _ s]) auto
  ultimately show ?thesis
    using release_rings [OF assms] by (intro exI [of _ ?l]) (simp add: kwf_def)
qed

text \<open>The view after a process left the queue of a descriptor.\<close>

lemma waiting_dequeue:
  assumes "kwf s a" "kwf s' a'" "i \<in> set (a_asl a)" "key s i = k"
    and "set (a_asl a') = (if q = [] then set (a_asl a) - {i} else set (a_asl a))"
    and "q \<noteq> [] \<Longrightarrow> a_procq a' i = q \<and> key s' i = k"
    and "\<And>j. j \<in> set (a_asl a) \<Longrightarrow> j \<noteq> i \<Longrightarrow> key s' j = key s j \<and> a_procq a' j = a_procq a j"
  shows "waiting s' a' = (waiting s a)(k := q)"
proof
  fix k'
  have uniq: "j = i" if "j \<in> set (a_asl a)" "key s j = k" for j
    using that assms(1,3,4) find_key by (metis option.inject)
  show "waiting s' a' k' = ((waiting s a)(k := q)) k'"
  proof (cases "\<exists>j\<in>set (a_asl a'). key s' j = k'")
    case True
    then obtain j where j: "j \<in> set (a_asl a')" "key s' j = k'" by blast
    then have w: "waiting s' a' k' = a_procq a' j" using waiting_active [OF assms(2) j(1)] by simp
    have ja: "j \<in> set (a_asl a)" using j(1) assms(5) by (auto split: if_splits)
    show ?thesis
    proof (cases "j = i")
      case True
      then have "q \<noteq> []" using j(1) assms(5) by auto
      then show ?thesis using assms(6) True j(2) w by auto
    next
      case False
      then have "key s j = k'" "a_procq a' j = a_procq a j" using assms(7) [OF ja] j(2) by auto
      moreover from this have "k' \<noteq> k" using uniq [OF ja] False by auto
      ultimately show ?thesis using w waiting_active [OF assms(1) ja] by auto
    qed
  next
    case False
    then have w: "waiting s' a' k' = []" by (intro waiting_inactive) blast
    show ?thesis
    proof (cases "k' = k")
      case True
      then have "q = []" using False assms(3,5,6) by (metis (full_types))
      then show ?thesis using w True by simp
    next
      case ne: False
      have "key s j \<noteq> k'" if "j \<in> set (a_asl a)" for j
        using that False assms(4,5) assms(7) [OF that] ne by (cases "j = i") (auto split: if_splits)
      then have "waiting s a k' = []" by (intro waiting_inactive) blast
      then show ?thesis using w ne by simp
    qed
  qed
qed

text \<open>
  Taking a blocked process off its semaphore: the queue of the semaphore loses the
  process, the other queues are untouched.
\<close>

lemma unblock_eq:
  assumes "kwf s a" "i \<in> set (a_asl a)" "p \<in> set (a_procq a i)" "key s i = k"
  shows "\<exists>l d a'. unblock i p s = s\<lparr>links := l, semds := d\<rparr> \<and> kwf (s\<lparr>links := l, semds := d\<rparr>) a' \<and>
    waiting (s\<lparr>links := l, semds := d\<rparr>) a' = (waiting s a)(k := remove1 p (waiting s a k)) \<and>
    blocked a' = blocked a - {p} \<and>
    a_free a' = a_free a \<and> a_ready a' = a_ready a \<and> a_child a' = a_child a"
proof -
  have w: "waiting s a k = a_procq a i" using waiting_active [OF assms(1,2)] assms(4) by simp
  have dq: "distinct (a_procq a i)" using wf_distinct(5) [OF assms(1,2)] .
  have other: "p \<notin> set (a_procq a j)" if "j \<in> set (a_asl a)" "j \<noteq> i" for j
    using wf_procq_disjoint [OF assms(1) that(1) assms(2) that(2)] assms(3) by auto
  show ?thesis
  proof (cases "remove1 p (a_procq a i) = []")
    case True
    then have q: "a_procq a i = [p]" using assms(3) by (cases "a_procq a i") (auto split: if_splits)
    let ?d = "(semds s)(i := (semds s i)\<lparr>s_key := NULL\<rparr>)"
    let ?a = "a\<lparr>a_sfree := i # a_sfree a, a_asl := remove1 i (a_asl a)\<rparr>"
    obtain l where l: "unblock i p s = s\<lparr>links := l, semds := ?d\<rparr>" "kwf (s\<lparr>links := l, semds := ?d\<rparr>) ?a"
      using unblock_release [OF assms(1,2) q] by blast
    have act: "set (remove1 i (a_asl a)) = set (a_asl a) - {i}"
      using wf_distinct(4) [OF assms(1)] by (simp add: set_remove1_eq)
    have "waiting (s\<lparr>links := l, semds := ?d\<rparr>) ?a = (waiting s a)(k := [])"
      by (rule waiting_dequeue [OF assms(1) l(2) assms(2,4)]) (use act in auto)
    moreover have "blocked ?a = blocked a - {p}"
      using other q assms(2) unfolding blocked_def by (auto simp: act)
    ultimately show ?thesis
      using l True w by (intro exI [of _ l] exI [of _ ?d] exI [of _ ?a]) simp
  next
    case False
    let ?a = "a\<lparr>a_procq := (a_procq a)(i := remove1 p (a_procq a i))\<rparr>"
    obtain l where l: "unblock i p s = s\<lparr>links := l\<rparr>" "kwf (s\<lparr>links := l\<rparr>) ?a"
      using unblock_stays [OF assms(1-3) False] by blast
    have "waiting (s\<lparr>links := l\<rparr>) ?a = (waiting s a)(k := remove1 p (a_procq a i))"
      by (rule waiting_dequeue [OF assms(1) l(2) assms(2,4)]) (use False assms(4) in auto)
    moreover have "blocked ?a = blocked a - {p}"
      using other assms(2,3) dq unfolding blocked_def by (auto simp: set_remove1_eq split: if_splits)
    ultimately show ?thesis
      using l w by (intro exI [of _ l] exI [of _ "semds s"] exI [of _ ?a]) simp
  qed
qed


section \<open>removeBlocked, outBlocked and headBlocked\<close>

lemma removeBlocked_Nil:
  assumes "kwf s a" "waiting s a k = []"
  shows "removeBlocked k s = Some (None, s)"
proof -
  have "k \<notin> key s ` set (a_asl a)" using assms waiting_Nil_iff by blast
  then have "asl_find k s = Some None"
    using asl_find_eq [OF wf_rings [OF assms(1)], of "a_asl a" k] find_key_None [of s k "a_asl a"] by simp
  then show ?thesis by (simp add: removeBlocked_def)
qed

lemma removeBlocked_Cons:
  assumes "kwf s a" "waiting s a k = p # q"
  shows "\<exists>l d a'. removeBlocked k s = Some (Some p, s\<lparr>links := l, semds := d\<rparr>) \<and>
    kwf (s\<lparr>links := l, semds := d\<rparr>) a' \<and>
    waiting (s\<lparr>links := l, semds := d\<rparr>) a' = (waiting s a)(k := q) \<and>
    blocked a' = blocked a - {p} \<and>
    a_free a' = a_free a \<and> a_ready a' = a_ready a \<and> a_child a' = a_child a"
proof -
  have "waiting s a k \<noteq> []" using assms(2) by simp
  then obtain i where i: "i \<in> set (a_asl a)" "key s i = k" "waiting s a k = a_procq a i"
    using waiting_ConsE [OF assms(1)] by metis
  have "asl_find k s = Some (Some i)"
    using asl_find_eq [OF wf_rings [OF assms(1)], of "a_asl a" k] find_key [OF assms(1) i(1)] i(2) by simp
  moreover have q: "a_procq a i = p # q" using i(3) assms(2) by simp
  then have "list_next (S_procq i) (links s) = Some (P_list p)"
    using rings_list_next [OF wf_rings [OF assms(1)], of "S_procq i"] i(1) by simp
  ultimately have "removeBlocked k s = Some (Some p, unblock i p s)"
    by (simp add: removeBlocked_def unblock_def Let_def)
  moreover have "p \<in> set (a_procq a i)" using q by simp
  ultimately show ?thesis using unblock_eq [OF assms(1) i(1) _ i(2), of p] assms(2) by auto
qed

lemma outBlocked_search:
  assumes "kwf s a"
  shows "outBlocked p s = (case find (\<lambda>i. semAdd s p = key s i \<and> p \<in> set (a_procq a i)) (a_asl a) of
      Some i \<Rightarrow> Some (Some p, unblock i p s)
    | None \<Rightarrow> Some (None, s))"
proof -
  note R = wf_rings [OF assms]
  let ?inner = "\<lambda>i. list_for_each (links s) (S_procq i) (\<lambda>pos. Option.bind (container_of_p_list pos)
    (\<lambda>c. Some (if p = c then Some () else None)))"
  have inner: "?inner i = Some (if p \<in> set (a_procq a i) then Some () else None)"
    if "i \<in> set (a_asl a)" for i
  proof -
    have L: "lists_of a (S_procq i) = Some (map P_list (a_procq a i))" using that by simp
    have "?inner i = foreach (\<lambda>c. Some (if p = c then Some () else None)) (a_procq a i)"
      unfolding rings_list_for_each [OF R L] foreach_p_list by (rule refl)
    then show ?thesis by (simp add: foreach_find find_eq_elem)
  qed
  have "foreach (\<lambda>i. if semAdd s p = key s i
          then Option.bind (?inner i) (\<lambda>found. Some (map_option (\<lambda>_. i) found)) else Some None) (a_asl a) =
    foreach (\<lambda>i. Some (if semAdd s p = key s i \<and> p \<in> set (a_procq a i) then Some i else None)) (a_asl a)"
    by (rule foreach_cong) (simp add: inner)
  also have "\<dots> = Some (find (\<lambda>i. semAdd s p = key s i \<and> p \<in> set (a_procq a i)) (a_asl a))"
    using foreach_find [where g = "\<lambda>i. i"] by (simp add: option.map_ident)
  finally have F: "foreach (\<lambda>i. if semAdd s p = key s i
          then Option.bind (?inner i) (\<lambda>found. Some (map_option (\<lambda>_. i) found)) else Some None) (a_asl a) =
    Some (find (\<lambda>i. semAdd s p = key s i \<and> p \<in> set (a_procq a i)) (a_asl a))" .
  show ?thesis
    unfolding outBlocked_def rings_list_for_each [OF R lists_of.simps(4)] foreach_s_link F
    by (simp add: unblock_def Let_def split: option.splits)
qed

lemma outBlocked_other:
  assumes "kwf s a" "p \<notin> blocked a"
  shows "outBlocked p s = Some (None, s)"
proof -
  have "find (\<lambda>i. semAdd s p = key s i \<and> p \<in> set (a_procq a i)) (a_asl a) = None"
    using assms(2) by (auto simp: find_None_iff blocked_def)
  then show ?thesis by (simp only: outBlocked_search [OF assms(1)] option.case)
qed

lemma outBlocked_eq:
  assumes "kwf s a" "p \<in> blocked a"
  shows "\<exists>l d a'. outBlocked p s = Some (Some p, s\<lparr>links := l, semds := d\<rparr>) \<and>
    kwf (s\<lparr>links := l, semds := d\<rparr>) a' \<and>
    waiting (s\<lparr>links := l, semds := d\<rparr>) a' =
      (waiting s a)(semAdd s p := remove1 p (waiting s a (semAdd s p))) \<and>
    blocked a' = blocked a - {p} \<and>
    a_free a' = a_free a \<and> a_ready a' = a_ready a \<and> a_child a' = a_child a"
proof -
  let ?P = "\<lambda>i. semAdd s p = key s i \<and> p \<in> set (a_procq a i)"
  obtain i where i: "i \<in> set (a_asl a)" "p \<in> set (a_procq a i)" using assms(2) by (auto simp: blocked_def)
  have k: "key s i = semAdd s p" using i wfD(2) [OF assms(1)] by (simp add: wf_asl_def)
  have "j = i" if "find ?P (a_asl a) = Some j" for j
  proof (rule ccontr)
    assume "j \<noteq> i"
    have "j \<in> set (a_asl a)" "p \<in> set (a_procq a j)" using that by (auto simp: find_Some_iff)
    then show False using i wf_procq_disjoint [OF assms(1) i(1), of j] \<open>j \<noteq> i\<close> by auto
  qed
  moreover have "find ?P (a_asl a) \<noteq> None"
    using i k [symmetric] unfolding find_None_iff by blast
  ultimately have "find ?P (a_asl a) = Some i" by blast
  then have "outBlocked p s = Some (Some p, unblock i p s)"
    by (simp only: outBlocked_search [OF assms(1)] option.case)
  then show ?thesis using unblock_eq [OF assms(1) i k] by auto
qed

lemma headBlocked_eq:
  assumes "kwf s a"
  shows "headBlocked k s = Some (case waiting s a k of [] \<Rightarrow> None | p # _ \<Rightarrow> Some p)"
proof -
  note R = wf_rings [OF assms]
  show ?thesis
  proof (cases "find (\<lambda>i. key s i = k) (a_asl a)")
    case None
    then show ?thesis
      using asl_find_eq [OF R, of "a_asl a" k] by (simp only: headBlocked_def waiting_def) simp
  next
    case (Some i)
    then have i: "i \<in> set (a_asl a)" by (auto simp: find_Some_iff)
    have "headProcQ (S_procq i) s = Some (case a_procq a i of [] \<Rightarrow> None | p # _ \<Rightarrow> Some p)"
      by (rule headProcQ_eq [OF R]) (simp add: i)
    then show ?thesis using asl_find_eq [OF R, of "a_asl a" k] Some by (simp add: headBlocked_def waiting_def)
  qed
qed


section \<open>The contract of asl.c\<close>

interpretation semq: wait_queues kwf detached waiting insertBlocked removeBlocked
proof unfold_locales
  fix s a k
  assume W: "kwf s a"
  show "\<exists>s' a'. insertBlocked k p s = Some (False, s') \<and> kwf s' a' \<and>
      waiting s' a' = (waiting s a)(k := waiting s a k @ [p])" if "detached a p" for p
    using insertBlocked_eq [OF W that, of k] by blast
  show "waiting s a k = [] \<Longrightarrow> removeBlocked k s = Some (None, s)"
    by (rule removeBlocked_Nil [OF W])
  show "\<exists>s' a'. removeBlocked k s = Some (Some p, s') \<and> kwf s' a' \<and>
      waiting s' a' = (waiting s a)(k := q) \<and> detached a' p" if q: "waiting s a k = p # q" for p q
  proof -
    have p: "p \<in> blocked a" using waiting_iff [OF W, of p k] q by simp
    then have "p \<in> live a" "p \<notin> set (a_ready a)"
      using wfD(1) [OF W] wf_disjoint(3) [OF W] by (auto simp: wf_pcbs_def)
    then have "detached a' p" if "blocked a' = blocked a - {p}" "a_free a' = a_free a" "a_ready a' = a_ready a" for a'
      using that by (simp add: detached_def live_def)
    then show ?thesis using removeBlocked_Cons [OF W q] by blast
  qed
qed

end
