(* ===== verification/Scheduler.thy ===== *)
theory Scheduler
  imports Blocking
begin

text \<open>
  phase2/src/scheduler.c. The scheduler takes the first process of the ready queue;
  with an empty queue it halts, waits for an interrupt or panics.
\<close>

section \<open>The code\<close>

text \<open>
  The loop of dispatch runs while the ready queue is empty. HALT and PANIC do not
  return. WAIT suspends the processor until an interrupt, whose handler does not
  return here but dispatches again; the exit WAIT is that suspension.
\<close>

definition dispatch :: "kernel \<Rightarrow> (exit \<times> kernel) option" where
  "dispatch s =
    (if emptyProcQ ReadyQueue s then
       (if processCount s = 0 then Some (HALT, s)
        else if 0 < sint (softBlock_count s) then
          (let s = s\<lparr>cpu_mie := MIE_ALL AND NOT MIE_MTIE_MASK\<rparr>;
               st = cpu_status s OR MSTATUS_MIE_MASK;
               s = s\<lparr>cpu_status := st\<rparr>
           in Some (WAIT, s))
        else Some (PANIC, s))
     else do {
       (pcb, s) \<leftarrow> removeProcQ ReadyQueue s;
       let s = s\<lparr>currProc := pcb\<rparr>;
       let s = s\<lparr>cpu_timer := TIMESLICE * ram s TIMESCALEADDR\<rparr>;
       let s = s\<lparr>tod_start := tod s\<rparr>;
       p \<leftarrow> pcb;
       Some (LDST (p_s (pcbs s p)), s)
     })"

section \<open>The invariant of the nucleus\<close>

text \<open>
  \<open>ninv D s a\<close>: the structures are well formed, the processes in \<open>D\<close> are in no
  queue, every other process is ready or blocked, and the ready queue is ordered by
  priority. Between two activations of the nucleus \<open>D\<close> is the running process, if
  there is one; within a service a process that moves from one queue to another is in
  \<open>D\<close> for a while. \<open>count_ok\<close>: the process count is the number of processes.
\<close>

definition ninv :: "nat set \<Rightarrow> kernel \<Rightarrow> phase1 \<Rightarrow> bool" where
  "ninv D s a \<longleftrightarrow>
    kwf s a \<and>
    (\<forall>p\<in>D. detached a p) \<and>
    (\<forall>p\<in>live a. p \<in> set (a_ready a) \<or> p \<in> blocked a \<or> p \<in> D) \<and>
    prio_sorted (prio s) (a_ready a)"

definition count_ok :: "kernel \<Rightarrow> phase1 \<Rightarrow> bool" where
  "count_ok s a \<longleftrightarrow> processCount s = of_nat (card (live a))"

definition nucleus_inv :: "kernel \<Rightarrow> phase1 \<Rightarrow> bool" where
  "nucleus_inv s a \<longleftrightarrow> ninv (set_option (currProc s)) s a \<and> count_ok s a"

text \<open>
  The processes blocked on a device semaphore or on the pseudo-clock, and the
  statement that the soft-block count counts them.
\<close>

definition isDeviceSemaphore :: "platform \<Rightarrow> u32 \<Rightarrow> bool" where
  "isDeviceSemaphore pf sem \<longleftrightarrow>
    device_semaphore pf 0 \<le> sem \<and> sem \<le> device_semaphore pf (of_nat NRSEMAPHORES - 1)"

definition soft_blocked :: "platform \<Rightarrow> kernel \<Rightarrow> phase1 \<Rightarrow> nat set" where
  "soft_blocked pf s a = {p \<in> blocked a. isDeviceSemaphore pf (semAdd s p)}"

definition soft_ok :: "platform \<Rightarrow> kernel \<Rightarrow> phase1 \<Rightarrow> bool" where
  "soft_ok pf s a \<longleftrightarrow> softBlock_count s = of_nat (card (soft_blocked pf s a))"

lemma ninvD:
  assumes "ninv D s a"
  shows "kwf s a" and "\<And>p. p \<in> D \<Longrightarrow> detached a p"
    and "\<And>p. p \<in> live a \<Longrightarrow> p \<in> set (a_ready a) \<or> p \<in> blocked a \<or> p \<in> D"
    and "prio_sorted (prio s) (a_ready a)"
  using assms unfolding ninv_def by blast+

lemma live_finite [simp]: "finite (live a)"
  by (simp add: live_def)

lemma live_card: "card (live a) \<le> MAXPROC"
  using card_mono [of "{..<MAXPROC}" "live a"] by (auto simp: live_def)

lemma blocked_finite: "kwf s a \<Longrightarrow> finite (blocked a)"
  using finite_subset [OF _ live_finite] wfD(1) unfolding wf_pcbs_def by blast

lemma soft_blocked_card:
  assumes "kwf s a"
  shows "finite (soft_blocked pf s a)" and "card (soft_blocked pf s a) \<le> MAXPROC"
proof -
  have sub: "soft_blocked pf s a \<subseteq> live a"
    using wfD(1) [OF assms] by (auto simp: soft_blocked_def wf_pcbs_def)
  then show "finite (soft_blocked pf s a)" using finite_subset live_finite by blast
  show "card (soft_blocked pf s a) \<le> MAXPROC"
    using card_mono [OF live_finite sub] live_card [of a] by simp
qed

lemma of_nat_small_u32:
  assumes "n \<le> MAXPROC"
  shows "(of_nat n :: u32) = 0 \<longleftrightarrow> n = 0" and "0 < sint (of_nat n :: u32) \<longleftrightarrow> 0 < n"
proof -
  have n: "n < 2 ^ 31" using assms by (simp add: MAXPROC_def)
  then show "(of_nat n :: u32) = 0 \<longleftrightarrow> n = 0" by (intro of_nat_u32_eq_0) simp
  have "sint (of_nat n :: u32) = int n"
    using n by (simp add: signed_of_nat signed_take_bit_int_eq_self)
  then show "0 < sint (of_nat n :: u32) \<longleftrightarrow> 0 < n" by simp
qed

section \<open>What dispatch does\<close>

lemma dispatch_Cons:
  assumes "kwf s a" "a_ready a = p # q"
  shows "\<exists>l. dispatch s = Some (LDST (p_s (pcbs s p)), s\<lparr>links := l, currProc := Some p,
      cpu_timer := TIMESLICE * ram s TIMESCALEADDR, tod_start := tod s\<rparr>) \<and>
    kwf (s\<lparr>links := l\<rparr>) (a\<lparr>a_ready := q\<rparr>)"
proof -
  obtain l where "removeProcQ ReadyQueue s = Some (Some p, s\<lparr>links := l\<rparr>)"
    "kwf (s\<lparr>links := l\<rparr>) (a\<lparr>a_ready := q\<rparr>)"
    using removeProcQ_ready [OF assms] by blast
  then show ?thesis
    using emptyProcQ_ready [OF assms(1)] assms(2) by (auto simp: dispatch_def)
qed

text \<open>
  The invariant reads the links, the keys of the descriptors and, of the PCBs, the
  parent, the semaphore address and the priority.
\<close>

lemma ninv_frame:
  assumes "ninv D s a" "links s' = links s" "semds s' = semds s"
    and "\<And>p. parent s' p = parent s p" "\<And>p. semAdd s' p = semAdd s p" "\<And>p. prio s' p = prio s p"
  shows "ninv D s' a"
proof -
  have "kwf s' a \<longleftrightarrow> kwf s a" by (rule wf_cong) (simp_all add: assms)
  moreover have "prio s' = prio s" using assms(6) by (rule ext)
  ultimately show ?thesis using assms(1) unfolding ninv_def by simp
qed

lemma count_ok_frame:
  "count_ok s a \<Longrightarrow> processCount s' = processCount s \<Longrightarrow> live a' = live a \<Longrightarrow> count_ok s' a'"
  by (simp add: count_ok_def)

lemma live_empty_iff: "count_ok s a \<Longrightarrow> processCount s = 0 \<longleftrightarrow> live a = {}"
  using of_nat_small_u32(1) [OF live_card, of a] by (simp add: count_ok_def)

text \<open>dispatch with a ready process runs the first one.\<close>

lemma dispatch_ready:
  assumes "ninv {} s a" "a_ready a = p # q"
  shows "\<exists>l. dispatch s = Some (LDST (p_s (pcbs s p)), s\<lparr>links := l, currProc := Some p,
      cpu_timer := TIMESLICE * ram s TIMESCALEADDR, tod_start := tod s\<rparr>) \<and>
    ninv {p} (s\<lparr>links := l, currProc := Some p,
      cpu_timer := TIMESLICE * ram s TIMESCALEADDR, tod_start := tod s\<rparr>) (a\<lparr>a_ready := q\<rparr>)"
proof -
  obtain l where l: "dispatch s = Some (LDST (p_s (pcbs s p)), s\<lparr>links := l, currProc := Some p,
      cpu_timer := TIMESLICE * ram s TIMESCALEADDR, tod_start := tod s\<rparr>)"
    "kwf (s\<lparr>links := l\<rparr>) (a\<lparr>a_ready := q\<rparr>)"
    using dispatch_Cons [OF ninvD(1) [OF assms(1)] assms(2)] by blast
  have p: "p \<in> live a" "p \<notin> blocked a" "p \<notin> set q"
    using wfD(1) [OF ninvD(1) [OF assms(1)]] wf_disjoint(3) [OF ninvD(1) [OF assms(1)]]
      wf_distinct(2) [OF ninvD(1) [OF assms(1)]] assms(2) by (auto simp: wf_pcbs_def)
  have "ninv {p} (s\<lparr>links := l\<rparr>) (a\<lparr>a_ready := q\<rparr>)"
    using assms l(2) p unfolding ninv_def detached_def
    by (auto dest: prio_sorted_tl)
  then have "ninv {p} (s\<lparr>links := l, currProc := Some p,
      cpu_timer := TIMESLICE * ram s TIMESCALEADDR, tod_start := tod s\<rparr>) (a\<lparr>a_ready := q\<rparr>)"
    by (rule ninv_frame) simp_all
  then show ?thesis using l(1) by blast
qed

lemma dispatch_idle:
  assumes "ninv {} s a" "count_ok s a" "a_ready a = []"
  shows "dispatch s =
    (if live a = {} then Some (HALT, s)
     else if 0 < sint (softBlock_count s) then
       Some (WAIT, s\<lparr>cpu_mie := MIE_ALL AND NOT MIE_MTIE_MASK,
         cpu_status := cpu_status s OR MSTATUS_MIE_MASK\<rparr>)
     else Some (PANIC, s))"
  using emptyProcQ_ready [OF ninvD(1) [OF assms(1)]] assms(3) live_empty_iff [OF assms(2)]
  by (simp add: dispatch_def Let_def)

text \<open>
  dispatch gives back the invariant: with a ready process it runs it, otherwise the
  processor is left without one.
\<close>

lemma dispatch_inv:
  assumes "ninv {} s a" "count_ok s a" "a_ready a = [] \<Longrightarrow> currProc s = None"
  shows "\<exists>e s'. dispatch s = Some (e, s') \<and> nucleus_inv s' (a\<lparr>a_ready := tl (a_ready a)\<rparr>) \<and>
    softBlock_count s' = softBlock_count s \<and> pcbs s' = pcbs s \<and> semds s' = semds s \<and>
    ram s' = ram s \<and> states s' = states s \<and>
    currProc s' = (case a_ready a of [] \<Rightarrow> None | p # _ \<Rightarrow> Some p)"
proof (cases "a_ready a")
  case Nil
  have eq: "a\<lparr>a_ready := tl (a_ready a)\<rparr> = a" using Nil by (cases a) simp
  have "ninv {} (s\<lparr>cpu_mie := m, cpu_status := t\<rparr>) a" for m t
    by (rule ninv_frame [OF assms(1)]) simp_all
  then show ?thesis
    unfolding eq dispatch_idle [OF assms(1,2) Nil] using assms Nil
    by (auto simp: nucleus_inv_def count_ok_def)
next
  case (Cons p q)
  then obtain l where "dispatch s = Some (LDST (p_s (pcbs s p)), s\<lparr>links := l, currProc := Some p,
      cpu_timer := TIMESLICE * ram s TIMESCALEADDR, tod_start := tod s\<rparr>)"
    "ninv {p} (s\<lparr>links := l, currProc := Some p,
      cpu_timer := TIMESLICE * ram s TIMESCALEADDR, tod_start := tod s\<rparr>) (a\<lparr>a_ready := q\<rparr>)"
    using dispatch_ready [OF assms(1)] by blast
  then show ?thesis using Cons assms(2) by (auto simp: nucleus_inv_def count_ok_def)
qed

section \<open>Moving processes between queues\<close>

lemma ready_insert:
  assumes "ninv D s a" "p \<in> D"
  shows "\<exists>l. insertProcQ ReadyQueue p s = Some (s\<lparr>links := l\<rparr>) \<and>
    ninv (D - {p}) (s\<lparr>links := l\<rparr>) (a\<lparr>a_ready := prio_insert (prio s) p (a_ready a)\<rparr>)"
proof -
  have p: "detached a p" using ninvD(2) [OF assms] .
  obtain l where l: "insertProcQ ReadyQueue p s = Some (s\<lparr>links := l\<rparr>)"
    "kwf (s\<lparr>links := l\<rparr>) (a\<lparr>a_ready := prio_insert (prio s) p (a_ready a)\<rparr>)"
    using insertProcQ_ready [OF ninvD(1) [OF assms(1)] p] by blast
  have "ninv (D - {p}) (s\<lparr>links := l\<rparr>) (a\<lparr>a_ready := prio_insert (prio s) p (a_ready a)\<rparr>)"
    unfolding ninv_def
    using l(2) ninvD(2,3) [OF assms(1)] prio_insert_sorted [OF ninvD(4) [OF assms(1)]]
    by (auto simp: detached_def)
  with l(1) show ?thesis by blast
qed

lemma ready_take:
  assumes "ninv D s a" "a_ready a = p # q"
  shows "\<exists>l. removeProcQ ReadyQueue s = Some (Some p, s\<lparr>links := l\<rparr>) \<and>
    ninv (insert p D) (s\<lparr>links := l\<rparr>) (a\<lparr>a_ready := q\<rparr>)"
proof -
  note W = ninvD(1) [OF assms(1)]
  obtain l where l: "removeProcQ ReadyQueue s = Some (Some p, s\<lparr>links := l\<rparr>)"
    "kwf (s\<lparr>links := l\<rparr>) (a\<lparr>a_ready := q\<rparr>)"
    using removeProcQ_ready [OF W assms(2)] by blast
  have "p \<in> live a" "p \<notin> blocked a" "p \<notin> set q"
    using wfD(1) [OF W] wf_disjoint(3) [OF W] wf_distinct(2) [OF W] assms(2)
    by (auto simp: wf_pcbs_def)
  then have "ninv (insert p D) (s\<lparr>links := l\<rparr>) (a\<lparr>a_ready := q\<rparr>)"
    using assms l(2) unfolding ninv_def detached_def by (auto dest: prio_sorted_tl)
  with l(1) show ?thesis by blast
qed

lemma block_insert:
  assumes "ninv D s a" "p \<in> D"
  shows "\<exists>l d a'. insertBlocked k p s = Some (False, s\<lparr>links := l, semds := d,
        pcbs := (pcbs s)(p := (pcbs s p)\<lparr>p_semAdd := k\<rparr>)\<rparr>) \<and>
      ninv (D - {p}) (s\<lparr>links := l, semds := d, pcbs := (pcbs s)(p := (pcbs s p)\<lparr>p_semAdd := k\<rparr>)\<rparr>) a' \<and>
      waiting (s\<lparr>links := l, semds := d, pcbs := (pcbs s)(p := (pcbs s p)\<lparr>p_semAdd := k\<rparr>)\<rparr>) a' =
        (waiting s a)(k := waiting s a k @ [p]) \<and>
      blocked a' = insert p (blocked a) \<and>
      a_free a' = a_free a \<and> a_ready a' = a_ready a \<and> a_child a' = a_child a"
proof -
  have p: "detached a p" using ninvD(2) [OF assms] .
  let ?s = "\<lambda>l d. s\<lparr>links := l, semds := d, pcbs := (pcbs s)(p := (pcbs s p)\<lparr>p_semAdd := k\<rparr>)\<rparr>"
  obtain l d a' where l: "insertBlocked k p s = Some (False, ?s l d)" "kwf (?s l d) a'"
    "waiting (?s l d) a' = (waiting s a)(k := waiting s a k @ [p])"
    "blocked a' = insert p (blocked a)"
    "a_free a' = a_free a" "a_ready a' = a_ready a" "a_child a' = a_child a"
    using insertBlocked_eq [OF ninvD(1) [OF assms(1)] p, of k] by metis
  have "live a' = live a" using l(5) by (simp add: live_def)
  moreover have "prio (?s l d) = prio s" by auto
  ultimately have "ninv (D - {p}) (?s l d) a'"
    using l(2,4,6) assms(1) unfolding ninv_def detached_def by auto
  with l show ?thesis by blast
qed

lemma block_take:
  assumes "ninv D s a" "waiting s a k = p # q"
  shows "\<exists>l d a'. removeBlocked k s = Some (Some p, s\<lparr>links := l, semds := d\<rparr>) \<and>
      ninv (insert p D) (s\<lparr>links := l, semds := d\<rparr>) a' \<and>
      waiting (s\<lparr>links := l, semds := d\<rparr>) a' = (waiting s a)(k := q) \<and>
      blocked a' = blocked a - {p} \<and>
      a_free a' = a_free a \<and> a_ready a' = a_ready a \<and> a_child a' = a_child a"
proof -
  note W = ninvD(1) [OF assms(1)]
  obtain l d a' where l: "removeBlocked k s = Some (Some p, s\<lparr>links := l, semds := d\<rparr>)"
    "kwf (s\<lparr>links := l, semds := d\<rparr>) a'"
    "waiting (s\<lparr>links := l, semds := d\<rparr>) a' = (waiting s a)(k := q)"
    "blocked a' = blocked a - {p}"
    "a_free a' = a_free a" "a_ready a' = a_ready a" "a_child a' = a_child a"
    using removeBlocked_Cons [OF W assms(2)] by blast
  have "p \<in> blocked a" using waiting_iff [OF W, of p k] assms(2) by simp
  then have "p \<in> live a" "p \<notin> set (a_ready a)"
    using wfD(1) [OF W] wf_disjoint(3) [OF W] by (auto simp: wf_pcbs_def)
  moreover have "live a' = live a" using l(5) by (simp add: live_def)
  ultimately have "ninv (insert p D) (s\<lparr>links := l, semds := d\<rparr>) a'"
    using l(2,4,6) assms(1) unfolding ninv_def detached_def by auto
  with l show ?thesis by blast
qed


section \<open>Counting the processes blocked on devices\<close>

lemma soft_block:
  assumes "kwf s a" "soft_ok pf s a" "blocked a' = insert p (blocked a)" "p \<notin> blocked a"
    and "\<And>q. q \<noteq> p \<Longrightarrow> semAdd s' q = semAdd s q" "semAdd s' p = k"
    and "softBlock_count s' = softBlock_count s + (if isDeviceSemaphore pf k then 1 else 0)"
  shows "soft_ok pf s' a'"
proof -
  have old: "{q \<in> blocked a. isDeviceSemaphore pf (semAdd s' q)} = soft_blocked pf s a"
    using assms(4,5) unfolding soft_blocked_def by metis
  have "soft_blocked pf s' a' =
    (if isDeviceSemaphore pf k then insert p (soft_blocked pf s a) else soft_blocked pf s a)"
    using assms(3,6) old unfolding soft_blocked_def by auto
  moreover have "p \<notin> soft_blocked pf s a" using assms(4) by (simp add: soft_blocked_def)
  ultimately show ?thesis
    using assms(2,7) soft_blocked_card(1) [OF assms(1)] by (simp add: soft_ok_def add.commute)
qed

lemma soft_unblock:
  assumes "kwf s a" "soft_ok pf s a" "blocked a' = blocked a - {p}" "p \<in> blocked a"
    and "\<And>q. semAdd s' q = semAdd s q"
    and "softBlock_count s' =
      softBlock_count s - (if isDeviceSemaphore pf (semAdd s p) then 1 else 0)"
  shows "soft_ok pf s' a'"
proof -
  have eq: "soft_blocked pf s' a' = soft_blocked pf s a - {p}"
    using assms(3,5) by (auto simp: soft_blocked_def)
  show ?thesis
  proof (cases "isDeviceSemaphore pf (semAdd s p)")
    case True
    then have p: "p \<in> soft_blocked pf s a" using assms(4) by (simp add: soft_blocked_def)
    then have "0 < card (soft_blocked pf s a)"
      using soft_blocked_card(1) [OF assms(1)] card_gt_0_iff by blast
    then show ?thesis
      using eq assms(2,6) True p soft_blocked_card(1) [OF assms(1)]
      by (simp add: soft_ok_def card_Diff_singleton of_nat_diff)
  next
    case False
    then have "soft_blocked pf s a - {p} = soft_blocked pf s a" by (auto simp: soft_blocked_def)
    then show ?thesis using eq assms(2,6) False by (simp add: soft_ok_def)
  qed
qed

lemma soft_ok_frame:
  assumes "soft_ok pf s a" "blocked a' = blocked a" "\<And>q. semAdd s' q = semAdd s q"
    and "softBlock_count s' = softBlock_count s"
  shows "soft_ok pf s' a'"
  using assms by (simp add: soft_ok_def soft_blocked_def)

end
