(* ===== verification/Syscall.thy ===== *)
theory Syscall
  imports Scheduler "HOL-Library.Signed_Division"
begin

text \<open>
  phase2/src/syscall.c: termination of process trees, the search for a process by
  its identifier, and the ten services of the nucleus. A service that ends in LDST
  or in dispatch returns how the processor goes on together with the new state; the
  other services return to the syscall handler. The pointer \<open>excState\<close> to the saved
  exception state is an address.
\<close>

section \<open>The code\<close>

subsection \<open>Termination\<close>

text \<open>
  The end of terminateProcess, after the loop over the children: leave the processor,
  the semaphore or the ready queue, leave the parent, and free the PCB. The function
  isDeviceSemaphore is in the theory of the scheduler.
\<close>

definition terminate_leaf :: "platform \<Rightarrow> nat \<Rightarrow> kernel \<Rightarrow> kernel option" where
  "terminate_leaf pf p s = do {
     s \<leftarrow> (if currProc s = Some p then Some (s\<lparr>currProc := None\<rparr>)
          else if p_semAdd (pcbs s p) \<noteq> NULL then do {
            (_, s) \<leftarrow> outBlocked p s;
            Some (if isDeviceSemaphore pf (p_semAdd (pcbs s p))
                  then s\<lparr>softBlock_count := softBlock_count s - 1\<rparr> else s)
          } else do {
            (_, s) \<leftarrow> outProcQ ReadyQueue p s;
            Some s
          });
     let s = snd (outChild (Some p) s);
     let s = s\<lparr>processCount := processCount s - 1\<rparr>;
     Some (freePcb p s)
   }"

text \<open>
  The loop \<^verbatim>\<open>while (!emptyChild(p)) terminateProcess(removeChild(p))\<close> goes back to its
  test after each child, which is what the second recursive call does.
\<close>

partial_function (option) terminateProcess ::
  "platform \<Rightarrow> nat option \<Rightarrow> kernel \<Rightarrow> kernel option" where
  "terminateProcess pf p s =
    (case p of
       None \<Rightarrow> Some s
     | Some q \<Rightarrow>
         (if \<not> emptyChild p s then
            Option.bind (removeChild p s) (\<lambda>r.
              Option.bind (terminateProcess pf (fst r) (snd r)) (\<lambda>s.
                terminateProcess pf p s))
          else terminate_leaf pf q s))"

subsection \<open>Search by process identifier\<close>

text \<open>
  The loop of searchInTree over a children list, at the node \<open>pos\<close>. For the child
  it does what searchInTree does: compare the identifier, then search the children.
\<close>

partial_function (option) searchChildren ::
  "kernel \<Rightarrow> u32 \<Rightarrow> lnode \<Rightarrow> lnode \<Rightarrow> nat option option" where
  "searchChildren s pid head pos =
    (if pos = head then Some None
     else Option.bind (container_of_p_sib pos) (\<lambda>child.
       Option.bind
         (if p_pid (pcbs s child) = pid then Some (Some child)
          else searchChildren s pid (P_child child) (nxt (links s) (P_child child)))
         (\<lambda>found. case found of
             Some p \<Rightarrow> Some (Some p)
           | None \<Rightarrow> searchChildren s pid head (nxt (links s) pos))))"

definition searchInTree :: "nat option \<Rightarrow> u32 \<Rightarrow> kernel \<Rightarrow> nat option option" where
  "searchInTree root pid s =
    (case root of
       None \<Rightarrow> Some None
     | Some r \<Rightarrow>
         (if p_pid (pcbs s r) = pid then Some (Some r)
          else searchChildren s pid (P_child r) (nxt (links s) (P_child r))))"

definition searchBlockedByPid :: "u32 \<Rightarrow> kernel \<Rightarrow> nat option option" where
  "searchBlockedByPid pid s =
    list_for_each (links s) Semd_h (\<lambda>pos. do {
      sem \<leftarrow> container_of_s_link pos;
      list_for_each (links s) (S_procq sem) (\<lambda>pos. do {
        p \<leftarrow> container_of_p_list pos;
        Some (if p_pid (pcbs s p) = pid then Some p else None) }) })"

definition findPcbByPid :: "u32 \<Rightarrow> kernel \<Rightarrow> nat option option" where
  "findPcbByPid pid s = do {
     found \<leftarrow> (if currProc s \<noteq> None then searchInTree (currProc s) pid s else Some None);
     case found of
       Some p \<Rightarrow> Some (Some p)
     | None \<Rightarrow> do {
         found \<leftarrow> list_for_each (links s) ReadyQueue (\<lambda>pos. do {
                    p \<leftarrow> container_of_p_list pos;
                    searchInTree (Some p) pid s });
         case found of
           Some p \<Rightarrow> Some (Some p)
         | None \<Rightarrow> searchBlockedByPid pid s
       }
   }"

subsection \<open>The services\<close>

definition nsys1 :: "platform \<Rightarrow> u32 \<Rightarrow> u32 \<Rightarrow> u32 \<Rightarrow> kernel \<Rightarrow> (u32 \<times> kernel) option" where
  "nsys1 pf a1 a2 a3 s = do {
     (r, s) \<leftarrow> allocPcb pf s;
     case r of
       None \<Rightarrow> Some (NOPROC, s)
     | Some new_pcb \<Rightarrow> do {
         let s = upd_pcb new_pcb (\<lambda>b. b\<lparr>p_s := copyState pf (p_s b) (states s a1)\<rparr>) s;
         let s = upd_pcb new_pcb (\<lambda>b. b\<lparr>p_prio := a2\<rparr>) s;
         let s = upd_pcb new_pcb (\<lambda>b. b\<lparr>p_supportStruct := a3\<rparr>) s;
         s \<leftarrow> insertProcQ ReadyQueue new_pcb s;
         let s = insertChild (currProc s) (Some new_pcb) s;
         let s = s\<lparr>processCount := processCount s + 1\<rparr>;
         let s = upd_pcb new_pcb (\<lambda>b. b\<lparr>p_time := 0\<rparr>) s;
         let s = upd_pcb new_pcb (\<lambda>b. b\<lparr>p_semAdd := NULL\<rparr>) s;
         Some (p_pid (pcbs s new_pcb), s)
       }
   }"

definition nsys2 :: "platform \<Rightarrow> u32 \<Rightarrow> u32 \<Rightarrow> kernel \<Rightarrow> (exit \<times> kernel) option" where
  "nsys2 pf a1 excState s =
    (if a1 = 0 then do {
       s \<leftarrow> terminateProcess pf (currProc s) s;
       dispatch s
     } else do {
       termPcb \<leftarrow> findPcbByPid a1 s;
       case termPcb of
         None \<Rightarrow>
           (let s = upd_state excState (set_a0 pf NOPROC) s
            in Some (LDST (states s excState), s))
       | Some p \<Rightarrow> do {
           s \<leftarrow> terminateProcess pf (Some p) s;
           dispatch s
         }
     })"

text \<open>
  The common start of the blocking services: save the exception state into the PCB of
  the current process and charge the time since it was dispatched.
\<close>

definition save_current :: "platform \<Rightarrow> u32 \<Rightarrow> kernel \<Rightarrow> (nat \<times> kernel) option" where
  "save_current pf excState s = do {
     p \<leftarrow> currProc s;
     let s = upd_pcb p (\<lambda>b. b\<lparr>p_s := copyState pf (p_s b) (states s excState)\<rparr>) s;
     let currentTime = tod s;
     let s = upd_pcb p (\<lambda>b. b\<lparr>p_time := p_time b + (currentTime - tod_start s)\<rparr>) s;
     Some (p, s)
   }"

definition nsys3 :: "platform \<Rightarrow> u32 \<Rightarrow> u32 \<Rightarrow> kernel \<Rightarrow> (exit \<times> kernel) option" where
  "nsys3 pf a1 excState s =
    (if 0 < sint (ram s a1) then
       (let s = write_word a1 (ram s a1 - 1) s
        in Some (LDST (states s excState), s))
     else do {
       (p, s) \<leftarrow> save_current pf excState s;
       (_, s) \<leftarrow> insertBlocked a1 p s;
       let s = s\<lparr>currProc := None\<rparr>;
       dispatch s
     })"

definition nsys4 :: "u32 \<Rightarrow> kernel \<Rightarrow> kernel option" where
  "nsys4 a1 s = do {
     (unblocked, s) \<leftarrow> removeBlocked a1 s;
     case unblocked of
       Some p \<Rightarrow> insertProcQ ReadyQueue p s
     | None \<Rightarrow> Some (write_word a1 (ram s a1 + 1) s)
   }"

text \<open>The index of the semaphore of a device, from the address of its command register.\<close>

definition nsys5_index :: "platform \<Rightarrow> u32 \<Rightarrow> int" where
  "nsys5_index pf a1 =
    (let offset = sint (a1 - START_DEVREG);
         regIndex = offset sdiv sint (DEVREGSIZE pf);
         fieldOffset = offset smod sint (DEVREGSIZE pf);
         lineIndex = regIndex sdiv sint (DEVPERINT pf);
         devNo = regIndex smod sint (DEVPERINT pf);
         semIndex = lineIndex * sint (DEVPERINT pf) + devNo
     in if lineIndex = 4 \<and> fieldOffset = 0xC then semIndex + sint (DEVPERINT pf) else semIndex)"

text \<open>An index outside the array of semaphores has no meaning in C.\<close>

definition device_sem_at :: "platform \<Rightarrow> int \<Rightarrow> u32 option" where
  "device_sem_at pf i =
    (if 0 \<le> i \<and> i < int NRSEMAPHORES then Some (device_semaphore pf (word_of_int i)) else None)"

definition nsys5 :: "platform \<Rightarrow> u32 \<Rightarrow> u32 \<Rightarrow> u32 \<Rightarrow> kernel \<Rightarrow> (exit \<times> kernel) option" where
  "nsys5 pf a1 a2 excState s = do {
     sem \<leftarrow> device_sem_at pf (nsys5_index pf a1);
     (p, s) \<leftarrow> save_current pf excState s;
     let s = s\<lparr>softBlock_count := softBlock_count s + 1\<rparr>;
     (_, s) \<leftarrow> insertBlocked sem p s;
     let s = s\<lparr>currProc := None\<rparr>;
     let s = write_word a1 a2 s;
     dispatch s
   }"

definition nsys6 :: "platform \<Rightarrow> u32 \<Rightarrow> kernel \<Rightarrow> kernel option" where
  "nsys6 pf excState s = do {
     p \<leftarrow> currProc s;
     let currentTime = tod s;
     Some (upd_state excState (set_a0 pf (p_time (pcbs s p) + (currentTime - tod_start s))) s)
   }"

definition nsys7 :: "platform \<Rightarrow> u32 \<Rightarrow> kernel \<Rightarrow> (exit \<times> kernel) option" where
  "nsys7 pf excState s = do {
     let pseudoClockSem = device_semaphore pf (of_nat NSUPPSEM);
     (p, s) \<leftarrow> save_current pf excState s;
     let s = s\<lparr>softBlock_count := softBlock_count s + 1\<rparr>;
     (_, s) \<leftarrow> insertBlocked pseudoClockSem p s;
     let s = s\<lparr>currProc := None\<rparr>;
     dispatch s
   }"

definition nsys8 :: "platform \<Rightarrow> u32 \<Rightarrow> kernel \<Rightarrow> kernel option" where
  "nsys8 pf excState s = do {
     p \<leftarrow> currProc s;
     Some (upd_state excState (set_a0 pf (p_supportStruct (pcbs s p))) s)
   }"

definition nsys9 :: "platform \<Rightarrow> u32 \<Rightarrow> u32 \<Rightarrow> kernel \<Rightarrow> kernel option" where
  "nsys9 pf a1 excState s = do {
     p \<leftarrow> currProc s;
     if a1 = 0 then Some (upd_state excState (set_a0 pf (p_pid (pcbs s p))) s)
     else
       (case p_parent (pcbs s p) of
          None \<Rightarrow> Some (upd_state excState (set_a0 pf 0) s)
        | Some q \<Rightarrow> Some (upd_state excState (set_a0 pf (p_pid (pcbs s q))) s))
   }"

definition nsys10 :: "platform \<Rightarrow> u32 \<Rightarrow> kernel \<Rightarrow> (exit \<times> kernel) option" where
  "nsys10 pf excState s = do {
     (p, s) \<leftarrow> save_current pf excState s;
     (old_head, s) \<leftarrow> removeProcQ ReadyQueue s;
     s \<leftarrow> insertProcQ ReadyQueue p s;
     let s = (case old_head of
                Some h \<Rightarrow> upd_links (list_add (P_list h) ReadyQueue) s
              | None \<Rightarrow> s);
     let s = s\<lparr>currProc := None\<rparr>;
     dispatch s
   }"

section \<open>Facts about the code\<close>

text \<open>The loop over the children calls searchInTree on each child.\<close>

lemma searchChildren_searchInTree:
  "searchChildren s pid head pos =
    (if pos = head then Some None
     else Option.bind (container_of_p_sib pos) (\<lambda>child.
       Option.bind (searchInTree (Some child) pid s)
         (\<lambda>found. case found of
             Some p \<Rightarrow> Some (Some p)
           | None \<Rightarrow> searchChildren s pid head (nxt (links s) pos))))"
  by (subst searchChildren.simps) (simp add: searchInTree_def)

end
