(* ===== verification/Interrupts.thy ===== *)
theory Interrupts
  imports Syscall
begin

text \<open>
  phase2/src/interrupts.c: the handlers of the processor local timer, the interval
  timer and the external devices. All of them end in LDST or in dispatch, except that
  interruptHandler returns when no handler is meant for the interrupt code.
\<close>

section \<open>The code\<close>

text \<open>
  pltInterruptHandler charges the time to the current process before it tests the
  pointer: with no current process the access is undefined.
\<close>

definition pltInterruptHandler :: "platform \<Rightarrow> kernel \<Rightarrow> (exit \<times> kernel) option" where
  "pltInterruptHandler pf s = do {
     let s = s\<lparr>cpu_timer := TIMESLICE * ram s TIMESCALEADDR\<rparr>;
     let currentTime = tod s;
     p \<leftarrow> currProc s;
     let s = upd_pcb p (\<lambda>b. b\<lparr>p_time := p_time b + (currentTime - tod_start s)\<rparr>) s;
     let excState = getCurrExceptionState pf;
     let s = upd_pcb p (\<lambda>b. b\<lparr>p_s := copyState pf (p_s b) (states s excState)\<rparr>) s;
     s \<leftarrow> insertProcQ ReadyQueue p s;
     dispatch s
   }"

text \<open>The loop that wakes every process waiting for the pseudo-clock.\<close>

partial_function (option) wakeAll :: "u32 \<Rightarrow> kernel \<Rightarrow> kernel option" where
  "wakeAll sem s =
    Option.bind (removeBlocked sem s) (\<lambda>r. case fst r of
        None \<Rightarrow> Some (snd r)
      | Some unblockedPcb \<Rightarrow>
          Option.bind (insertProcQ ReadyQueue unblockedPcb (snd r)) (\<lambda>s.
            wakeAll sem (s\<lparr>softBlock_count := softBlock_count s - 1\<rparr>)))"

definition itInterruptHandler :: "platform \<Rightarrow> kernel \<Rightarrow> (exit \<times> kernel) option" where
  "itInterruptHandler pf s = do {
     let s = s\<lparr>itimer := PSECOND\<rparr>;
     let pseudoClockSem = device_semaphore pf (of_nat NSUPPSEM);
     s \<leftarrow> wakeAll pseudoClockSem s;
     let s = write_word pseudoClockSem 0 s;
     s \<leftarrow> (case currProc s of
            Some p \<Rightarrow>
              (let excState = getCurrExceptionState pf;
                   s = upd_pcb p (\<lambda>b. b\<lparr>p_s := copyState pf (p_s b) (states s excState)\<rparr>) s
               in insertProcQ ReadyQueue p s)
          | None \<Rightarrow> Some s);
     dispatch s
   }"

text \<open>Back to the interrupted process, or to the scheduler when the processor was idle.\<close>

definition resume :: "platform \<Rightarrow> kernel \<Rightarrow> (exit \<times> kernel) option" where
  "resume pf s =
    (if currProc s \<noteq> None then Some (LDST (states s (getCurrExceptionState pf)), s)
     else dispatch s)"

definition interrupt_line :: "u32 \<Rightarrow> u32 option" where
  "interrupt_line excCode =
    (if excCode = IL_DISK then Some 3
     else if excCode = IL_FLASH then Some 4
     else if excCode = IL_ETHERNET then Some 5
     else if excCode = IL_PRINTER then Some 6
     else if excCode = IL_TERMINAL then Some 7
     else None)"

text \<open>The first device of a line with a pending interrupt, from the bitmap of the line.\<close>

definition pending_device :: "u32 \<Rightarrow> u32 option" where
  "pending_device bitmap =
    (if bitmap AND 0x01 \<noteq> 0 then Some 0
     else if bitmap AND 0x02 \<noteq> 0 then Some 1
     else if bitmap AND 0x04 \<noteq> 0 then Some 2
     else if bitmap AND 0x08 \<noteq> 0 then Some 3
     else if bitmap AND 0x10 \<noteq> 0 then Some 4
     else if bitmap AND 0x20 \<noteq> 0 then Some 5
     else if bitmap AND 0x40 \<noteq> 0 then Some 6
     else if bitmap AND 0x80 \<noteq> 0 then Some 7
     else None)"

definition device_address :: "u32 \<Rightarrow> u32 \<Rightarrow> u32" where
  "device_address IntLineNo DevNo = START_DEVREG + (IntLineNo - 3) * 0x80 + DevNo * 0x10"

text \<open>
  The sub-device that raised the interrupt: the status to report, the address of the
  command register to acknowledge, and the index of the semaphore. A completed
  transmission of a terminal goes before a received character.
\<close>

definition device_event :: "platform \<Rightarrow> u32 \<Rightarrow> u32 \<Rightarrow> kernel \<Rightarrow> (u32 \<times> u32 \<times> u32) option" where
  "device_event pf IntLineNo DevNo s =
    (let devAddr = device_address IntLineNo DevNo;
         semaphoreIdx = (IntLineNo - 3) * DEVPERINT pf + DevNo
     in if IntLineNo = 7 then
          (let receiveStatus = ram s devAddr;
               transmissionStatus = ram s (devAddr + 0x8)
           in if transmissionStatus AND 0xFF = OKCHARTRANS then
                Some (transmissionStatus, devAddr + 0xC, semaphoreIdx + DEVPERINT pf)
              else if receiveStatus AND 0xFF = CHARRECV then
                Some (receiveStatus, devAddr + 0x4, semaphoreIdx)
              else None)
        else Some (ram s devAddr, devAddr + 0x4, semaphoreIdx))"

text \<open>The V operation on a device semaphore that hands the status to the process it wakes.\<close>

definition signal_device :: "platform \<Rightarrow> u32 \<Rightarrow> u32 \<Rightarrow> kernel \<Rightarrow> kernel option" where
  "signal_device pf sem st s = do {
     (unblockedPcb, s) \<leftarrow> removeBlocked sem s;
     case unblockedPcb of
       Some p \<Rightarrow> do {
         let s = upd_pcb p (\<lambda>b. b\<lparr>p_s := set_a0 pf st (p_s b)\<rparr>) s;
         s \<leftarrow> insertProcQ ReadyQueue p s;
         Some (s\<lparr>softBlock_count := softBlock_count s - 1\<rparr>)
       }
     | None \<Rightarrow> Some (write_word sem (ram s sem + 1) s)
   }"

definition deviceInterruptHandler :: "platform \<Rightarrow> u32 \<Rightarrow> kernel \<Rightarrow> (exit \<times> kernel) option" where
  "deviceInterruptHandler pf excCode s =
    (case interrupt_line excCode of
       None \<Rightarrow> resume pf s
     | Some IntLineNo \<Rightarrow>
         (let mapAddr = 0x10000040 + (IntLineNo - 3) * WORDLEN;
              bitmap = ram s mapAddr
          in case pending_device bitmap of
               None \<Rightarrow> resume pf s
             | Some DevNo \<Rightarrow>
                 (case device_event pf IntLineNo DevNo s of
                    None \<Rightarrow> resume pf s
                  | Some (st, command, semaphoreIdx) \<Rightarrow> do {
                      let s = write_word command (ACK pf) s;
                      s \<leftarrow> signal_device pf (device_semaphore pf semaphoreIdx) st s;
                      resume pf s
                    })))"

definition interruptHandler :: "platform \<Rightarrow> kernel \<Rightarrow> (exit \<times> kernel) option" where
  "interruptHandler pf s =
    (let excState = getCurrExceptionState pf;
         excCause = cause (states s excState);
         excCode = excCause AND CAUSE_EXCCODE_MASK pf
     in if excCode = IL_CPUTIMER then pltInterruptHandler pf s
        else if excCode = IL_TIMER then itInterruptHandler pf s
        else if \<not> slt excCode IL_DISK \<and> \<not> slt IL_TERMINAL excCode then
          deviceInterruptHandler pf excCode s
        else Some (RETURN, s))"

end
