(* ===== verification/Exceptions.thy ===== *)
theory Exceptions
  imports Interrupts
begin

text \<open>
  phase2/src/exceptions.c: the TLB refill handler, the dispatch of exceptions, Pass Up
  or Die and the syscall handler; and phase2/src/initial.c, which boots the nucleus.
\<close>

section \<open>The code of exceptions.c\<close>

text \<open>The handler dereferences the current process and its support structure.\<close>

definition uTLB_RefillHandler :: "kernel \<Rightarrow> (exit \<times> kernel) option" where
  "uTLB_RefillHandler s = do {
     let saved_state = states s BIOSDATAPAGE;
     let missingVPN = drop_bit VPNSHIFT (entry_hi saved_state AND GETPAGENO);
     p \<leftarrow> currProc s;
     let sup = p_supportStruct (pcbs s p);
     pageTable \<leftarrow> (if sup = NULL then None else Some (sup_privatePgTbl (supports s sup)));
     let pageIndex = missingVPN mod MAXPAGES;
     let pte = pageTable (unat pageIndex);
     let s = s\<lparr>cpu_entryHI := pte_entryHI pte\<rparr>;
     let s = s\<lparr>cpu_entryLO := pte_entryLO pte\<rparr>;
     let s = s\<lparr>tlb_written := tlb_written s @ [(cpu_entryHI s, cpu_entryLO s)]\<rparr>;
     Some (LDST saved_state, s)
   }"

definition passUpOrDie :: "platform \<Rightarrow> nat \<Rightarrow> kernel \<Rightarrow> (exit \<times> kernel) option" where
  "passUpOrDie pf exceptionType s = do {
     p \<leftarrow> currProc s;
     let sup = p_supportStruct (pcbs s p);
     if sup = NULL then nsys2 pf 0 (getCurrExceptionState pf) s
     else do {
       let excState = states s (getCurrExceptionState pf);
       let spt = supports s sup;
       let spt = spt\<lparr>sup_exceptState := (sup_exceptState spt)(exceptionType :=
                   copyState pf (sup_exceptState spt exceptionType) excState)\<rparr>;
       let s = s\<lparr>supports := (supports s)(sup := spt)\<rparr>;
       let ctx = sup_exceptContext spt exceptionType;
       Some (LDCXT (ctx_stackPtr ctx) (ctx_status ctx) (ctx_pc ctx), s)
     }
   }"

definition exc_tlbHandler :: "platform \<Rightarrow> kernel \<Rightarrow> (exit \<times> kernel) option" where
  "exc_tlbHandler pf s = passUpOrDie pf PGFAULTEXCEPT s"

definition exc_trapHandler :: "platform \<Rightarrow> kernel \<Rightarrow> (exit \<times> kernel) option" where
  "exc_trapHandler pf s = passUpOrDie pf GENERALEXCEPT s"

text \<open>After a service that returns, LDST loads the exception state.\<close>

definition load_state :: "u32 \<Rightarrow> kernel \<Rightarrow> (exit \<times> kernel) option" where
  "load_state excState s = Some (LDST (states s excState), s)"

definition syscallHandler :: "platform \<Rightarrow> kernel \<Rightarrow> (exit \<times> kernel) option" where
  "syscallHandler pf s =
    (let excState = getCurrExceptionState pf;
         st = states s excState;
         a0_numSys = gpr st (gpr_a0 pf);
         a1 = gpr st (gpr_a1 pf);
         a2 = gpr st (gpr_a2 pf);
         a3 = gpr st (gpr_a3 pf)
     in if sint a0_numSys < 0 \<and> MSTATUS_MPP_MASK AND status st = MSTATUS_MPP_U then
          (let s = upd_state excState (\<lambda>st. st\<lparr>cause :=
                     (cause st AND CLEAREXECCODE) OR push_bit CAUSESHIFT PRIVINSTR\<rparr>) s
           in exc_trapHandler pf s)
        else
          (let s = (if - 10 \<le> sint a0_numSys \<and> sint a0_numSys \<le> - 1
                    then upd_state excState (\<lambda>st. st\<lparr>pc_epc := pc_epc st + WORDLEN\<rparr>) s else s)
           in if a0_numSys = - 1 then do {
                (r, s) \<leftarrow> nsys1 pf a1 a2 a3 s;
                let s = upd_state excState (set_a0 pf r) s;
                load_state excState s
              }
              else if a0_numSys = - 2 then nsys2 pf a1 excState s
              else if a0_numSys = - 3 then nsys3 pf a1 excState s
              else if a0_numSys = - 4 then do { s \<leftarrow> nsys4 a1 s; load_state excState s }
              else if a0_numSys = - 5 then nsys5 pf a1 a2 excState s
              else if a0_numSys = - 6 then do { s \<leftarrow> nsys6 pf excState s; load_state excState s }
              else if a0_numSys = - 7 then nsys7 pf excState s
              else if a0_numSys = - 8 then do { s \<leftarrow> nsys8 pf excState s; load_state excState s }
              else if a0_numSys = - 9 then do { s \<leftarrow> nsys9 pf a1 excState s; load_state excState s }
              else if a0_numSys = - 10 then nsys10 pf excState s
              else exc_trapHandler pf s))"

definition exceptionHandler :: "platform \<Rightarrow> kernel \<Rightarrow> (exit \<times> kernel) option" where
  "exceptionHandler pf s =
    (let excState = getCurrExceptionState pf;
         excCode = cause (states s excState)
     in if CAUSE_IS_INT pf excCode then interruptHandler pf s
        else
          (let excCodeMask = excCode AND CAUSE_EXCCODE_MASK pf
           in if 24 \<le> sint excCodeMask \<and> sint excCodeMask \<le> 28 then exc_tlbHandler pf s
              else if excCodeMask = 8 \<or> excCodeMask = 11 then syscallHandler pf s
              else exc_trapHandler pf s))"

section \<open>The code of initial.c\<close>

definition set_sp :: "platform \<Rightarrow> u32 \<Rightarrow> state_t \<Rightarrow> state_t" where
  "set_sp pf v st = st\<lparr>gpr := (gpr st)(gpr_sp pf := v)\<rparr>"

definition allocFirstPcb :: "platform \<Rightarrow> kernel \<Rightarrow> (nat \<times> kernel) option" where
  "allocFirstPcb pf s = do {
     (r, s) \<leftarrow> allocPcb pf s;
     pcb \<leftarrow> r;
     let s = upd_pcb pcb (\<lambda>b. b\<lparr>p_s := (p_s b)\<lparr>pc_epc := adr_test pf\<rparr>\<rparr>) s;
     let s = upd_pcb pcb (\<lambda>b. b\<lparr>p_s := (p_s b)\<lparr>mie := MIE_ALL\<rparr>\<rparr>) s;
     let s = upd_pcb pcb (\<lambda>b. b\<lparr>p_s := (p_s b)\<lparr>status := MSTATUS_MPIE_MASK OR MSTATUS_MPP_M\<rparr>\<rparr>) s;
     let s = upd_pcb pcb (\<lambda>b. b\<lparr>p_parent := None\<rparr>) s;
     let s = upd_links (INIT_LIST_HEAD (P_child pcb)) s;
     let s = upd_links (INIT_LIST_HEAD (P_sib pcb)) s;
     let s = upd_pcb pcb (\<lambda>b. b\<lparr>p_time := 0\<rparr>) s;
     let s = upd_pcb pcb (\<lambda>b. b\<lparr>p_semAdd := NULL\<rparr>) s;
     let s = upd_pcb pcb (\<lambda>b. b\<lparr>p_supportStruct := NULL\<rparr>) s;
     let s = upd_pcb pcb (\<lambda>b. b\<lparr>p_s := set_sp pf (ram s RAMBASEADDR + ram s RAMBASESIZE) (p_s b)\<rparr>) s;
     Some (pcb, s)
   }"

definition initVector :: "platform \<Rightarrow> kernel \<Rightarrow> kernel" where
  "initVector pf s = s\<lparr>passupvector := \<lparr>
     tlb_refill_handler = adr_uTLB_RefillHandler pf,
     tlb_refill_stackPtr = KERNELSTACK,
     exception_handler = adr_exceptionHandler pf,
     exception_stackPtr = KERNELSTACK\<rparr>\<rparr>"

definition main :: "platform \<Rightarrow> kernel \<Rightarrow> (exit \<times> kernel) option" where
  "main pf s = do {
     let s = mkEmptyProcQ (Some ReadyQueue) s;
     let s = initPcbs s;
     let s = initASL s;
     let s = initVector pf s;
     let s = s\<lparr>itimer := PSECOND\<rparr>;
     (pcb, s) \<leftarrow> allocFirstPcb pf s;
     s \<leftarrow> insertProcQ ReadyQueue pcb s;
     let s = s\<lparr>processCount := processCount s + 1\<rparr>;
     dispatch s
   }"

text \<open>
  The global variables before main runs: the initialisers of initial.c and pcb.c
  (\<open>next_pid = 1\<close>, the counters 0, \<open>currProc\<close> NULL, the device semaphores 0).
\<close>

definition boot_globals :: "platform \<Rightarrow> kernel \<Rightarrow> bool" where
  "boot_globals pf s \<longleftrightarrow>
    next_pid s = 1 \<and> processCount s = 0 \<and> softBlock_count s = 0 \<and> currProc s = None \<and>
    (\<forall>i<NRSEMAPHORES. ram s (device_semaphore pf (of_nat i)) = 0)"

end
