(* ===== verification/Services.thy ===== *)
theory Services
  imports Exceptions
begin

text \<open>
  The services of the nucleus and the interrupt handlers, other than termination:
  what each does to the queues, and that each keeps the invariant of the nucleus.
\<close>

section \<open>Saving the current process\<close>

definition saved_pcb :: "platform \<Rightarrow> u32 \<Rightarrow> kernel \<Rightarrow> nat \<Rightarrow> pcb_t" where
  "saved_pcb pf excState s p = (pcbs s p)\<lparr>p_s := copyState pf (p_s (pcbs s p)) (states s excState),
     p_time := p_time (pcbs s p) + (tod s - tod_start s)\<rparr>"

lemma save_current_eq:
  "currProc s = Some p \<Longrightarrow>
    save_current pf excState s = Some (p, s\<lparr>pcbs := (pcbs s)(p := saved_pcb pf excState s p)\<rparr>)"
  by (simp add: save_current_def upd_pcb_def saved_pcb_def Let_def)

lemma saved_pcb_simps [simp]:
  "p_parent (saved_pcb pf e s p) = parent s p" "p_semAdd (saved_pcb pf e s p) = semAdd s p"
  "p_prio (saved_pcb pf e s p) = prio s p" "p_pid (saved_pcb pf e s p) = p_pid (pcbs s p)"
  "p_supportStruct (saved_pcb pf e s p) = p_supportStruct (pcbs s p)"
  by (simp_all add: saved_pcb_def)

lemma ninv_save:
  "ninv D s a \<Longrightarrow> ninv D (s\<lparr>pcbs := (pcbs s)(p := saved_pcb pf e s p)\<rparr>) a"
  by (rule ninv_frame) auto

lemma nucleus_invD:
  assumes "nucleus_inv s a"
  shows "ninv (set_option (currProc s)) s a" "count_ok s a" "kwf s a"
  using assms ninvD(1) unfolding nucleus_inv_def by blast+

section \<open>Blocking services\<close>

text \<open>
  What blocking the process \<open>p\<close> on the semaphore \<open>k\<close> leaves behind: \<open>b\<close> is the PCB
  of \<open>p\<close> as it was saved, and the first process of the ready queue runs.
\<close>

definition blocked_on :: "u32 \<Rightarrow> nat \<Rightarrow> pcb_t \<Rightarrow> kernel \<Rightarrow> phase1 \<Rightarrow> kernel \<Rightarrow> phase1 \<Rightarrow> bool" where
  "blocked_on k p b s a s' a' \<longleftrightarrow>
    nucleus_inv s' a' \<and>
    waiting s' a' = (waiting s a)(k := waiting s a k @ [p]) \<and>
    pcbs s' = (pcbs s)(p := b\<lparr>p_semAdd := k\<rparr>) \<and>
    a_ready a' = tl (a_ready a) \<and> blocked a' = insert p (blocked a) \<and>
    a_free a' = a_free a \<and> a_child a' = a_child a \<and>
    currProc s' = (case a_ready a of [] \<Rightarrow> None | q # _ \<Rightarrow> Some q)"

text \<open>
  The path nsys3, nsys5 and nsys7 share. \<open>s\<close> is the state after the process was
  saved; \<open>s2\<close> is the state in which dispatch is called.
\<close>

lemma block_and_dispatch:
  assumes "ninv {p} s a" "count_ok s a"
  shows "\<exists>l d. insertBlocked k p s = Some (False, s\<lparr>links := l, semds := d,
      pcbs := (pcbs s)(p := (pcbs s p)\<lparr>p_semAdd := k\<rparr>)\<rparr>) \<and>
    (\<forall>s2. links s2 = l \<longrightarrow> semds s2 = d \<longrightarrow> pcbs s2 = (pcbs s)(p := (pcbs s p)\<lparr>p_semAdd := k\<rparr>) \<longrightarrow>
       processCount s2 = processCount s \<longrightarrow> currProc s2 = None \<longrightarrow>
       (\<exists>e s' a'. dispatch s2 = Some (e, s') \<and> blocked_on k p (pcbs s p) s a s' a' \<and>
          softBlock_count s' = softBlock_count s2 \<and> ram s' = ram s2 \<and> states s' = states s2))"
proof -
  let ?b = "(pcbs s)(p := (pcbs s p)\<lparr>p_semAdd := k\<rparr>)"
  let ?s = "\<lambda>l d. s\<lparr>links := l, semds := d, pcbs := ?b\<rparr>"
  obtain l d a1 where l: "insertBlocked k p s = Some (False, ?s l d)" "ninv {} (?s l d) a1"
    "waiting (?s l d) a1 = (waiting s a)(k := waiting s a k @ [p])"
    "blocked a1 = insert p (blocked a)"
    "a_free a1 = a_free a" "a_ready a1 = a_ready a" "a_child a1 = a_child a"
    using block_insert [OF assms(1), of p k] by auto
  have "\<exists>e s' a'. dispatch s2 = Some (e, s') \<and> blocked_on k p (pcbs s p) s a s' a' \<and>
          softBlock_count s' = softBlock_count s2 \<and> ram s' = ram s2 \<and> states s' = states s2"
    if s2: "links s2 = l" "semds s2 = d" "pcbs s2 = ?b" "processCount s2 = processCount s"
      "currProc s2 = None" for s2
  proof -
    have "ninv {} s2 a1" by (rule ninv_frame [OF l(2)]) (simp_all add: s2)
    moreover have "count_ok s2 a1"
      by (rule count_ok_frame [OF assms(2)]) (simp_all add: s2 l(5) live_def)
    ultimately obtain e s' where s': "dispatch s2 = Some (e, s')"
      "nucleus_inv s' (a1\<lparr>a_ready := tl (a_ready a1)\<rparr>)"
      "softBlock_count s' = softBlock_count s2" "pcbs s' = pcbs s2" "semds s' = semds s2"
      "ram s' = ram s2" "states s' = states s2"
      "currProc s' = (case a_ready a1 of [] \<Rightarrow> None | q # _ \<Rightarrow> Some q)"
      using dispatch_inv [of s2 a1] s2(5) by blast
    have "waiting s' (a1\<lparr>a_ready := tl (a_ready a1)\<rparr>) = waiting (?s l d) a1"
      by (rule waiting_frame) (simp_all add: s'(5) s2(2))
    then have "blocked_on k p (pcbs s p) s a s' (a1\<lparr>a_ready := tl (a_ready a1)\<rparr>)"
      using s' l s2 by (simp add: blocked_on_def)
    then show ?thesis using s' by blast
  qed
  then show ?thesis using l(1) by blast
qed

text \<open>The same for the running process of a state, with its PCB saved and \<open>n\<close> as the soft-block count.\<close>

lemma block_current:
  assumes "nucleus_inv s a" "currProc s = Some p"
  shows "\<exists>l d. insertBlocked k p (s\<lparr>pcbs := (pcbs s)(p := saved_pcb pf e s p), softBlock_count := n\<rparr>) =
      Some (False, s\<lparr>softBlock_count := n, links := l, semds := d,
        pcbs := (pcbs s)(p := (saved_pcb pf e s p)\<lparr>p_semAdd := k\<rparr>)\<rparr>) \<and>
    (\<forall>r. \<exists>x s' a'. dispatch (s\<lparr>softBlock_count := n, links := l, semds := d,
          pcbs := (pcbs s)(p := (saved_pcb pf e s p)\<lparr>p_semAdd := k\<rparr>), currProc := None, ram := r\<rparr>) =
        Some (x, s') \<and>
      blocked_on k p (saved_pcb pf e s p) s a s' a' \<and>
      softBlock_count s' = n \<and> ram s' = r \<and> states s' = states s)"
proof -
  let ?s = "s\<lparr>pcbs := (pcbs s)(p := saved_pcb pf e s p), softBlock_count := n\<rparr>"
  have "ninv {p} s a" using nucleus_invD(1) [OF assms(1)] assms(2) by simp
  then have n: "ninv {p} ?s a" by (rule ninv_frame) auto
  have c: "count_ok ?s a" using nucleus_invD(2) [OF assms(1)] by (simp add: count_ok_def)
  have w: "waiting ?s a = waiting s a" by (rule waiting_frame) simp_all
  obtain l d where l: "insertBlocked k p ?s = Some (False, ?s\<lparr>links := l, semds := d,
      pcbs := (pcbs ?s)(p := (pcbs ?s p)\<lparr>p_semAdd := k\<rparr>)\<rparr>)"
    "\<And>s2. links s2 = l \<Longrightarrow> semds s2 = d \<Longrightarrow> pcbs s2 = (pcbs ?s)(p := (pcbs ?s p)\<lparr>p_semAdd := k\<rparr>) \<Longrightarrow>
       processCount s2 = processCount ?s \<Longrightarrow> currProc s2 = None \<Longrightarrow>
       (\<exists>e s' a'. dispatch s2 = Some (e, s') \<and> blocked_on k p (pcbs ?s p) ?s a s' a' \<and>
          softBlock_count s' = softBlock_count s2 \<and> ram s' = ram s2 \<and> states s' = states s2)"
    using block_and_dispatch [OF n c, of k] by blast
  let ?s2 = "\<lambda>r. s\<lparr>softBlock_count := n, links := l, semds := d,
    pcbs := (pcbs s)(p := (saved_pcb pf e s p)\<lparr>p_semAdd := k\<rparr>), currProc := None, ram := r\<rparr>"
  have "\<exists>x s' a'. dispatch (?s2 r) = Some (x, s') \<and> blocked_on k p (saved_pcb pf e s p) s a s' a' \<and>
      softBlock_count s' = n \<and> ram s' = r \<and> states s' = states s" for r
    using l(2) [of "?s2 r"] by (simp add: blocked_on_def w)
  then show ?thesis using l(1) by (intro exI [of _ l] exI [of _ d]) simp
qed

lemma nsys3_blocks:
  assumes "nucleus_inv s a" "currProc s = Some p" "\<not> 0 < sint (ram s k)"
  shows "\<exists>e s' a'. nsys3 pf k excState s = Some (e, s') \<and>
    blocked_on k p (saved_pcb pf excState s p) s a s' a' \<and>
    softBlock_count s' = softBlock_count s \<and> ram s' = ram s \<and> states s' = states s"
proof -
  let ?b = "(saved_pcb pf excState s p)\<lparr>p_semAdd := k\<rparr>"
  obtain l d where l: "insertBlocked k p (s\<lparr>pcbs := (pcbs s)(p := saved_pcb pf excState s p),
        softBlock_count := softBlock_count s\<rparr>) =
      Some (False, s\<lparr>softBlock_count := softBlock_count s, links := l, semds := d,
        pcbs := (pcbs s)(p := ?b)\<rparr>)"
    "\<exists>x s' a'. dispatch (s\<lparr>softBlock_count := softBlock_count s, links := l, semds := d,
          pcbs := (pcbs s)(p := ?b), currProc := None, ram := ram s\<rparr>) = Some (x, s') \<and>
      blocked_on k p (saved_pcb pf excState s p) s a s' a' \<and>
      softBlock_count s' = softBlock_count s \<and> ram s' = ram s \<and> states s' = states s"
    using block_current [OF assms(1,2)] by blast
  then show ?thesis
    using assms(3) by (simp add: nsys3_def save_current_eq [OF assms(2)])
qed

lemma nsys7_blocks:
  assumes "nucleus_inv s a" "currProc s = Some p"
  shows "\<exists>e s' a'. nsys7 pf excState s = Some (e, s') \<and>
    blocked_on (device_semaphore pf (of_nat NSUPPSEM)) p (saved_pcb pf excState s p) s a s' a' \<and>
    softBlock_count s' = softBlock_count s + 1 \<and> ram s' = ram s \<and> states s' = states s"
proof -
  let ?k = "device_semaphore pf (of_nat NSUPPSEM)"
  let ?b = "(saved_pcb pf excState s p)\<lparr>p_semAdd := ?k\<rparr>"
  obtain l d where l: "insertBlocked ?k p (s\<lparr>pcbs := (pcbs s)(p := saved_pcb pf excState s p),
        softBlock_count := softBlock_count s + 1\<rparr>) =
      Some (False, s\<lparr>softBlock_count := softBlock_count s + 1, links := l, semds := d,
        pcbs := (pcbs s)(p := ?b)\<rparr>)"
    "\<exists>x s' a'. dispatch (s\<lparr>softBlock_count := softBlock_count s + 1, links := l, semds := d,
          pcbs := (pcbs s)(p := ?b), currProc := None, ram := ram s\<rparr>) = Some (x, s') \<and>
      blocked_on ?k p (saved_pcb pf excState s p) s a s' a' \<and>
      softBlock_count s' = softBlock_count s + 1 \<and> ram s' = ram s \<and> states s' = states s"
    using block_current [OF assms] by blast
  then show ?thesis
    by (simp add: nsys7_def save_current_eq [OF assms(2)] Let_def)
qed

lemma nsys5_blocks:
  assumes "nucleus_inv s a" "currProc s = Some p" "device_sem_at pf (nsys5_index pf a1) = Some k"
  shows "\<exists>e s' a'. nsys5 pf a1 a2 excState s = Some (e, s') \<and>
    blocked_on k p (saved_pcb pf excState s p) s a s' a' \<and>
    softBlock_count s' = softBlock_count s + 1 \<and> ram s' = (ram s)(a1 := a2) \<and> states s' = states s"
proof -
  let ?b = "(saved_pcb pf excState s p)\<lparr>p_semAdd := k\<rparr>"
  obtain l d where l: "insertBlocked k p (s\<lparr>pcbs := (pcbs s)(p := saved_pcb pf excState s p),
        softBlock_count := softBlock_count s + 1\<rparr>) =
      Some (False, s\<lparr>softBlock_count := softBlock_count s + 1, links := l, semds := d,
        pcbs := (pcbs s)(p := ?b)\<rparr>)"
    "\<exists>x s' a'. dispatch (s\<lparr>softBlock_count := softBlock_count s + 1, links := l, semds := d,
          pcbs := (pcbs s)(p := ?b), currProc := None, ram := (ram s)(a1 := a2)\<rparr>) = Some (x, s') \<and>
      blocked_on k p (saved_pcb pf excState s p) s a s' a' \<and>
      softBlock_count s' = softBlock_count s + 1 \<and> ram s' = (ram s)(a1 := a2) \<and> states s' = states s"
    using block_current [OF assms(1,2)] by blast
  then show ?thesis
    by (simp add: nsys5_def assms(3) save_current_eq [OF assms(2)] write_word_def)
qed


section \<open>Creating a process\<close>

lemma nsys1_full:
  "kwf s a \<Longrightarrow> a_free a = [] \<Longrightarrow> nsys1 pf a1 a2 a3 s = Some (NOPROC, s)"
  by (simp add: nsys1_def allocPcb_Nil)

text \<open>The PCB of a new process, and the abstract state with it as a child of \<open>q\<close>.\<close>

definition new_pcb :: "platform \<Rightarrow> kernel \<Rightarrow> u32 \<Rightarrow> u32 \<Rightarrow> u32 \<Rightarrow> nat \<Rightarrow> nat \<Rightarrow> pcb_t" where
  "new_pcb pf s a1 a2 a3 q p = (fresh_pcb pf (next_pid s) (pcbs s p))
     \<lparr>p_parent := Some q, p_prio := a2, p_supportStruct := a3,
      p_s := copyState pf (zero_state pf (p_s (pcbs s p))) (states s a1)\<rparr>"

definition created :: "kernel \<Rightarrow> nat \<Rightarrow> nat \<Rightarrow> phase1 \<Rightarrow> phase1" where
  "created s' q p a = a\<lparr>a_free := tl (a_free a),
     a_child := (a_child a)(p := [], q := p # a_child a q),
     a_ready := prio_insert (prio s') p (a_ready a)\<rparr>"

lemma live_alloc:
  assumes "kwf s a" "a_free a = p # f"
  shows "live (a\<lparr>a_free := f\<rparr>) = insert p (live a)" and "p \<notin> live a"
  using wfD(1) [OF assms(1)] wf_distinct(1) [OF assms(1)] assms(2)
  by (auto simp: live_def wf_pcbs_def)

lemma ninv_alloc:
  assumes "ninv D s a" "a_free a = p # f"
    and "kwf s' (a\<lparr>a_free := f, a_child := c\<rparr>)" "\<And>q. q \<noteq> p \<Longrightarrow> prio s' q = prio s q"
  shows "ninv (insert p D) s' (a\<lparr>a_free := f, a_child := c\<rparr>)"
proof -
  note W = ninvD(1) [OF assms(1)]
  note L = live_alloc [OF W assms(2)]
  have live: "live (a\<lparr>a_free := f, a_child := c\<rparr>) = insert p (live a)" using L(1) by (simp add: live_def)
  have p: "p \<notin> set (a_ready a)" "p \<notin> blocked a"
    using L(2) wfD(1) [OF W] by (auto simp: wf_pcbs_def)
  have "prio_sorted (prio s') (a_ready a)"
    using ninvD(4) [OF assms(1)] assms(4) p(1) prio_sorted_cong [of "a_ready a" "prio s'" "prio s"] by metis
  then show ?thesis
    using assms(3) p ninvD(2,3) [OF assms(1)] unfolding ninv_def live detached_def by auto
qed

lemma count_alloc:
  assumes "kwf s a" "count_ok s a" "a_free a = p # f"
    and "live a' = live (a\<lparr>a_free := f\<rparr>)" "processCount s' = processCount s + 1"
  shows "count_ok s' a'"
  using live_alloc [OF assms(1,3)] assms(2,4,5) by (simp add: count_ok_def add.commute)

text \<open>CreateProcess from the results of its three list operations.\<close>

lemma nsys1_steps:
  fixes pf :: platform and s :: kernel and q p :: nat and l1 l2 l3 a1 a2 a3
  defines "b \<equiv> (fresh_pcb pf (next_pid s) (pcbs s p))\<lparr>p_prio := a2, p_supportStruct := a3,
      p_s := copyState pf (zero_state pf (p_s (pcbs s p))) (states s a1)\<rparr>"
    and "t \<equiv> \<lambda>l b. s\<lparr>links := l, pcbs := (pcbs s)(p := b), next_pid := next_pid s + 1\<rparr>"
  assumes "allocPcb pf s = Some (Some p, t l1 (fresh_pcb pf (next_pid s) (pcbs s p)))"
    and "insertProcQ ReadyQueue p (t l1 b) = Some (t l2 b)" "currProc s = Some q"
    and "insertChild (Some q) (Some p) (t l2 b) = t l3 (b\<lparr>p_parent := Some q\<rparr>)"
  shows "nsys1 pf a1 a2 a3 s = Some (next_pid s, t l3 (b\<lparr>p_parent := Some q\<rparr>)\<lparr>processCount := processCount s + 1\<rparr>)"
proof -
  let ?f = "t l1 (fresh_pcb pf (next_pid s) (pcbs s p))"
  have B: "upd_pcb p (\<lambda>b. b\<lparr>p_supportStruct := a3\<rparr>) (upd_pcb p (\<lambda>b. b\<lparr>p_prio := a2\<rparr>)
      (upd_pcb p (\<lambda>b. b\<lparr>p_s := copyState pf (p_s b) (states ?f a1)\<rparr>) ?f)) = t l1 b"
    by (simp add: b_def t_def upd_pcb_def fresh_pcb_def)
  have "currProc (t l2 b) = Some q" using assms(5) by (simp add: t_def)
  then show ?thesis
    unfolding nsys1_def assms(3) Let_def bind.bind_lunit prod.case option.case B assms(4)
    using assms(6) by (simp add: b_def t_def upd_pcb_def fresh_pcb_def)
qed

lemma nsys1_creates:
  assumes "nucleus_inv s a" "currProc s = Some q" "a_free a = p # f"
  shows "\<exists>l. let s' = s\<lparr>links := l, pcbs := (pcbs s)(p := new_pcb pf s a1 a2 a3 q p),
      next_pid := next_pid s + 1, processCount := processCount s + 1\<rparr> in
    nsys1 pf a1 a2 a3 s = Some (next_pid s, s') \<and> nucleus_inv s' (created s' q p a)"
proof -
  note N = nucleus_invD [OF assms(1)]
  let ?b = "(fresh_pcb pf (next_pid s) (pcbs s p))\<lparr>p_prio := a2, p_supportStruct := a3,
      p_s := copyState pf (zero_state pf (p_s (pcbs s p))) (states s a1)\<rparr>"
  let ?s = "\<lambda>l b. s\<lparr>links := l, pcbs := (pcbs s)(p := b), next_pid := next_pid s + 1\<rparr>"
  let ?a = "a\<lparr>a_free := f, a_child := (a_child a)(p := [])\<rparr>"
  obtain l1 where l1: "allocPcb pf s = Some (Some p, ?s l1 (fresh_pcb pf (next_pid s) (pcbs s p)))"
    "kwf (?s l1 (fresh_pcb pf (next_pid s) (pcbs s p))) ?a"
    using allocPcb_Cons [OF N(3) assms(3)] by blast
  have q: "q \<in> live a" "q \<noteq> p" "detached a q"
    using ninvD(2) [OF N(1), of q] assms(2) live_alloc(2) [OF N(3) assms(3)] by (auto simp: detached_def)
  have "kwf (?s l1 ?b) ?a \<longleftrightarrow> kwf (?s l1 (fresh_pcb pf (next_pid s) (pcbs s p))) ?a"
    by (rule wf_cong) (simp_all add: fresh_pcb_def)
  with l1(2) have "ninv {p, q} (?s l1 ?b) ?a"
    using ninv_alloc [OF N(1) assms(3), of "?s l1 ?b"] assms(2) by simp
  moreover have "{p, q} - {p} = {q}" "(?s l1 ?b)\<lparr>links := l\<rparr> = ?s l ?b" "a_ready ?a = a_ready a" for l
    using q(2) by auto
  ultimately obtain l2 where l2: "insertProcQ ReadyQueue p (?s l1 ?b) = Some (?s l2 ?b)"
    "ninv {q} (?s l2 ?b) (?a\<lparr>a_ready := prio_insert (prio (?s l1 ?b)) p (a_ready a)\<rparr>)"
    using ready_insert [of "{p, q}" "?s l1 ?b" ?a p] by (metis insertI1)
  let ?a2 = "?a\<lparr>a_ready := prio_insert (prio (?s l1 ?b)) p (a_ready a)\<rparr>"
  let ?c = "?b\<lparr>p_parent := Some q\<rparr>"
  have live: "live ?a2 = insert p (live a)" using live_alloc(1) [OF N(3) assms(3)] by (simp add: live_def)
  have "parent (?s l2 ?b) p = None" "a_child ?a2 p = []" "q \<in> live ?a2" "p \<in> live ?a2"
    using q(1) live by (simp_all add: fresh_pcb_def)
  moreover have "(?s l2 ?b)\<lparr>links := l, pcbs := (pcbs (?s l2 ?b))(p := (pcbs (?s l2 ?b) p)\<lparr>p_parent := Some q\<rparr>)\<rparr> =
      ?s l ?c" for l by simp
  ultimately obtain l3 where l3: "insertChild (Some q) (Some p) (?s l2 ?b) = ?s l3 ?c"
    "kwf (?s l3 ?c) (?a2\<lparr>a_child := (a_child ?a2)(q := p # a_child ?a2 q)\<rparr>)"
    using insertChild_eq [OF ninvD(1) [OF l2(2)], of q p] q(2) by metis
  have c: "?c = new_pcb pf s a1 a2 a3 q p" by (simp add: new_pcb_def)
  have nsys1: "nsys1 pf a1 a2 a3 s = Some (next_pid s, ?s l3 ?c\<lparr>processCount := processCount s + 1\<rparr>)"
    by (rule nsys1_steps [OF l1(1) l2(1) assms(2) l3(1)])
  have a3: "?a2\<lparr>a_child := (a_child ?a2)(q := p # a_child ?a2 q)\<rparr> =
      created (?s l3 ?c\<lparr>processCount := processCount s + 1\<rparr>) q p a"
  proof -
    have "prio_insert (prio (?s l1 ?b)) p (a_ready a) = prio_insert (prio (?s l3 ?c)) p (a_ready a)"
      by (rule prio_insert_cong) simp
    then show ?thesis using q(2) assms(3) by (simp add: created_def fun_upd_twist)
  qed
  have "ninv {q} (?s l3 ?c) (?a2\<lparr>a_child := (a_child ?a2)(q := p # a_child ?a2 q)\<rparr>)"
    using l3(2) l2(2) prio_sorted_cong [of "a_ready ?a2" "prio (?s l3 ?c)" "prio (?s l2 ?b)"]
    unfolding ninv_def detached_def by simp
  then have "ninv {q} (?s l3 ?c\<lparr>processCount := processCount s + 1\<rparr>)
      (created (?s l3 ?c\<lparr>processCount := processCount s + 1\<rparr>) q p a)"
    unfolding a3 by (rule ninv_frame) simp_all
  moreover have "count_ok (?s l3 ?c\<lparr>processCount := processCount s + 1\<rparr>)
      (created (?s l3 ?c\<lparr>processCount := processCount s + 1\<rparr>) q p a)"
    by (rule count_alloc [OF N(3,2) assms(3)]) (simp_all add: live_def created_def assms(3))
  ultimately show ?thesis
    using nsys1 assms(2) unfolding c by (intro exI [of _ l3]) (simp add: nucleus_inv_def)
qed


section \<open>Waking a process\<close>

text \<open>
  What waking the first process \<open>p\<close> of the semaphore \<open>k\<close> does to the queues.
\<close>

definition woken :: "u32 \<Rightarrow> nat \<Rightarrow> kernel \<Rightarrow> phase1 \<Rightarrow> kernel \<Rightarrow> phase1 \<Rightarrow> bool" where
  "woken k p s a s' a' \<longleftrightarrow>
    waiting s' a' = (waiting s a)(k := tl (waiting s a k)) \<and>
    a_ready a' = prio_insert (prio s) p (a_ready a) \<and> blocked a' = blocked a - {p} \<and>
    a_free a' = a_free a \<and> a_child a' = a_child a"

text \<open>Every path that wakes: between the two calls the PCB may get a new processor state.\<close>

lemma wake_first:
  assumes "ninv D s a" "waiting s a k = p # q"
    and "p_parent b = parent s p" "p_semAdd b = semAdd s p" "p_prio b = prio s p"
  shows "\<exists>l d l' a'. removeBlocked k s = Some (Some p, s\<lparr>links := l, semds := d\<rparr>) \<and>
    insertProcQ ReadyQueue p (s\<lparr>links := l, semds := d, pcbs := (pcbs s)(p := b)\<rparr>) =
      Some (s\<lparr>links := l', semds := d, pcbs := (pcbs s)(p := b)\<rparr>) \<and>
    ninv D (s\<lparr>links := l', semds := d, pcbs := (pcbs s)(p := b)\<rparr>) a' \<and>
    woken k p s a (s\<lparr>links := l', semds := d, pcbs := (pcbs s)(p := b)\<rparr>) a'"
proof -
  let ?s = "\<lambda>l d. s\<lparr>links := l, semds := d, pcbs := (pcbs s)(p := b)\<rparr>"
  obtain l d a1 where l: "removeBlocked k s = Some (Some p, s\<lparr>links := l, semds := d\<rparr>)"
    "ninv (insert p D) (s\<lparr>links := l, semds := d\<rparr>) a1"
    "waiting (s\<lparr>links := l, semds := d\<rparr>) a1 = (waiting s a)(k := q)"
    "blocked a1 = blocked a - {p}"
    "a_free a1 = a_free a" "a_ready a1 = a_ready a" "a_child a1 = a_child a"
    using block_take [OF assms(1,2)] by blast
  have "p \<in> blocked a" using waiting_iff [OF ninvD(1) [OF assms(1)], of p k] assms(2) by simp
  then have D: "insert p D - {p} = D" using ninvD(2) [OF assms(1), of p] by (auto simp: detached_def)
  have n: "ninv (insert p D) (?s l d) a1" by (rule ninv_frame [OF l(2)]) (simp_all add: assms(3-5))
  have "prio (?s l d) = prio s" by (rule ext) (simp add: assms(5))
  moreover have "(?s l d)\<lparr>links := l'\<rparr> = ?s l' d" for l' by simp
  ultimately obtain l' where l': "insertProcQ ReadyQueue p (?s l d) = Some (?s l' d)"
    "ninv D (?s l' d) (a1\<lparr>a_ready := prio_insert (prio s) p (a_ready a1)\<rparr>)"
    using ready_insert [OF n insertI1] unfolding D by metis
  have "waiting (?s l' d) (a1\<lparr>a_ready := prio_insert (prio s) p (a_ready a1)\<rparr>) =
      waiting (s\<lparr>links := l, semds := d\<rparr>) a1" by (rule waiting_frame) simp_all
  then have "woken k p s a (?s l' d) (a1\<lparr>a_ready := prio_insert (prio s) p (a_ready a1)\<rparr>)"
    using l assms(2) by (simp add: woken_def)
  then show ?thesis using l(1) l' by blast
qed

lemma woken_live: "woken k p s a s' a' \<Longrightarrow> live a' = live a"
  by (simp add: woken_def live_def)

lemma nsys3_takes:
  assumes "0 < sint (ram s k)"
  shows "nsys3 pf k excState s = Some (LDST (states s excState), s\<lparr>ram := (ram s)(k := ram s k - 1)\<rparr>)"
  using assms by (simp add: nsys3_def write_word_def Let_def)

lemma nsys4_wakes:
  assumes "nucleus_inv s a" "waiting s a k = p # q"
  shows "\<exists>l d a'. nsys4 k s = Some (s\<lparr>links := l, semds := d\<rparr>) \<and>
    nucleus_inv (s\<lparr>links := l, semds := d\<rparr>) a' \<and> woken k p s a (s\<lparr>links := l, semds := d\<rparr>) a'"
proof -
  note N = nucleus_invD [OF assms(1)]
  have idem: "(pcbs s)(p := pcbs s p) = pcbs s" by simp
  have S: "s\<lparr>links := l, semds := d, pcbs := pcbs s\<rparr> = s\<lparr>links := l, semds := d\<rparr>" for l d by simp
  obtain l d l' a' where l: "removeBlocked k s = Some (Some p, s\<lparr>links := l, semds := d\<rparr>)"
    "insertProcQ ReadyQueue p (s\<lparr>links := l, semds := d\<rparr>) = Some (s\<lparr>links := l', semds := d\<rparr>)"
    "ninv (set_option (currProc s)) (s\<lparr>links := l', semds := d\<rparr>) a'"
    "woken k p s a (s\<lparr>links := l', semds := d\<rparr>) a'"
    using wake_first [OF N(1) assms(2) refl refl refl] unfolding idem S by blast
  have "count_ok (s\<lparr>links := l', semds := d\<rparr>) a'"
    by (rule count_ok_frame [OF N(2)]) (simp_all add: woken_live [OF l(4)])
  then have "nucleus_inv (s\<lparr>links := l', semds := d\<rparr>) a'" using l(3) by (simp add: nucleus_inv_def)
  then show ?thesis
    using l by (intro exI [of _ l'] exI [of _ d] exI [of _ a']) (simp add: nsys4_def)
qed

lemma nsys4_increments:
  assumes "kwf s a" "waiting s a k = []"
  shows "nsys4 k s = Some (s\<lparr>ram := (ram s)(k := ram s k + 1)\<rparr>)"
  by (simp add: nsys4_def removeBlocked_Nil [OF assms] write_word_def)

section \<open>Giving up the processor\<close>

text \<open>
  Putting the running process back into the ready queue and dispatching: pltInterruptHandler
  and itInterruptHandler. \<open>b\<close> is its PCB with the saved state.
\<close>

lemma requeue_dispatch:
  assumes "ninv {p} s a" "count_ok s a"
  shows "\<exists>l e s'. insertProcQ ReadyQueue p s = Some (s\<lparr>links := l\<rparr>) \<and>
    dispatch (s\<lparr>links := l\<rparr>) = Some (e, s') \<and>
    nucleus_inv s' (a\<lparr>a_ready := tl (prio_insert (prio s) p (a_ready a))\<rparr>) \<and>
    currProc s' = Some (hd (prio_insert (prio s) p (a_ready a))) \<and>
    e = LDST (p_s (pcbs s (hd (prio_insert (prio s) p (a_ready a))))) \<and>
    pcbs s' = pcbs s \<and> semds s' = semds s \<and> softBlock_count s' = softBlock_count s \<and>
    ram s' = ram s \<and> states s' = states s"
proof -
  let ?q = "prio_insert (prio s) p (a_ready a)"
  obtain l where l: "insertProcQ ReadyQueue p s = Some (s\<lparr>links := l\<rparr>)"
    "ninv {} (s\<lparr>links := l\<rparr>) (a\<lparr>a_ready := ?q\<rparr>)"
    using ready_insert [OF assms(1)] by auto
  obtain r rs where q: "?q = r # rs" by (metis length_prio_insert length_Suc_conv)
  then have "a_ready (a\<lparr>a_ready := ?q\<rparr>) = r # rs" by simp
  from dispatch_ready [OF l(2) this] obtain l2 where
    l2: "dispatch (s\<lparr>links := l\<rparr>) = Some (LDST (p_s (pcbs s r)), s\<lparr>links := l2, currProc := Some r,
      cpu_timer := TIMESLICE * ram s TIMESCALEADDR, tod_start := tod s\<rparr>)"
    "ninv {r} (s\<lparr>links := l2, currProc := Some r,
      cpu_timer := TIMESLICE * ram s TIMESCALEADDR, tod_start := tod s\<rparr>) (a\<lparr>a_ready := rs\<rparr>)"
    by auto
  then show ?thesis
    using l(1) q assms(2) by (intro exI [of _ l]) (simp add: nucleus_inv_def count_ok_def)
qed

lemma pltInterruptHandler_requeues:
  assumes "nucleus_inv s a" "currProc s = Some p"
  shows "\<exists>s'. pltInterruptHandler pf s =
      Some (LDST (p_s (pcbs s' (hd (prio_insert (prio s) p (a_ready a))))), s') \<and>
    nucleus_inv s' (a\<lparr>a_ready := tl (prio_insert (prio s) p (a_ready a))\<rparr>) \<and>
    currProc s' = Some (hd (prio_insert (prio s) p (a_ready a))) \<and>
    pcbs s' = (pcbs s)(p := saved_pcb pf (getCurrExceptionState pf) s p) \<and>
    semds s' = semds s \<and> softBlock_count s' = softBlock_count s \<and> ram s' = ram s \<and> states s' = states s"
proof -
  note N = nucleus_invD [OF assms(1)]
  let ?s = "s\<lparr>cpu_timer := TIMESLICE * ram s TIMESCALEADDR,
    pcbs := (pcbs s)(p := saved_pcb pf (getCurrExceptionState pf) s p)\<rparr>"
  have n: "ninv {p} ?s a" by (rule ninv_frame [of _ s]) (use N(1) assms(2) in auto)
  have c: "count_ok ?s a" using N(2) by (simp add: count_ok_def)
  have pr: "prio ?s = prio s" by auto
  have "(pcbs s p)\<lparr>p_time := p_time (pcbs s p) + (tod s - tod_start s),
      p_s := copyState pf (p_s (pcbs s p)) (states s (getCurrExceptionState pf))\<rparr> =
    saved_pcb pf (getCurrExceptionState pf) s p" by (simp add: saved_pcb_def)
  then have "pltInterruptHandler pf s = Option.bind (insertProcQ ReadyQueue p ?s) dispatch"
    by (simp add: pltInterruptHandler_def assms(2) upd_pcb_def Let_def)
  then show ?thesis using requeue_dispatch [OF n c] unfolding pr by fastforce
qed


section \<open>The interval timer\<close>

text \<open>
  The loop ends and moves the waiting processes to the ready queue one by one, in the
  order in which they blocked.
\<close>

lemma wakeAll_eq:
  assumes "ninv D s a" "waiting s a k = w"
  shows "\<exists>l d a'. let s' = s\<lparr>links := l, semds := d,
      softBlock_count := softBlock_count s - of_nat (length w)\<rparr> in
    wakeAll k s = Some s' \<and> ninv D s' a' \<and> waiting s' a' = (waiting s a)(k := []) \<and>
    a_ready a' = fold (prio_insert (prio s)) w (a_ready a) \<and> blocked a' = blocked a - set w \<and>
    a_free a' = a_free a \<and> a_child a' = a_child a"
  using assms
proof (induction w arbitrary: s a)
  case Nil
  have "wakeAll k s = Some s"
    by (subst wakeAll.simps) (simp add: removeBlocked_Nil [OF ninvD(1) [OF Nil(1)] Nil(2)])
  then show ?case
    using Nil by (intro exI [of _ "links s"] exI [of _ "semds s"] exI [of _ a]) (simp add: fun_upd_idem)
next
  case (Cons p w)
  have idem: "(pcbs s)(p := pcbs s p) = pcbs s" by simp
  have S: "s\<lparr>links := l, semds := d, pcbs := pcbs s\<rparr> = s\<lparr>links := l, semds := d\<rparr>" for l d by simp
  obtain l1 d1 l2 a1 where r: "removeBlocked k s = Some (Some p, s\<lparr>links := l1, semds := d1\<rparr>)"
    "insertProcQ ReadyQueue p (s\<lparr>links := l1, semds := d1\<rparr>) = Some (s\<lparr>links := l2, semds := d1\<rparr>)"
    "ninv D (s\<lparr>links := l2, semds := d1\<rparr>) a1" "woken k p s a (s\<lparr>links := l2, semds := d1\<rparr>) a1"
    using wake_first [OF Cons.prems refl refl refl] unfolding idem S by blast
  let ?s = "s\<lparr>links := l2, semds := d1, softBlock_count := softBlock_count s - 1\<rparr>"
  have n: "ninv D ?s a1" by (rule ninv_frame [OF r(3)]) simp_all
  have eq: "waiting ?s a1 = waiting (s\<lparr>links := l2, semds := d1\<rparr>) a1" by (rule waiting_frame) simp_all
  then have w: "waiting ?s a1 = (waiting s a)(k := w)" using r(4) Cons.prems(2) by (simp add: woken_def)
  have "wakeAll k s = wakeAll k ?s" by (subst wakeAll.simps) (simp add: r)
  moreover have "?s\<lparr>links := l, semds := d, softBlock_count := softBlock_count ?s - of_nat (length w)\<rparr> =
      s\<lparr>links := l, semds := d, softBlock_count := softBlock_count s - of_nat (length (p # w))\<rparr>" for l d
    by (simp add: algebra_simps)
  moreover have "waiting ?s a1 k = w" using w by simp
  ultimately obtain l d a' where IH: "let s' = s\<lparr>links := l, semds := d,
      softBlock_count := softBlock_count s - of_nat (length (p # w))\<rparr> in
    wakeAll k s = Some s' \<and> ninv D s' a' \<and> waiting s' a' = (waiting ?s a1)(k := []) \<and>
    a_ready a' = fold (prio_insert (prio ?s)) w (a_ready a1) \<and> blocked a' = blocked a1 - set w \<and>
    a_free a' = a_free a1 \<and> a_child a' = a_child a1"
    using Cons.IH [OF n] by metis
  have "(waiting ?s a1)(k := []) = (waiting s a)(k := [])" using w by simp
  moreover have "fold (prio_insert (prio ?s)) w (a_ready a1) = fold (prio_insert (prio s)) (p # w) (a_ready a)"
    "blocked a1 - set w = blocked a - set (p # w)" "a_free a1 = a_free a" "a_child a1 = a_child a"
    using r(4) by (auto simp: woken_def)
  ultimately show ?case using IH by metis
qed

lemma itInterruptHandler_wakes:
  assumes "nucleus_inv s a" "k = device_semaphore pf (of_nat NSUPPSEM)" "w = waiting s a k"
    and "b = (case currProc s of None \<Rightarrow> pcbs s | Some p \<Rightarrow> (pcbs s)(p := (pcbs s p)
      \<lparr>p_s := copyState pf (p_s (pcbs s p)) (states s (getCurrExceptionState pf))\<rparr>))"
    and "q = (case currProc s of None \<Rightarrow> fold (prio_insert (prio s)) w (a_ready a)
      | Some p \<Rightarrow> prio_insert (prio s) p (fold (prio_insert (prio s)) w (a_ready a)))"
  shows "\<exists>e s' a'. itInterruptHandler pf s = Some (e, s') \<and> nucleus_inv s' a' \<and>
    waiting s' a' = (waiting s a)(k := []) \<and> blocked a' = blocked a - set w \<and>
    a_ready a' = tl q \<and> currProc s' = (case q of [] \<Rightarrow> None | p # _ \<Rightarrow> Some p) \<and>
    pcbs s' = b \<and> ram s' = (ram s)(k := 0) \<and>
    softBlock_count s' = softBlock_count s - of_nat (length w) \<and>
    a_free a' = a_free a \<and> a_child a' = a_child a \<and> states s' = states s"
proof -
  note N = nucleus_invD [OF assms(1)]
  let ?t = "s\<lparr>itimer := PSECOND\<rparr>"
  let ?f = "fold (prio_insert (prio s)) w (a_ready a)"
  have n: "ninv (set_option (currProc s)) ?t a" by (rule ninv_frame [OF N(1)]) simp_all
  have w: "waiting ?t a = waiting s a" by (rule waiting_frame) simp_all
  then have "waiting ?t a k = w" using assms(3) by simp
  from wakeAll_eq [OF n this] obtain l d a1 where l: "wakeAll k ?t = Some (?t\<lparr>links := l, semds := d,
      softBlock_count := softBlock_count s - of_nat (length w)\<rparr>)"
    "ninv (set_option (currProc s)) (?t\<lparr>links := l, semds := d,
      softBlock_count := softBlock_count s - of_nat (length w)\<rparr>) a1"
    "waiting (?t\<lparr>links := l, semds := d,
      softBlock_count := softBlock_count s - of_nat (length w)\<rparr>) a1 = (waiting s a)(k := [])"
    "a_ready a1 = ?f" "blocked a1 = blocked a - set w" "a_free a1 = a_free a" "a_child a1 = a_child a"
    unfolding w by (auto simp: Let_def)
  let ?s = "?t\<lparr>links := l, semds := d, softBlock_count := softBlock_count s - of_nat (length w),
    ram := (ram s)(k := 0), pcbs := b\<rparr>"
  have n2: "ninv (set_option (currProc s)) ?s a1"
    by (rule ninv_frame [OF l(2)]) (simp_all add: assms(4) split: option.splits)
  have c2: "count_ok ?s a1" by (rule count_ok_frame [OF N(2)]) (simp_all add: l(6) live_def)
  have w2: "waiting s' (a1\<lparr>a_ready := x\<rparr>) = (waiting s a)(k := [])" if "semds s' = d" for s' x
    using l(3) waiting_frame [of s' "?t\<lparr>links := l, semds := d,
      softBlock_count := softBlock_count s - of_nat (length w)\<rparr>" "a1\<lparr>a_ready := x\<rparr>" a1] that by simp
  show ?thesis
  proof (cases "currProc s")
    case None
    have "itInterruptHandler pf s = dispatch ?s"
      using l(1) None assms(2,4) by (simp add: itInterruptHandler_def write_word_def Let_def)
    moreover obtain e s' where "dispatch ?s = Some (e, s')" "nucleus_inv s' (a1\<lparr>a_ready := tl (a_ready a1)\<rparr>)"
      "softBlock_count s' = softBlock_count ?s" "pcbs s' = pcbs ?s" "semds s' = semds ?s"
      "ram s' = ram ?s" "states s' = states ?s"
      "currProc s' = (case a_ready a1 of [] \<Rightarrow> None | p # _ \<Rightarrow> Some p)"
      using dispatch_inv [of ?s a1] n2 c2 None by auto
    ultimately show ?thesis
      using w2 [of s'] l(4-7) None assms(5)
      by (intro exI [of _ e] exI [of _ s'] exI [of _ "a1\<lparr>a_ready := tl (a_ready a1)\<rparr>"]) simp
  next
    case (Some p)
    have n3: "ninv {p} ?s a1" using n2 Some by simp
    have pr: "prio ?s = prio s" using Some assms(4) by auto
    have q: "q = prio_insert (prio s) p (a_ready a1)" using assms(5) Some l(4) by simp
    then have "q \<noteq> []" by (metis length_prio_insert list.size(3) nat.distinct(1))
    have "itInterruptHandler pf s = Option.bind (insertProcQ ReadyQueue p ?s) dispatch"
      using l(1) Some assms(2,4) by (simp add: itInterruptHandler_def write_word_def upd_pcb_def Let_def)
    moreover obtain e s' l2 where "insertProcQ ReadyQueue p ?s = Some (?s\<lparr>links := l2\<rparr>)"
      "dispatch (?s\<lparr>links := l2\<rparr>) = Some (e, s')" "nucleus_inv s' (a1\<lparr>a_ready := tl q\<rparr>)"
      "currProc s' = Some (hd q)" "pcbs s' = pcbs ?s" "semds s' = semds ?s"
      "softBlock_count s' = softBlock_count ?s" "ram s' = ram ?s" "states s' = states ?s"
      using requeue_dispatch [OF n3 c2] unfolding pr q by blast
    ultimately show ?thesis
      using w2 [of s'] l(5-7) \<open>q \<noteq> []\<close>
      by (intro exI [of _ e] exI [of _ s'] exI [of _ "a1\<lparr>a_ready := tl q\<rparr>"]) (simp split: list.split)
  qed
qed


section \<open>Yielding\<close>

lemma ready_push:
  assumes "kwf s a" "detached a h"
  shows "kwf (upd_links (list_add (P_list h) ReadyQueue) s) (a\<lparr>a_ready := h # a_ready a\<rparr>)"
proof -
  have "rings (list_add (P_list h) ReadyQueue (links s))
      ((lists_of a)(ReadyQueue \<mapsto> P_list h # map P_list (a_ready a)))"
    by (rule rings_list_add [OF wf_rings [OF assms(1)]])
      (use detached_not_node [OF assms(2)] in simp_all)
  moreover have "wf_pcbs (a\<lparr>a_ready := h # a_ready a\<rparr>)"
    using wfD(1) [OF assms(1)] assms(2) by (auto simp: wf_pcbs_def detached_def)
  ultimately show ?thesis
    using wfD [OF assms(1)] by (simp add: kwf_def lists_of_ready upd_links_def)
qed

lemma ninv_relink:
  "ninv D s a \<Longrightarrow> kwf s' a \<Longrightarrow> (\<And>p. prio s' p = prio s p) \<Longrightarrow> ninv D s' a"
  unfolding ninv_def by (simp cong: prio_sorted_cong)

lemma nsys10_alone:
  assumes "nucleus_inv s a" "currProc s = Some p" "a_ready a = []"
  shows "\<exists>s'. nsys10 pf excState s = Some (LDST (p_s (saved_pcb pf excState s p)), s') \<and>
    nucleus_inv s' a \<and> currProc s' = Some p \<and>
    pcbs s' = (pcbs s)(p := saved_pcb pf excState s p) \<and> semds s' = semds s \<and>
    softBlock_count s' = softBlock_count s \<and> ram s' = ram s \<and> states s' = states s"
proof -
  note N = nucleus_invD [OF assms(1)]
  let ?s = "s\<lparr>pcbs := (pcbs s)(p := saved_pcb pf excState s p)\<rparr>"
  have n: "ninv {p} ?s a" using ninv_save [OF N(1)] assms(2) by simp
  have "prio_insert (prio ?s) p (a_ready a) = [p]" using assms(3) by simp
  with ready_insert [OF n] obtain l where l: "insertProcQ ReadyQueue p ?s = Some (?s\<lparr>links := l\<rparr>)"
    "ninv {} (?s\<lparr>links := l\<rparr>) (a\<lparr>a_ready := [p]\<rparr>)" by auto
  have n2: "ninv {} (?s\<lparr>links := l, currProc := None\<rparr>) (a\<lparr>a_ready := [p]\<rparr>)"
    by (rule ninv_frame [OF l(2)]) simp_all
  have "a_ready (a\<lparr>a_ready := [p]\<rparr>) = [p]" by simp
  from dispatch_ready [OF n2 this] obtain l2 where
    l2: "dispatch (?s\<lparr>links := l, currProc := None\<rparr>) = Some (LDST (p_s (saved_pcb pf excState s p)),
      ?s\<lparr>links := l2, currProc := Some p, cpu_timer := TIMESLICE * ram s TIMESCALEADDR, tod_start := tod s\<rparr>)"
    "ninv {p} (?s\<lparr>links := l2, currProc := Some p, cpu_timer := TIMESLICE * ram s TIMESCALEADDR,
      tod_start := tod s\<rparr>) (a\<lparr>a_ready := []\<rparr>)"
    by auto
  have eq: "a\<lparr>a_ready := []\<rparr> = a" using assms(3) by (cases a) simp
  have "nsys10 pf excState s = dispatch (?s\<lparr>links := l, currProc := None\<rparr>)"
    using l(1) by (simp add: nsys10_def save_current_eq [OF assms(2)]
        removeProcQ_ready_empty [OF ninvD(1) [OF n] assms(3)])
  then show ?thesis
    using l2 N(2) unfolding eq by (simp add: nucleus_inv_def count_ok_def)
qed

lemma nsys10_yields:
  assumes "nucleus_inv s a" "currProc s = Some p" "a_ready a = h # q"
  shows "\<exists>s'. nsys10 pf excState s = Some (LDST (p_s (pcbs s h)), s') \<and>
    nucleus_inv s' (a\<lparr>a_ready := prio_insert (prio s) p q\<rparr>) \<and> currProc s' = Some h \<and>
    pcbs s' = (pcbs s)(p := saved_pcb pf excState s p) \<and> semds s' = semds s \<and>
    softBlock_count s' = softBlock_count s \<and> ram s' = ram s \<and> states s' = states s"
proof -
  note N = nucleus_invD [OF assms(1)]
  let ?s = "\<lambda>l. s\<lparr>pcbs := (pcbs s)(p := saved_pcb pf excState s p), links := l\<rparr>"
  let ?a = "a\<lparr>a_ready := prio_insert (prio s) p q\<rparr>"
  let ?S = "s\<lparr>pcbs := (pcbs s)(p := saved_pcb pf excState s p)\<rparr>"
  have n: "ninv {p} ?S a" using ninv_save [OF N(1)] assms(2) by simp
  have hp: "h \<noteq> p" using ninvD(2) [OF n, of p] assms(3) by (auto simp: detached_def)
  obtain l1 where l1: "removeProcQ ReadyQueue ?S = Some (Some h, ?s l1)"
    "ninv {h, p} (?s l1) (a\<lparr>a_ready := q\<rparr>)"
    using ready_take [OF n assms(3)] by auto
  have "prio (?s l1) = prio s" "{h, p} - {p} = {h}" "(?s l1)\<lparr>links := l\<rparr> = ?s l"
    "a\<lparr>a_ready := q, a_ready := x\<rparr> = a\<lparr>a_ready := x\<rparr>" "a_ready (a\<lparr>a_ready := q\<rparr>) = q" for l x
    using hp by auto
  with ready_insert [OF l1(2), of p] obtain l2 where
    l2: "insertProcQ ReadyQueue p (?s l1) = Some (?s l2)" "ninv {h} (?s l2) ?a"
    by (metis insertI1 insertI2)
  let ?l3 = "list_add (P_list h) ReadyQueue l2"
  have "kwf (upd_links (list_add (P_list h) ReadyQueue) (?s l2)) (?a\<lparr>a_ready := h # a_ready ?a\<rparr>)"
    by (rule ready_push [OF ninvD(1) [OF l2(2)]]) (use ninvD(2) [OF l2(2)] in simp)
  then have k3: "kwf (?s ?l3) (a\<lparr>a_ready := h # prio_insert (prio s) p q\<rparr>)" by (simp add: upd_links_def)
  have "kwf ((?s ?l3)\<lparr>currProc := None\<rparr>) (a\<lparr>a_ready := h # prio_insert (prio s) p q\<rparr>)"
    using k3 by (subst wf_cong [where s = "?s ?l3"]) simp_all
  from dispatch_Cons [OF this, of h "prio_insert (prio s) p q"] obtain l4 where
    l4: "dispatch ((?s ?l3)\<lparr>currProc := None\<rparr>) = Some (LDST (p_s (pcbs s h)),
      (?s l4)\<lparr>currProc := Some h, cpu_timer := TIMESLICE * ram s TIMESCALEADDR, tod_start := tod s\<rparr>)"
    "kwf (?S\<lparr>currProc := None, links := l4\<rparr>) ?a"
    using hp by auto
  have "kwf ((?s l4)\<lparr>currProc := Some h, cpu_timer := TIMESLICE * ram s TIMESCALEADDR, tod_start := tod s\<rparr>) ?a"
    using l4(2) by (subst wf_cong [where s = "?S\<lparr>currProc := None, links := l4\<rparr>"]) simp_all
  then have "ninv {h} ((?s l4)\<lparr>currProc := Some h, cpu_timer := TIMESLICE * ram s TIMESCALEADDR,
      tod_start := tod s\<rparr>) ?a"
    by (rule ninv_relink [OF l2(2)]) simp
  moreover have "nsys10 pf excState s = dispatch ((?s ?l3)\<lparr>currProc := None\<rparr>)"
    using l1(1) l2(1) by (simp add: nsys10_def save_current_eq [OF assms(2)] upd_links_def)
  ultimately show ?thesis
    using l4(1) N(2) by (simp add: nucleus_inv_def count_ok_def)
qed

end
