(* ===== verification/Devices.thy ===== *)
theory Devices
  imports Services
begin

text \<open>
  The device side of the nucleus: the semaphore a DoIO request blocks on is the one the
  interrupt of that device signals, device interrupts wake the first waiting process,
  and the soft-block count is kept by every path that blocks or wakes.
\<close>

section \<open>Semaphore indices\<close>

lemma nsys5_index_command:
  assumes "platform_ok pf" "L \<in> {3, 4, 5, 6, 7}" "N \<in> {0, 1, 2, 3, 4, 5, 6, 7}"
  shows "nsys5_index pf (device_address L N + 4) = uint ((L - 3) * DEVPERINT pf + N)"
proof -
  have p: "DEVPERINT pf = 8" "DEVREGSIZE pf = 16" using assms(1) by (simp_all add: platform_ok_def)
  show ?thesis
    using assms(2,3) unfolding nsys5_index_def device_address_def p Let_def
    by (auto simp: signed_divide_int_def signed_modulo_int_def)
qed

lemma nsys5_index_transm_command:
  assumes "platform_ok pf" "N \<in> {0, 1, 2, 3, 4, 5, 6, 7}"
  shows "nsys5_index pf (device_address 7 N + 12) = uint (4 * DEVPERINT pf + N + DEVPERINT pf)"
proof -
  have p: "DEVPERINT pf = 8" "DEVREGSIZE pf = 16" using assms(1) by (simp_all add: platform_ok_def)
  show ?thesis
    using assms(2) unfolding nsys5_index_def device_address_def p Let_def
    by (auto simp: signed_divide_int_def signed_modulo_int_def)
qed

lemma interrupt_line_range: "interrupt_line c = Some L \<Longrightarrow> L \<in> {3, 4, 5, 6, 7}"
  by (auto simp: interrupt_line_def split: if_splits)

lemma pending_device_range: "pending_device b = Some N \<Longrightarrow> N \<in> {0, 1, 2, 3, 4, 5, 6, 7}"
  by (auto simp: pending_device_def split: if_splits)

text \<open>
  The command register the interrupt handler acknowledges gives back the index of the
  semaphore it signals, and the index is that of a device, not of the pseudo-clock.
\<close>

lemma device_event_index:
  assumes "platform_ok pf" "L \<in> {3, 4, 5, 6, 7}" "N \<in> {0, 1, 2, 3, 4, 5, 6, 7}"
    and "device_event pf L N s = Some (st, command, idx)"
  shows "nsys5_index pf command = uint idx" and "idx < of_nat NSUPPSEM"
proof -
  have p: "DEVPERINT pf = 8" using assms(1) by (simp add: platform_ok_def)
  have *: "(command = device_address L N + 4 \<and> idx = (L - 3) * DEVPERINT pf + N) \<or>
      (L = 7 \<and> command = device_address 7 N + 12 \<and> idx = 4 * DEVPERINT pf + N + DEVPERINT pf)"
    using assms(4) by (auto simp: device_event_def Let_def split: if_splits)
  then show "nsys5_index pf command = uint idx"
    using nsys5_index_command [OF assms(1-3)] nsys5_index_transm_command [OF assms(1,3)] by auto
  show "idx < of_nat NSUPPSEM"
    using * assms(2,3) unfolding p by auto
qed

lemma device_semaphore_unat:
  assumes "platform_ok pf" "i < of_nat NRSEMAPHORES"
  shows "unat (device_semaphore pf i) = unat (adr_device_semaphores pf) + 4 * unat i"
proof -
  have i: "unat i < NRSEMAPHORES" using assms(2) by (simp add: word_less_nat_alt)
  have a: "unat (adr_device_semaphores pf) + 4 * NRSEMAPHORES < 2 ^ 32"
    using assms(1) by (simp add: platform_ok_def)
  have "unat (4 * i) = 4 * unat i" using i by (simp add: unat_word_ariths)
  then show ?thesis using i a unfolding device_semaphore_def by (simp add: unat_word_ariths)
qed

lemma isDeviceSemaphore_index:
  assumes "platform_ok pf" "i < of_nat NRSEMAPHORES"
  shows "isDeviceSemaphore pf (device_semaphore pf i)"
proof -
  have "unat i < NRSEMAPHORES" using assms(2) by (simp add: word_less_nat_alt)
  then show ?thesis
    using device_semaphore_unat [OF assms] device_semaphore_unat [OF assms(1), of 0]
      device_semaphore_unat [OF assms(1), of "of_nat NRSEMAPHORES - 1"]
    unfolding isDeviceSemaphore_def word_le_nat_alt by simp
qed

lemma device_semaphore_inject:
  assumes "platform_ok pf" "i < of_nat NRSEMAPHORES" "j < of_nat NRSEMAPHORES"
  shows "device_semaphore pf i = device_semaphore pf j \<longleftrightarrow> i = j"
proof
  assume "device_semaphore pf i = device_semaphore pf j"
  then have "unat i = unat j"
    using device_semaphore_unat [OF assms(1,2)] device_semaphore_unat [OF assms(1,3)] by simp
  then show "i = j" by (rule word_unat_eq_iff [THEN iffD2])
qed simp

lemma device_sem_at_index:
  "nsys5_index pf a1 = uint idx \<Longrightarrow> idx < of_nat NSUPPSEM \<Longrightarrow>
    device_sem_at pf (nsys5_index pf a1) = Some (device_semaphore pf idx)"
  by (simp add: device_sem_at_def word_less_def)

section \<open>The V operation of an interrupt\<close>

lemma signal_device_wakes:
  assumes "nucleus_inv s a" "waiting s a k = p # q"
  shows "\<exists>l d a'. let s' = s\<lparr>links := l, semds := d,
      pcbs := (pcbs s)(p := (pcbs s p)\<lparr>p_s := set_a0 pf st (p_s (pcbs s p))\<rparr>),
      softBlock_count := softBlock_count s - 1\<rparr> in
    signal_device pf k st s = Some s' \<and> nucleus_inv s' a' \<and> woken k p s a s' a'"
proof -
  note N = nucleus_invD [OF assms(1)]
  let ?b = "(pcbs s p)\<lparr>p_s := set_a0 pf st (p_s (pcbs s p))\<rparr>"
  let ?s = "\<lambda>l d. s\<lparr>links := l, semds := d, pcbs := (pcbs s)(p := ?b)\<rparr>"
  let ?t = "\<lambda>l d. s\<lparr>links := l, semds := d, pcbs := (pcbs s)(p := ?b), softBlock_count := softBlock_count s - 1\<rparr>"
  have "p_parent ?b = parent s p" "p_semAdd ?b = semAdd s p" "p_prio ?b = prio s p" by simp_all
  from wake_first [OF N(1) assms(2) this] obtain l d l' a' where
    l: "removeBlocked k s = Some (Some p, s\<lparr>links := l, semds := d\<rparr>)"
    "insertProcQ ReadyQueue p (?s l d) = Some (?s l' d)"
    "ninv (set_option (currProc s)) (?s l' d) a'" "woken k p s a (?s l' d) a'"
    by blast
  have "signal_device pf k st s = Some (?t l' d)"
    using l(1,2) by (simp add: signal_device_def upd_pcb_def)
  moreover have "ninv (set_option (currProc s)) (?t l' d) a'" by (rule ninv_frame [OF l(3)]) simp_all
  moreover have "count_ok (?t l' d) a'"
    by (rule count_ok_frame [OF N(2)]) (simp_all add: woken_live [OF l(4)])
  moreover have "waiting (?t l' d) a' = waiting (?s l' d) a'" by (rule waiting_frame) simp_all
  ultimately show ?thesis
    using l(4) by (intro exI [of _ l'] exI [of _ d] exI [of _ a']) (simp add: nucleus_inv_def woken_def)
qed

lemma signal_device_counts:
  assumes "kwf s a" "waiting s a k = []"
  shows "signal_device pf k st s = Some (s\<lparr>ram := (ram s)(k := ram s k + 1)\<rparr>)"
  by (simp add: signal_device_def removeBlocked_Nil [OF assms] write_word_def)

text \<open>Going back after an interrupt: the running process goes on, an idle processor dispatches.\<close>

lemma resume_inv:
  assumes "nucleus_inv s a"
  shows "\<exists>e s'. resume pf s = Some (e, s') \<and>
    nucleus_inv s' (if currProc s = None then a\<lparr>a_ready := tl (a_ready a)\<rparr> else a) \<and>
    softBlock_count s' = softBlock_count s \<and> pcbs s' = pcbs s \<and> semds s' = semds s \<and>
    ram s' = ram s \<and> states s' = states s \<and>
    currProc s' = (if currProc s = None then (case a_ready a of [] \<Rightarrow> None | p # _ \<Rightarrow> Some p) else currProc s) \<and>
    (\<forall>p. currProc s = Some p \<longrightarrow> e = LDST (states s (getCurrExceptionState pf)))"
proof (cases "currProc s")
  case None
  then have "ninv {} s a" using nucleus_invD(1) [OF assms] by simp
  from dispatch_inv [OF this nucleus_invD(2) [OF assms]] None show ?thesis
    by (auto simp: resume_def)
next
  case (Some p)
  then show ?thesis using assms by (simp add: resume_def)
qed

section \<open>The soft-block count\<close>

definition sys_inv :: "platform \<Rightarrow> kernel \<Rightarrow> phase1 \<Rightarrow> bool" where
  "sys_inv pf s a \<longleftrightarrow> nucleus_inv s a \<and> soft_ok pf s a"

lemma current_not_blocked:
  assumes "nucleus_inv s a" "currProc s = Some p"
  shows "p \<in> live a" "p \<notin> blocked a" "p \<notin> set (a_ready a)"
  using ninvD(2) [OF nucleus_invD(1) [OF assms(1)], of p] assms(2) by (simp_all add: detached_def)

lemma blocked_on_sys_inv:
  assumes "sys_inv pf s a" "currProc s = Some p" "blocked_on k p b s a s' a'"
    and "softBlock_count s' = softBlock_count s + (if isDeviceSemaphore pf k then 1 else 0)"
  shows "sys_inv pf s' a'"
proof -
  have n: "nucleus_inv s a" "soft_ok pf s a" using assms(1) by (simp_all add: sys_inv_def)
  have "soft_ok pf s' a'"
    by (rule soft_block [OF nucleus_invD(3) [OF n(1)] n(2), where p = p and k = k])
      (use assms(3,4) current_not_blocked [OF n(1) assms(2)] in \<open>auto simp: blocked_on_def\<close>)
  then show ?thesis using assms(3) by (simp add: sys_inv_def blocked_on_def)
qed

lemma woken_sys_inv:
  assumes "sys_inv pf s a" "nucleus_inv s' a'" "woken k p s a s' a'" "waiting s a k = p # q"
    and "\<And>r. semAdd s' r = semAdd s r"
    and "softBlock_count s' = softBlock_count s - (if isDeviceSemaphore pf k then 1 else 0)"
  shows "sys_inv pf s' a'"
proof -
  have n: "kwf s a" "soft_ok pf s a" using assms(1) nucleus_invD(3) by (auto simp: sys_inv_def)
  have p: "p \<in> blocked a" "semAdd s p = k" using waiting_iff [OF n(1), of p k] assms(4) by simp_all
  have "soft_ok pf s' a'"
    by (rule soft_unblock [OF n, where p = p]) (use assms(3,5,6) p in \<open>auto simp: woken_def\<close>)
  then show ?thesis using assms(2) by (simp add: sys_inv_def)
qed


lemma sys_inv_frame:
  assumes "sys_inv pf s a" "links s' = links s" "semds s' = semds s" "currProc s' = currProc s"
    and "\<And>p. parent s' p = parent s p" "\<And>p. semAdd s' p = semAdd s p" "\<And>p. prio s' p = prio s p"
    and "processCount s' = processCount s" "softBlock_count s' = softBlock_count s"
  shows "sys_inv pf s' a"
proof -
  have n: "nucleus_inv s a" "soft_ok pf s a" using assms(1) by (simp_all add: sys_inv_def)
  have "ninv (set_option (currProc s')) s' a"
    unfolding assms(4) by (rule ninv_frame [OF nucleus_invD(1) [OF n(1)]]) (simp_all add: assms)
  moreover have "count_ok s' a" by (rule count_ok_frame [OF nucleus_invD(2) [OF n(1)]]) (simp_all add: assms)
  moreover have "soft_ok pf s' a" by (rule soft_ok_frame [OF n(2)]) (simp_all add: assms)
  ultimately show ?thesis by (simp add: sys_inv_def nucleus_inv_def)
qed

text \<open>A service that changes only the ready queue keeps the soft-block count.\<close>

lemma sys_inv_ready:
  assumes "sys_inv pf s a" "nucleus_inv s' a'" "blocked a' = blocked a"
    and "\<And>p. semAdd s' p = semAdd s p" "softBlock_count s' = softBlock_count s"
  shows "sys_inv pf s' a'"
  using assms soft_ok_frame [of pf s a a' s'] by (simp add: sys_inv_def)

lemma resume_sys_inv:
  assumes "sys_inv pf s a"
  shows "\<exists>e s' a'. resume pf s = Some (e, s') \<and> sys_inv pf s' a'"
proof -
  have n: "nucleus_inv s a" using assms by (simp add: sys_inv_def)
  obtain e s' where r: "resume pf s = Some (e, s')"
    "nucleus_inv s' (if currProc s = None then a\<lparr>a_ready := tl (a_ready a)\<rparr> else a)"
    "softBlock_count s' = softBlock_count s" "pcbs s' = pcbs s"
    using resume_inv [OF n] by blast
  have "sys_inv pf s' (if currProc s = None then a\<lparr>a_ready := tl (a_ready a)\<rparr> else a)"
    by (rule sys_inv_ready [OF assms r(2)]) (simp_all add: r)
  then show ?thesis using r(1) by blast
qed

lemma signal_device_sys_inv:
  assumes "sys_inv pf s a" "isDeviceSemaphore pf k"
  shows "\<exists>s' a'. signal_device pf k st s = Some s' \<and> sys_inv pf s' a'"
proof (cases "waiting s a k")
  case Nil
  have n: "nucleus_inv s a" using assms(1) by (simp add: sys_inv_def)
  have "sys_inv pf (s\<lparr>ram := (ram s)(k := ram s k + 1)\<rparr>) a"
    by (rule sys_inv_frame [OF assms(1)]) simp_all
  then show ?thesis using signal_device_counts [OF nucleus_invD(3) [OF n] Nil] by blast
next
  case (Cons p q)
  have n: "nucleus_inv s a" using assms(1) by (simp add: sys_inv_def)
  from signal_device_wakes [OF n Cons, of pf st] obtain s' a' where
    w: "signal_device pf k st s = Some s'" "nucleus_inv s' a'" "woken k p s a s' a'"
      "semAdd s' = semAdd s" "softBlock_count s' = softBlock_count s - 1"
    by (fastforce simp: Let_def)
  have "sys_inv pf s' a'"
    by (rule woken_sys_inv [OF assms(1) w(2,3) Cons]) (simp_all add: w assms(2) fun_cong [OF w(4)])
  then show ?thesis using w(1) by blast
qed

section \<open>Device interrupts\<close>

lemma deviceInterruptHandler_event:
  assumes "interrupt_line c = Some L" "pending_device (ram s (0x10000040 + (L - 3) * WORDLEN)) = Some N"
    and "device_event pf L N s = Some (st, command, idx)"
  shows "deviceInterruptHandler pf c s =
    Option.bind (signal_device pf (device_semaphore pf idx) st (s\<lparr>ram := (ram s)(command := ACK pf)\<rparr>)) (resume pf)"
  using assms by (simp add: deviceInterruptHandler_def write_word_def)

lemma deviceInterruptHandler_inv:
  assumes "platform_ok pf" "sys_inv pf s a"
  shows "\<exists>e s' a'. deviceInterruptHandler pf c s = Some (e, s') \<and> sys_inv pf s' a'"
proof -
  note R = resume_sys_inv [OF assms(2)]
  show ?thesis
  proof (cases "interrupt_line c")
    case None
    then show ?thesis using R by (simp add: deviceInterruptHandler_def)
  next
    case L: (Some L)
    show ?thesis
    proof (cases "pending_device (ram s (0x10000040 + (L - 3) * WORDLEN))")
      case None
      then show ?thesis using R L by (simp add: deviceInterruptHandler_def)
    next
      case N: (Some N)
      show ?thesis
      proof (cases "device_event pf L N s")
        case None
        then show ?thesis using R L N by (simp add: deviceInterruptHandler_def)
      next
        case (Some ev)
        obtain st command idx where ev: "ev = (st, command, idx)" by (cases ev)
        have "idx < of_nat NSUPPSEM"
          using device_event_index(2) [OF assms(1) interrupt_line_range [OF L] pending_device_range [OF N]]
            Some ev by simp
        then have "idx < of_nat NRSEMAPHORES" by (rule order_less_trans) simp
        then have "isDeviceSemaphore pf (device_semaphore pf idx)"
          by (rule isDeviceSemaphore_index [OF assms(1)])
        moreover have "sys_inv pf (s\<lparr>ram := (ram s)(command := ACK pf)\<rparr>) a"
          by (rule sys_inv_frame [OF assms(2)]) simp_all
        ultimately obtain s1 a1 where
          "signal_device pf (device_semaphore pf idx) st (s\<lparr>ram := (ram s)(command := ACK pf)\<rparr>) = Some s1"
          "sys_inv pf s1 a1"
          using signal_device_sys_inv by blast
        then show ?thesis
          using deviceInterruptHandler_event [OF L N] Some ev resume_sys_inv [of pf s1 a1] by simp
      qed
    qed
  qed
qed

section \<open>The other handlers keep the count\<close>

lemma soft_unblock_all:
  assumes "kwf s a" "soft_ok pf s a" "blocked a' = blocked a - set w" "set w \<subseteq> blocked a" "distinct w"
    and "\<And>q. semAdd s' q = semAdd s q" "\<And>q. q \<in> set w \<Longrightarrow> isDeviceSemaphore pf (semAdd s q)"
    and "softBlock_count s' = softBlock_count s - of_nat (length w)"
  shows "soft_ok pf s' a'"
proof -
  have sub: "set w \<subseteq> soft_blocked pf s a" using assms(4,7) by (auto simp: soft_blocked_def)
  have "soft_blocked pf s' a' = soft_blocked pf s a - set w"
    using assms(3,6) by (auto simp: soft_blocked_def)
  then have "card (soft_blocked pf s' a') = card (soft_blocked pf s a) - length w"
    using card_Diff_subset [OF _ sub] distinct_card [OF assms(5)] by simp
  moreover have "length w \<le> card (soft_blocked pf s a)"
    using card_mono [OF soft_blocked_card(1) [OF assms(1)] sub] distinct_card [OF assms(5)] by simp
  ultimately show ?thesis using assms(2,8) by (simp add: soft_ok_def of_nat_diff)
qed

lemma itInterruptHandler_inv:
  assumes "platform_ok pf" "sys_inv pf s a"
  shows "\<exists>e s' a'. itInterruptHandler pf s = Some (e, s') \<and> sys_inv pf s' a'"
proof -
  have n: "nucleus_inv s a" "soft_ok pf s a" using assms(2) by (simp_all add: sys_inv_def)
  let ?k = "device_semaphore pf (of_nat NSUPPSEM)"
  obtain e s' a' where h: "itInterruptHandler pf s = Some (e, s')" "nucleus_inv s' a'"
    "blocked a' = blocked a - set (waiting s a ?k)"
    "softBlock_count s' = softBlock_count s - of_nat (length (waiting s a ?k))"
    "\<And>q. semAdd s' q = semAdd s q"
    using itInterruptHandler_wakes [OF n(1) refl refl refl refl] by (fastforce split: option.splits)
  have "isDeviceSemaphore pf ?k" by (rule isDeviceSemaphore_index [OF assms(1)]) simp
  then have "soft_ok pf s' a'"
    by (intro soft_unblock_all [OF nucleus_invD(3) [OF n(1)] n(2) h(3) _ _ h(5) _ h(4)])
      (use waiting_iff [OF nucleus_invD(3) [OF n(1)]] waiting_distinct [OF nucleus_invD(3) [OF n(1)]] in auto)
  then show ?thesis using h(1,2) by (auto simp: sys_inv_def)
qed

lemma pltInterruptHandler_inv:
  assumes "sys_inv pf s a" "currProc s = Some p"
  shows "\<exists>e s' a'. pltInterruptHandler pf s = Some (e, s') \<and> sys_inv pf s' a'"
proof -
  have n: "nucleus_inv s a" using assms(1) by (simp add: sys_inv_def)
  obtain e s' a' where h: "pltInterruptHandler pf s = Some (e, s')" "nucleus_inv s' a'"
    "blocked a' = blocked a" "\<And>q. semAdd s' q = semAdd s q" "softBlock_count s' = softBlock_count s"
    using pltInterruptHandler_requeues [OF n assms(2), of pf] by fastforce
  have "sys_inv pf s' a'" by (rule sys_inv_ready [OF assms(1) h(2)]) (simp_all add: h)
  then show ?thesis using h(1) by blast
qed

end
