(* ===== verification/Boot.thy ===== *)
theory Boot
  imports Devices
begin

text \<open>
  The boot of the nucleus (phase2/src/initial.c): from any contents of the memory,
  main builds the structures of phase 1, creates the first process and starts it.
\<close>

section \<open>The structures after initialisation\<close>

definition init_phase1 :: phase1 where
  "init_phase1 = \<lparr>a_free = rev [0..<MAXPROC], a_ready = [], a_sfree = rev [0..<MAXPROC],
     a_asl = [], a_procq = (\<lambda>_. []), a_child = (\<lambda>_. [])\<rparr>"

lemma init_phase1_simps [simp]:
  "a_free init_phase1 = rev [0..<MAXPROC]" "a_ready init_phase1 = []" "a_asl init_phase1 = []"
  "live init_phase1 = {}" "blocked init_phase1 = {}"
  by (simp_all add: init_phase1_def live_def blocked_def)

lemma phase1_init:
  "kwf (initASL (initPcbs (mkEmptyProcQ (Some ReadyQueue) s))) init_phase1"
proof -
  let ?R = "[ReadyQueue \<mapsto> [], PcbFree_h \<mapsto> []]"
  let ?R2 = "?R(PcbFree_h \<mapsto> map P_list (rev [0..<MAXPROC]))"
  let ?R3 = "?R2(SemdFree_h \<mapsto> [], Semd_h \<mapsto> [])"
  have "rings (links s) Map.empty" by (simp add: rings_def)
  then have "rings (INIT_LIST_HEAD PcbFree_h (INIT_LIST_HEAD ReadyQueue (links s))) ?R"
    by (intro rings_INIT_LIST_HEAD) (auto simp: members_def split: if_splits)
  then have "rings (initPcbs_loop MAXPROC (INIT_LIST_HEAD PcbFree_h (INIT_LIST_HEAD ReadyQueue (links s)))) ?R2"
    by (rule initPcbs_loop_rings) (auto simp: nodes_def split: if_splits)
  then have "rings (INIT_LIST_HEAD Semd_h (INIT_LIST_HEAD SemdFree_h
      (initPcbs_loop MAXPROC (INIT_LIST_HEAD PcbFree_h (INIT_LIST_HEAD ReadyQueue (links s)))))) ?R3"
    by (intro rings_INIT_LIST_HEAD) (auto simp: members_def split: if_splits)
  then have "rings (initASL_loop MAXPROC (INIT_LIST_HEAD Semd_h (INIT_LIST_HEAD SemdFree_h
      (initPcbs_loop MAXPROC (INIT_LIST_HEAD PcbFree_h (INIT_LIST_HEAD ReadyQueue (links s)))))))
      (?R3(SemdFree_h \<mapsto> map S_link (rev [0..<MAXPROC])))"
    by (rule initASL_loop_rings) (auto simp: nodes_def split: if_splits)
  moreover have "?R3(SemdFree_h \<mapsto> map S_link (rev [0..<MAXPROC])) = lists_of init_phase1"
  proof
    show "(?R3(SemdFree_h \<mapsto> map S_link (rev [0..<MAXPROC]))) n = lists_of init_phase1 n" for n
      by (cases n) (simp_all add: init_phase1_def live_def)
  qed
  ultimately have "rings (links (initASL (initPcbs (mkEmptyProcQ (Some ReadyQueue) s)))) (lists_of init_phase1)"
    by (simp add: initASL_def initPcbs_def mkEmptyProcQ_def Let_def)
  moreover have "wf_pcbs init_phase1" by (auto simp: wf_pcbs_def)
  moreover have "wf_asl s' init_phase1" "wf_tree s' init_phase1" for s'
    by (auto simp: wf_asl_def wf_tree_def) (simp_all add: init_phase1_def)
  ultimately show ?thesis by (simp add: kwf_def)
qed

section \<open>The first process\<close>

text \<open>The PCB allocFirstPcb returns.\<close>

definition first_pcb :: "platform \<Rightarrow> kernel \<Rightarrow> nat \<Rightarrow> pcb_t" where
  "first_pcb pf s p = (fresh_pcb pf (next_pid s) (pcbs s p))\<lparr>p_s :=
     set_sp pf (ram s RAMBASEADDR + ram s RAMBASESIZE) ((zero_state pf (p_s (pcbs s p)))
       \<lparr>pc_epc := adr_test pf, mie := MIE_ALL, status := MSTATUS_MPIE_MASK OR MSTATUS_MPP_M\<rparr>)\<rparr>"

lemma first_pcb_simps [simp]:
  "p_parent (first_pcb pf s p) = None" "p_semAdd (first_pcb pf s p) = NULL"
  "p_prio (first_pcb pf s p) = 0" "p_pid (first_pcb pf s p) = next_pid s"
  "p_supportStruct (first_pcb pf s p) = NULL" "p_time (first_pcb pf s p) = 0"
  by (simp_all add: first_pcb_def fresh_pcb_def)

lemma allocFirstPcb_eq:
  assumes "kwf s a" "a_free a = p # f"
  shows "\<exists>l. allocFirstPcb pf s = Some (p, s\<lparr>links := l,
      pcbs := (pcbs s)(p := first_pcb pf s p), next_pid := next_pid s + 1\<rparr>) \<and>
    kwf (s\<lparr>links := l, pcbs := (pcbs s)(p := first_pcb pf s p), next_pid := next_pid s + 1\<rparr>)
      (a\<lparr>a_free := f, a_child := (a_child a)(p := [])\<rparr>)"
proof -
  let ?a = "a\<lparr>a_free := f, a_child := (a_child a)(p := [])\<rparr>"
  let ?s = "\<lambda>l b. s\<lparr>links := l, pcbs := (pcbs s)(p := b), next_pid := next_pid s + 1\<rparr>"
  let ?f = "fresh_pcb pf (next_pid s) (pcbs s p)"
  obtain l where l: "allocPcb pf s = Some (Some p, ?s l ?f)" "kwf (?s l ?f) ?a"
    using allocPcb_Cons [OF assms] by blast
  let ?l = "INIT_LIST_HEAD (P_sib p) (INIT_LIST_HEAD (P_child p) l)"
  note L = live_alloc [OF assms]
  have live: "live ?a = insert p (live a)" using L(1) by (simp add: live_def)
  have R: "rings l (lists_of ?a)" using wf_rings [OF l(2)] by simp
  have "rings (INIT_LIST_HEAD (P_child p) l) ((lists_of ?a)(P_child p \<mapsto> []))"
    by (rule rings_INIT_LIST_HEAD [OF R]) simp
  moreover have "(lists_of ?a)(P_child p \<mapsto> []) = lists_of ?a" using live by (simp add: fun_upd_idem)
  moreover have "P_sib p \<notin> nodes (lists_of ?a)"
    using wfD(3) [OF l(2)] unfolding nodes_lists_of wf_tree_def by (auto simp: fresh_pcb_def)
  ultimately have R2: "rings ?l (lists_of ?a)" using rings_INIT_free_node by metis
  have eq: "wf_asl (?s ?l (first_pcb pf s p)) ?a = wf_asl (?s l ?f) ?a"
    by (simp add: wf_asl_def fresh_pcb_def first_pcb_def)
  have eq2: "wf_tree (?s ?l (first_pcb pf s p)) ?a = wf_tree (?s l ?f) ?a"
    by (rule wf_tree_cong) (simp_all add: fresh_pcb_def)
  have "kwf (?s ?l (first_pcb pf s p)) ?a"
    using l(2) R2 eq eq2 by (simp only: kwf_def) simp
  moreover have "allocFirstPcb pf s = Some (p, ?s ?l (first_pcb pf s p))"
    unfolding allocFirstPcb_def l(1)
    by (simp add: upd_pcb_def upd_links_def first_pcb_def fresh_pcb_def set_sp_def)
  ultimately show ?thesis by blast
qed

section \<open>main\<close>

text \<open>The abstract state in which the first process runs.\<close>

definition boot_phase1 :: phase1 where
  "boot_phase1 = init_phase1\<lparr>a_free := rev [0..<MAXPROC - 1]\<rparr>"

lemma boot_phase1_simps [simp]:
  "live boot_phase1 = {MAXPROC - 1}" "blocked boot_phase1 = {}" "a_ready boot_phase1 = []"
  "waiting s boot_phase1 k = []"
  by (auto simp: boot_phase1_def live_def MAXPROC_def waiting_def)

lemma rev_upt_MAXPROC: "rev [0..<MAXPROC] = (MAXPROC - 1) # rev [0..<MAXPROC - 1]"
  using upt_Suc_append [of 0 "MAXPROC - 1"] by (simp add: MAXPROC_def)

lemma main_eq:
  assumes "processCount s = 0" "currProc s = None"
  shows "\<exists>s'. main pf s = Some (LDST (p_s (first_pcb pf s (MAXPROC - 1))), s') \<and>
    nucleus_inv s' boot_phase1 \<and> currProc s' = Some (MAXPROC - 1) \<and>
    pcbs s' = (pcbs s)(MAXPROC - 1 := first_pcb pf s (MAXPROC - 1)) \<and>
    next_pid s' = next_pid s + 1 \<and> softBlock_count s' = softBlock_count s \<and>
    ram s' = ram s \<and> states s' = states s \<and>
    passupvector s' = passupvector (initVector pf s) \<and> itimer s' = PSECOND"
proof -
  let ?p = "MAXPROC - 1"
  let ?i = "(initVector pf (initASL (initPcbs (mkEmptyProcQ (Some ReadyQueue) s))))\<lparr>itimer := PSECOND\<rparr>"
  let ?b = "first_pcb pf s ?p"
  have i: "pcbs ?i = pcbs s" "next_pid ?i = next_pid s" "ram ?i = ram s" "states ?i = states s"
    "currProc ?i = None" "processCount ?i = 0" "softBlock_count ?i = softBlock_count s"
    using assms by (simp_all add: initVector_def initASL_def initPcbs_def mkEmptyProcQ_def upd_links_def Let_def)
  have W: "kwf ?i init_phase1"
    using phase1_init [of s] by (subst wf_cong) (simp_all add: initVector_def)
  have N: "ninv {} ?i init_phase1" using W by (simp add: ninv_def prio_sorted_def)
  have b: "first_pcb pf ?i ?p = ?b" by (simp add: first_pcb_def i)
  let ?s = "\<lambda>l. ?i\<lparr>links := l, pcbs := (pcbs ?i)(?p := ?b), next_pid := next_pid ?i + 1\<rparr>"
  have f: "a_free init_phase1 = ?p # rev [0..<?p]" by (simp only: init_phase1_simps rev_upt_MAXPROC)
  let ?a = "init_phase1\<lparr>a_free := rev [0..<?p], a_child := (a_child init_phase1)(?p := [])\<rparr>"
  have a: "?a = boot_phase1" by (simp add: boot_phase1_def init_phase1_def fun_upd_idem)
  obtain l where l: "allocFirstPcb pf ?i = Some (?p, ?s l)" "kwf (?s l) ?a"
    using allocFirstPcb_eq [OF W f, of pf] unfolding b by blast
  have "ninv {?p} (?s l) ?a"
    by (rule ninv_alloc [OF N f l(2)]) simp
  then have n1: "ninv {?p} (?s l) boot_phase1" unfolding a .
  then obtain l2 where l2: "insertProcQ ReadyQueue ?p (?s l) = Some ((?s l)\<lparr>links := l2\<rparr>)"
    "ninv {} ((?s l)\<lparr>links := l2\<rparr>) (boot_phase1\<lparr>a_ready := [?p]\<rparr>)"
    using ready_insert [OF n1, of ?p] by auto
  let ?t = "(?s l)\<lparr>links := l2, processCount := 1\<rparr>"
  have n2: "ninv {} ?t (boot_phase1\<lparr>a_ready := [?p]\<rparr>)" by (rule ninv_frame [OF l2(2)]) simp_all
  have "a_ready (boot_phase1\<lparr>a_ready := [?p]\<rparr>) = [?p]" by simp
  from dispatch_ready [OF n2 this] obtain l3 where
    l3: "dispatch ?t = Some (LDST (p_s ?b), ?t\<lparr>links := l3, currProc := Some ?p,
      cpu_timer := TIMESLICE * ram ?t TIMESCALEADDR, tod_start := tod ?t\<rparr>)"
    "ninv {?p} (?t\<lparr>links := l3, currProc := Some ?p,
      cpu_timer := TIMESLICE * ram ?t TIMESCALEADDR, tod_start := tod ?t\<rparr>)
      (boot_phase1\<lparr>a_ready := [?p], a_ready := []\<rparr>)"
    by auto
  have eq: "boot_phase1\<lparr>a_ready := [?p], a_ready := []\<rparr> = boot_phase1"
    by (simp add: boot_phase1_def init_phase1_def)
  have "main pf s = dispatch ?t"
    using l(1) l2(1) i(6) by (simp add: main_def Let_def)
  then show ?thesis
    using l3 i unfolding eq by (simp add: nucleus_inv_def count_ok_def initVector_def)
qed

lemma main_sys_inv:
  assumes "boot_globals pf s"
  shows "\<exists>e s'. main pf s = Some (e, s') \<and> sys_inv pf s' boot_phase1"
proof -
  have "processCount s = 0" "currProc s = None" "softBlock_count s = 0"
    using assms by (simp_all add: boot_globals_def)
  then show ?thesis
    using main_eq [of s pf] by (auto simp: sys_inv_def soft_ok_def soft_blocked_def)
qed

end
