(* ===== verification/Trees.thy ===== *)
theory Trees
  imports Boot
begin

text \<open>
  Process trees: the descendants of a process, how they change when a subtree is cut
  off, and the search for a process by its identifier.
\<close>

section \<open>Descendants\<close>

definition child_rel :: "phase1 \<Rightarrow> (nat \<times> nat) set" where
  "child_rel a = {(p, c). p \<in> live a \<and> c \<in> set (a_child a p)}"

definition desc :: "phase1 \<Rightarrow> nat \<Rightarrow> nat set" where
  "desc a p = {q. (p, q) \<in> (child_rel a)\<^sup>*}"

lemma desc_refl [simp]: "p \<in> desc a p"
  by (simp add: desc_def)

lemma desc_step: "q \<in> desc a p \<Longrightarrow> q \<in> live a \<Longrightarrow> c \<in> set (a_child a q) \<Longrightarrow> c \<in> desc a p"
  by (auto simp: desc_def child_rel_def intro: rtrancl_into_rtrancl)

lemma desc_induct [consumes 1, case_names root child]:
  assumes "q \<in> desc a p" "P p"
    and "\<And>q c. q \<in> desc a p \<Longrightarrow> P q \<Longrightarrow> q \<in> live a \<Longrightarrow> c \<in> set (a_child a q) \<Longrightarrow> P c"
  shows "P q"
proof -
  have "(p, q) \<in> (child_rel a)\<^sup>*" using assms(1) by (simp add: desc_def)
  then show ?thesis
  proof (induction rule: rtrancl_induct)
    case base
    then show ?case by (rule assms(2))
  next
    case (step q c)
    then show ?case using assms(3) [of q c] by (simp add: desc_def child_rel_def)
  qed
qed

lemma desc_trans: "r \<in> desc a q \<Longrightarrow> q \<in> desc a p \<Longrightarrow> r \<in> desc a p"
  by (simp add: desc_def)

lemma child_live:
  assumes "kwf s a" "p \<in> live a" "c \<in> set (a_child a p)"
  shows "c \<in> live a" "parent s c = Some p"
  using wfD(3) [OF assms(1)] assms(2,3) unfolding wf_tree_def by blast+

lemma desc_live:
  assumes "kwf s a" "p \<in> live a" "q \<in> desc a p"
  shows "q \<in> live a"
  using assms(3,2) by (induction rule: desc_induct) (use child_live [OF assms(1)] in auto)

lemma desc_finite:
  assumes "kwf s a" "p \<in> live a"
  shows "finite (desc a p)"
  using finite_subset [OF _ live_finite, of "desc a p" a] desc_live [OF assms] by blast

text \<open>There is no cycle: no process is a descendant of one of its children.\<close>

lemma not_desc_child:
  assumes "kwf s a" "p \<in> live a" "c \<in> set (a_child a p)"
  shows "p \<notin> desc a c"
proof
  obtain rk :: "nat \<Rightarrow> nat" where rk: "\<And>c p. c \<in> live a \<Longrightarrow> parent s c = Some p \<Longrightarrow> rk p < rk c"
    using wfD(3) [OF assms(1)] unfolding wf_tree_def by blast
  have step: "rk q < rk d" if "q \<in> live a" "d \<in> set (a_child a q)" for q d
    using rk child_live [OF assms(1) that] by blast
  have mono: "rk c \<le> rk q" if "q \<in> desc a c" for q
    using that by (induction rule: desc_induct) (auto dest: step intro: order_trans less_imp_le)
  assume "p \<in> desc a c"
  then show False using mono [of p] step [OF assms(2,3)] by simp
qed

lemma desc_child_subset:
  assumes "kwf s a" "p \<in> live a" "c \<in> set (a_child a p)"
  shows "desc a c \<subset> desc a p"
proof -
  have "c \<in> desc a p" using desc_step [OF desc_refl assms(2,3)] .
  then show ?thesis using desc_trans not_desc_child [OF assms] desc_refl [of p a] by blast
qed

lemma desc_leaf: "a_child a p = [] \<Longrightarrow> desc a p = {p}"
proof -
  assume *: "a_child a p = []"
  have "q = p" if "q \<in> desc a p" for q
    using that by (induction rule: desc_induct) (use * in auto)
  then show ?thesis by auto
qed

lemma desc_unfold:
  assumes "p \<in> live a"
  shows "desc a p = insert p (\<Union>c\<in>set (a_child a p). desc a c)"
proof
  show "insert p (\<Union>c\<in>set (a_child a p). desc a c) \<subseteq> desc a p"
    using desc_step [OF desc_refl assms] desc_trans [of _ a _ p] desc_refl [of p a] by auto
  have "q \<in> insert p (\<Union>c\<in>set (a_child a p). desc a c)" if "q \<in> desc a p" for q
    using that
  proof (induction rule: desc_induct)
    case (child q c)
    then show ?case using desc_step [of q a _ c] desc_refl [of c a] by blast
  qed simp
  then show "desc a p \<subseteq> insert p (\<Union>c\<in>set (a_child a p). desc a c)" by blast
qed

text \<open>Cutting the link from \<open>p\<close> to its child \<open>c\<close> leaves the subtree of \<open>c\<close> as it is.\<close>

lemma desc_cut:
  assumes "kwf s a" "p \<in> live a" "a_child a p = c # cs"
    and "live a1 = live a" "a_child a1 = (a_child a)(p := cs)"
  shows "desc a1 c = desc a c"
proof
  have c: "c \<in> set (a_child a p)" using assms(3) by simp
  have "q \<in> desc a c" if "q \<in> desc a1 c" for q
    using that
  proof (induction rule: desc_induct)
    case (child q d)
    then have "d \<in> set (a_child a q)" using assms(3,5) by (auto split: if_splits)
    then show ?case using child assms(4) desc_step by blast
  qed simp
  then show "desc a1 c \<subseteq> desc a c" by blast
  have "q \<in> desc a1 c" if "q \<in> desc a c" for q
    using that
  proof (induction rule: desc_induct)
    case (child q d)
    then have "q \<noteq> p" using not_desc_child [OF assms(1,2) c] by auto
    then show ?case using child assms(4,5) desc_step [of q a1 c d] by simp
  qed simp
  then show "desc a c \<subseteq> desc a1 c" by blast
qed

text \<open>Removing the whole subtree of a child \<open>c\<close> leaves the rest of the tree of \<open>p\<close>.\<close>

lemma desc_prune:
  assumes "kwf s a" "p \<in> live a" "c \<in> set (a_child a p)" "D = desc a c"
    and "live a2 = live a - D" "\<And>q. q \<in> live a - D \<Longrightarrow> a_child a2 q = filter (\<lambda>x. x \<notin> D) (a_child a q)"
  shows "desc a2 p = desc a p - D"
proof
  have p: "p \<notin> D" using not_desc_child [OF assms(1-3)] assms(4) by simp
  have "q \<in> desc a p \<and> q \<notin> D" if "q \<in> desc a2 p" for q
    using that
  proof (induction rule: desc_induct)
    case (child q d)
    then show ?case using assms(5,6) desc_step [of q a p d] by auto
  qed (use p in simp)
  then show "desc a2 p \<subseteq> desc a p - D" by blast
  have "q \<notin> D \<longrightarrow> q \<in> desc a2 p" if "q \<in> desc a p" for q
    using that
  proof (induction rule: desc_induct)
    case (child q d)
    then show ?case using assms(4,5,6) desc_step [of q a c d] desc_step [of q a2 p d] by auto
  qed simp
  then show "desc a p - D \<subseteq> desc a2 p" by blast
qed

end
