(* ===== verification/Search.thy ===== *)
theory Search
  imports Trees
begin

text \<open>
  The search for a process by its identifier (searchInTree, searchBlockedByPid and
  findPcbByPid of phase2/src/syscall.c) ends, and finds a process with the identifier
  exactly when there is one.
\<close>

text \<open>
  The result \<open>r\<close> of a search in the set \<open>S\<close> for an element with property \<open>P\<close>: the
  search returns, an element it returns has the property, and it returns none only
  when there is none.
\<close>

definition finds :: "'a set \<Rightarrow> ('a \<Rightarrow> bool) \<Rightarrow> 'a option option \<Rightarrow> bool" where
  "finds S P r \<longleftrightarrow>
    (case r of None \<Rightarrow> False | Some None \<Rightarrow> (\<forall>q\<in>S. \<not> P q) | Some (Some q) \<Rightarrow> q \<in> S \<and> P q)"

lemma findsE:
  assumes "finds S P r"
  obtains "r = Some None" "\<And>q. q \<in> S \<Longrightarrow> \<not> P q" | q where "r = Some (Some q)" "q \<in> S" "P q"
  using assms by (auto simp: finds_def split: option.splits)

lemma finds_simps [simp]:
  "finds S P (Some None) \<longleftrightarrow> (\<forall>q\<in>S. \<not> P q)"
  "finds S P (Some (Some q)) \<longleftrightarrow> q \<in> S \<and> P q"
  "\<not> finds S P None"
  by (simp_all add: finds_def)

lemma finds_foreach:
  "(\<And>x. x \<in> set xs \<Longrightarrow> finds (S x) P (f x)) \<Longrightarrow> finds (\<Union>x\<in>set xs. S x) P (foreach f xs)"
proof (induction xs)
  case (Cons x xs)
  have "finds (S x) P (f x)" using Cons.prems by simp
  then show ?case
  proof (cases rule: findsE)
    case 1
    moreover have IH: "finds (\<Union>x\<in>set xs. S x) P (foreach f xs)" using Cons by simp
    ultimately show ?thesis by (cases rule: findsE [OF IH]) auto
  next
    case (2 q)
    then show ?thesis by auto
  qed
qed simp

text \<open>Searching in one set and then, when nothing was found, in another.\<close>

lemma finds_then:
  assumes "finds S P r" "finds T P r'"
  shows "finds (S \<union> T) P (Option.bind r (\<lambda>x. case x of Some p \<Rightarrow> Some (Some p) | None \<Rightarrow> r'))"
  using assms(1)
proof (cases rule: findsE)
  case 1
  then show ?thesis by (cases rule: findsE [OF assms(2)]) auto
qed auto

lemma finds_subset:
  assumes "finds S P r" "S \<subseteq> T" "\<And>q. q \<in> T \<Longrightarrow> P q \<Longrightarrow> q \<in> S"
  shows "finds T P r"
  using assms(1)
proof (cases rule: findsE)
  case 1
  then show ?thesis using assms(3) by auto
next
  case (2 q)
  then show ?thesis using assms(2) by auto
qed

section \<open>searchInTree\<close>

lemma searchChildren_foreach:
  assumes "ring (links s) (P_child r) (map P_sib (xs @ ys))"
  shows "searchChildren s pid (P_child r) (hd (map P_sib ys @ [P_child r])) =
    foreach (\<lambda>c. searchInTree (Some c) pid s) ys"
  using assms
proof (induction ys arbitrary: xs)
  case Nil
  then show ?case by (simp add: searchChildren_searchInTree)
next
  case (Cons y ys)
  have r: "ring (links s) (P_child r) (map P_sib (xs @ [y]) @ map P_sib ys)" using Cons.prems by simp
  have n: "nxt (links s) (P_sib y) = hd (map P_sib ys @ [P_child r])" using ring_cut(1) [OF r] by simp
  have IH: "searchChildren s pid (P_child r) (hd (map P_sib ys @ [P_child r])) =
    foreach (\<lambda>c. searchInTree (Some c) pid s) ys"
    by (rule Cons.IH [of "xs @ [y]"]) (use Cons.prems in simp)
  show ?case
    by (simp add: searchChildren_searchInTree [of s pid "P_child r" "P_sib y"] n IH)
qed

lemma searchInTree_eq:
  assumes "kwf s a" "r \<in> live a"
  shows "searchInTree (Some r) pid s =
    (if p_pid (pcbs s r) = pid then Some (Some r)
     else foreach (\<lambda>c. searchInTree (Some c) pid s) (a_child a r))"
proof -
  have L: "lists_of a (P_child r) = Some (map P_sib (a_child a r))" using assms(2) by simp
  have "ring (links s) (P_child r) (map P_sib ([] @ a_child a r))"
    using rings_ring [OF wf_rings [OF assms(1)] L] by simp
  from searchChildren_foreach [OF this, of pid] show ?thesis
    by (simp add: searchInTree_def rings_nxt [OF wf_rings [OF assms(1)] L])
qed

lemma searchInTree_finds:
  assumes "kwf s a" "r \<in> live a"
  shows "finds (desc a r) (\<lambda>q. p_pid (pcbs s q) = pid) (searchInTree (Some r) pid s)"
  using assms(2)
proof (induction "card (desc a r)" arbitrary: r rule: less_induct)
  case less
  have IH: "finds (desc a c) (\<lambda>q. p_pid (pcbs s q) = pid) (searchInTree (Some c) pid s)"
    if "c \<in> set (a_child a r)" for c
  proof (rule less.hyps)
    show "card (desc a c) < card (desc a r)"
      by (rule psubset_card_mono [OF desc_finite [OF assms(1) less.prems]
            desc_child_subset [OF assms(1) less.prems that]])
    show "c \<in> live a" by (rule child_live(1) [OF assms(1) less.prems that])
  qed
  show ?case
  proof (cases "p_pid (pcbs s r) = pid")
    case True
    then show ?thesis by (simp add: searchInTree_eq [OF assms(1) less.prems])
  next
    case False
    have "finds (\<Union>c\<in>set (a_child a r). desc a c) (\<lambda>q. p_pid (pcbs s q) = pid)
        (foreach (\<lambda>c. searchInTree (Some c) pid s) (a_child a r))"
      using IH by (rule finds_foreach)
    then have "finds (desc a r) (\<lambda>q. p_pid (pcbs s q) = pid)
        (foreach (\<lambda>c. searchInTree (Some c) pid s) (a_child a r))"
      by (rule finds_subset) (use False desc_unfold [OF less.prems] in auto)
    then show ?thesis using False by (simp add: searchInTree_eq [OF assms(1) less.prems])
  qed
qed

section \<open>searchBlockedByPid and findPcbByPid\<close>

lemma searchBlockedByPid_finds:
  assumes "kwf s a"
  shows "finds (blocked a) (\<lambda>q. p_pid (pcbs s q) = pid) (searchBlockedByPid pid s)"
proof -
  note R = wf_rings [OF assms]
  let ?f = "\<lambda>i. list_for_each (links s) (S_procq i) (\<lambda>pos. Option.bind (container_of_p_list pos)
    (\<lambda>p. Some (if p_pid (pcbs s p) = pid then Some p else None)))"
  have "finds (set (a_procq a i)) (\<lambda>q. p_pid (pcbs s q) = pid) (?f i)" if "i \<in> set (a_asl a)" for i
  proof -
    have L: "lists_of a (S_procq i) = Some (map P_list (a_procq a i))" using that by simp
    have "?f i = Some (find (\<lambda>p. p_pid (pcbs s p) = pid) (a_procq a i))"
      unfolding rings_list_for_each [OF R L] foreach_p_list
      using foreach_find [where g = "\<lambda>i. i"] by (simp add: option.map_ident)
    then show ?thesis
      by (auto simp: finds_def find_None_iff find_Some_iff split: option.splits)
  qed
  then have "finds (blocked a) (\<lambda>q. p_pid (pcbs s q) = pid) (foreach ?f (a_asl a))"
    unfolding blocked_def by (rule finds_foreach)
  then show ?thesis
    unfolding searchBlockedByPid_def rings_list_for_each [OF R lists_of.simps(4)] foreach_s_link .
qed

lemma ready_search_finds:
  assumes "kwf s a"
  shows "finds (\<Union>r\<in>set (a_ready a). desc a r) (\<lambda>q. p_pid (pcbs s q) = pid)
    (list_for_each (links s) ReadyQueue (\<lambda>pos. Option.bind (container_of_p_list pos)
      (\<lambda>p. searchInTree (Some p) pid s)))"
proof -
  have "finds (\<Union>r\<in>set (a_ready a). desc a r) (\<lambda>q. p_pid (pcbs s q) = pid)
      (foreach (\<lambda>r. searchInTree (Some r) pid s) (a_ready a))"
    by (rule finds_foreach)
      (use searchInTree_finds [OF assms] wfD(1) [OF assms] in \<open>auto simp: wf_pcbs_def\<close>)
  then show ?thesis
    unfolding rings_list_for_each [OF wf_rings [OF assms] lists_of.simps(2)] foreach_p_list .
qed

text \<open>
  The three searches together cover every process: each one is running, ready or
  blocked.
\<close>

lemma findPcbByPid_finds:
  assumes "nucleus_inv s a"
  shows "finds (live a) (\<lambda>q. p_pid (pcbs s q) = pid) (findPcbByPid pid s)"
proof -
  note N = nucleus_invD [OF assms]
  let ?P = "\<lambda>q. p_pid (pcbs s q) = pid"
  let ?C = "\<Union>r\<in>set_option (currProc s). desc a r"
  let ?R = "\<Union>r\<in>set (a_ready a). desc a r"
  have C: "finds ?C ?P (if currProc s \<noteq> None then searchInTree (currProc s) pid s else Some None)"
    using searchInTree_finds [OF N(3)] current_not_blocked(1) [OF assms] by (cases "currProc s") auto
  note F = finds_then [OF C finds_then [OF ready_search_finds [OF N(3)] searchBlockedByPid_finds [OF N(3)]]]
  have sub: "?C \<union> (?R \<union> blocked a) \<subseteq> live a"
    using desc_live [OF N(3)] current_not_blocked(1) [OF assms] wfD(1) [OF N(3)]
    by (auto simp: wf_pcbs_def)
  have all: "q \<in> ?C \<union> (?R \<union> blocked a)" if "q \<in> live a" for q
    using ninvD(3) [OF N(1) that] desc_refl [of q a] by blast
  show ?thesis
    unfolding findPcbByPid_def using finds_subset [OF F sub all] by simp
qed

end
