(* ===== verification/Termination.thy ===== *)
theory Termination
  imports Search
begin

text \<open>
  terminateProcess of phase2/src/syscall.c ends and removes exactly the process and its
  descendants: from the ready queue, from the semaphores, from the tree and from the
  counters. The theorem needs that the semaphore address recorded in a PCB says whether
  the process is blocked (\<open>term_ok\<close>); the last section shows what happens when it does
  not, which the wake-up paths of the nucleus allow.
\<close>

section \<open>The effect\<close>

definition term_ok :: "kernel \<Rightarrow> phase1 \<Rightarrow> nat \<Rightarrow> bool" where
  "term_ok s a q \<longleftrightarrow>
    (if currProc s = Some q then detached a q else semAdd s q \<noteq> NULL \<longleftrightarrow> q \<in> blocked a)"

text \<open>The processes \<open>D\<close> are gone and nothing else has changed.\<close>

definition killed :: "platform \<Rightarrow> nat set \<Rightarrow> kernel \<Rightarrow> phase1 \<Rightarrow> kernel \<Rightarrow> phase1 \<Rightarrow> bool" where
  "killed pf D s a s' a' \<longleftrightarrow>
    D \<subseteq> live a \<and> live a' = live a - D \<and> blocked a' = blocked a - D \<and>
    a_ready a' = filter (\<lambda>q. q \<notin> D) (a_ready a) \<and>
    (\<forall>k. waiting s' a' k = filter (\<lambda>q. q \<notin> D) (waiting s a k)) \<and>
    (\<forall>q\<in>live a - D. a_child a' q = filter (\<lambda>c. c \<notin> D) (a_child a q)) \<and>
    (\<exists>l d b. s' = s\<lparr>links := l, semds := d, pcbs := b,
       currProc := (if \<exists>q\<in>D. currProc s = Some q then None else currProc s),
       processCount := processCount s - of_nat (card D),
       softBlock_count := softBlock_count s - of_nat (card (soft_blocked pf s a \<inter> D))\<rparr> \<and>
      (\<forall>q. b q = pcbs s q \<or> q \<in> D \<and> b q = (pcbs s q)\<lparr>p_parent := None\<rparr>))"

lemma killedD:
  assumes "killed pf D s a s' a'"
  shows "D \<subseteq> live a" "live a' = live a - D" "blocked a' = blocked a - D"
    "a_ready a' = filter (\<lambda>q. q \<notin> D) (a_ready a)"
    "waiting s' a' k = filter (\<lambda>q. q \<notin> D) (waiting s a k)"
    "q \<in> live a \<Longrightarrow> q \<notin> D \<Longrightarrow> a_child a' q = filter (\<lambda>c. c \<notin> D) (a_child a q)"
    "currProc s' = (if \<exists>q\<in>D. currProc s = Some q then None else currProc s)"
    "processCount s' = processCount s - of_nat (card D)"
    "softBlock_count s' = softBlock_count s - of_nat (card (soft_blocked pf s a \<inter> D))"
    "semAdd s' q = semAdd s q" "prio s' q = prio s q" "p_pid (pcbs s' q) = p_pid (pcbs s q)"
    "q \<notin> D \<Longrightarrow> pcbs s' q = pcbs s q" "ram s' = ram s" "states s' = states s"
proof -
  obtain l d b where s': "s' = s\<lparr>links := l, semds := d, pcbs := b,
       currProc := (if \<exists>q\<in>D. currProc s = Some q then None else currProc s),
       processCount := processCount s - of_nat (card D),
       softBlock_count := softBlock_count s - of_nat (card (soft_blocked pf s a \<inter> D))\<rparr>"
    and b: "\<And>q. b q = pcbs s q \<or> q \<in> D \<and> b q = (pcbs s q)\<lparr>p_parent := None\<rparr>"
    using assms unfolding killed_def by blast
  show "semAdd s' q = semAdd s q" "prio s' q = prio s q" "p_pid (pcbs s' q) = p_pid (pcbs s q)"
    "q \<notin> D \<Longrightarrow> pcbs s' q = pcbs s q" using b [of q] unfolding s' by auto
qed (use assms in \<open>auto simp: killed_def\<close>)

section \<open>One process\<close>

text \<open>Leaving the processor, the semaphore or the ready queue.\<close>

text \<open>How a process leaves its queue (the first part of the code for a leaf), the state after it, and what holds there.\<close>

abbreviation (input) leave :: "platform \<Rightarrow> nat \<Rightarrow> kernel \<Rightarrow> kernel option" where
  "leave pf p s \<equiv> (if currProc s = Some p then Some (s\<lparr>currProc := None\<rparr>)
     else if p_semAdd (pcbs s p) \<noteq> NULL then
       Option.bind (outBlocked p s) (\<lambda>(_, s). Some (if isDeviceSemaphore pf (p_semAdd (pcbs s p))
         then s\<lparr>softBlock_count := softBlock_count s - 1\<rparr> else s))
     else Option.bind (outProcQ ReadyQueue p s) (\<lambda>(_, s). Some s))"

abbreviation (input) left_state :: "platform \<Rightarrow> nat \<Rightarrow> kernel \<Rightarrow> phase1 \<Rightarrow> lnode links \<Rightarrow> (nat \<Rightarrow> semd_t) \<Rightarrow> kernel" where
  "left_state pf p s a l d \<equiv> s\<lparr>links := l, semds := d,
    currProc := (if currProc s = Some p then None else currProc s),
    softBlock_count := softBlock_count s - (if p \<in> soft_blocked pf s a then 1 else 0)\<rparr>"

definition left_queues :: "nat \<Rightarrow> kernel \<Rightarrow> phase1 \<Rightarrow> kernel \<Rightarrow> phase1 \<Rightarrow> bool" where
  "left_queues p s a s' a' \<longleftrightarrow> kwf s' a' \<and> detached a' p \<and> a_ready a' = filter (\<lambda>q. q \<noteq> p) (a_ready a) \<and>
    (\<forall>k. waiting s' a' k = filter (\<lambda>q. q \<noteq> p) (waiting s a k)) \<and> blocked a' = blocked a - {p} \<and>
    a_free a' = a_free a \<and> a_child a' = a_child a"

lemma filter_absent: "p \<notin> set xs \<Longrightarrow> filter (\<lambda>q. q \<noteq> p) xs = xs"
  by (simp add: filter_id_conv) metis

lemma leave_current:
  assumes "kwf s a" "currProc s = Some p" "detached a p"
  shows "leave pf p s = Some (left_state pf p s a (links s) (semds s)) \<and>
    left_queues p s a (left_state pf p s a (links s) (semds s)) a"
proof -
  have "p \<notin> set (waiting s a k)" for k
    using waiting_iff [OF assms(1)] assms(3) by (simp add: detached_def)
  moreover have "kwf (s\<lparr>currProc := None\<rparr>) a" using assms(1) by (subst wf_cong [where s = s]) simp_all
  moreover have "waiting (s\<lparr>currProc := None\<rparr>) a = waiting s a" by (rule waiting_frame) simp_all
  ultimately show ?thesis using assms(2,3)
    by (auto simp: left_queues_def filter_absent detached_def soft_blocked_def)
qed

lemma leave_blocked:
  assumes "kwf s a" "p \<in> live a" "currProc s \<noteq> Some p" "semAdd s p \<noteq> NULL" "p \<in> blocked a"
  shows "\<exists>l d a'. leave pf p s = Some (left_state pf p s a l d) \<and> left_queues p s a (left_state pf p s a l d) a'"
proof -
  obtain l d a' where o: "outBlocked p s = Some (Some p, s\<lparr>links := l, semds := d\<rparr>)"
    "kwf (s\<lparr>links := l, semds := d\<rparr>) a'"
    "waiting (s\<lparr>links := l, semds := d\<rparr>) a' =
      (waiting s a)(semAdd s p := remove1 p (waiting s a (semAdd s p)))"
    "blocked a' = blocked a - {p}" "a_free a' = a_free a" "a_ready a' = a_ready a" "a_child a' = a_child a"
    using outBlocked_eq [OF assms(1,5)] by blast
  let ?s = "s\<lparr>links := l, semds := d, softBlock_count := softBlock_count s -
      (if p \<in> soft_blocked pf s a then 1 else 0)\<rparr>"
  have r: "p \<notin> set (a_ready a)" using wf_disjoint(3) [OF assms(1)] assms(5) by blast
  have w: "waiting ?s a' k = filter (\<lambda>q. q \<noteq> p) (waiting s a k)" for k
  proof -
    have "waiting ?s a' = waiting (s\<lparr>links := l, semds := d\<rparr>) a'" by (rule waiting_frame) simp_all
    then have "waiting ?s a' k = (if k = semAdd s p then remove1 p (waiting s a k) else waiting s a k)"
      using o(3) by simp
    moreover have "p \<notin> set (waiting s a k)" if "k \<noteq> semAdd s p"
      using waiting_iff [OF assms(1)] that by simp
    ultimately show ?thesis
      using filter_eq_remove1 [OF waiting_distinct [OF assms(1)]] filter_absent by metis
  qed
  have "kwf ?s a'" using o(2) by (subst wf_cong [where s = "s\<lparr>links := l, semds := d\<rparr>"]) simp_all
  moreover have "detached a' p" using r o(4-6) assms(2) by (simp add: detached_def live_def)
  moreover have "p \<in> soft_blocked pf s a \<longleftrightarrow> isDeviceSemaphore pf (semAdd s p)"
    using assms(5) by (simp add: soft_blocked_def)
  ultimately show ?thesis
    using assms(3,4) o w r by (intro exI [of _ l] exI [of _ d] exI [of _ a']) (simp add: left_queues_def filter_absent)
qed

lemma leave_ready:
  assumes "kwf s a" "p \<in> live a" "currProc s \<noteq> Some p" "semAdd s p = NULL" "p \<notin> blocked a"
  shows "\<exists>l d a'. leave pf p s = Some (left_state pf p s a l d) \<and> left_queues p s a (left_state pf p s a l d) a'"
proof -
  obtain l where o: "outProcQ ReadyQueue p s = Some (if p \<in> set (a_ready a) then Some p else None, s\<lparr>links := l\<rparr>)"
    "kwf (s\<lparr>links := l\<rparr>) (a\<lparr>a_ready := remove1 p (a_ready a)\<rparr>)"
    using outProcQ_ready [OF assms(1)] by blast
  have f: "remove1 p (a_ready a) = filter (\<lambda>q. q \<noteq> p) (a_ready a)"
    using filter_eq_remove1 [OF wf_distinct(2) [OF assms(1)]] by simp
  have "p \<notin> set (waiting s a k)" for k using waiting_iff [OF assms(1)] assms(5) by simp
  moreover have "waiting (s\<lparr>links := l\<rparr>) (a\<lparr>a_ready := remove1 p (a_ready a)\<rparr>) = waiting s a"
    by (rule waiting_frame) simp_all
  ultimately show ?thesis
    using assms(2-) o unfolding f
    by (intro exI [of _ l] exI [of _ "semds s"] exI [of _ "a\<lparr>a_ready := filter (\<lambda>q. q \<noteq> p) (a_ready a)\<rparr>"])
      (simp add: left_queues_def filter_absent detached_def soft_blocked_def)
qed

lemma leave_queues:
  assumes "kwf s a" "p \<in> live a" "term_ok s a p"
  shows "\<exists>l d a'. leave pf p s = Some (left_state pf p s a l d) \<and> left_queues p s a (left_state pf p s a l d) a'"
proof -
  consider "currProc s = Some p" "detached a p"
    | "currProc s \<noteq> Some p" "semAdd s p \<noteq> NULL" "p \<in> blocked a"
    | "currProc s \<noteq> Some p" "semAdd s p = NULL" "p \<notin> blocked a"
    using assms(3) unfolding term_ok_def by (auto split: if_splits)
  then show ?thesis
    using leave_current [OF assms(1)] leave_blocked [OF assms(1,2)] leave_ready [OF assms(1,2)] by cases blast+
qed


text \<open>Leaving the parent.\<close>

lemma leave_parent:
  assumes "kwf s a" "p \<in> live a"
  shows "\<exists>l f. let s' = s\<lparr>links := l, pcbs := (pcbs s)(p := (pcbs s p)\<lparr>p_parent := None\<rparr>)\<rparr> in
    snd (outChild (Some p) s) = s' \<and> kwf s' (a\<lparr>a_child := f\<rparr>) \<and>
    (\<forall>q\<in>live a. f q = filter (\<lambda>c. c \<noteq> p) (a_child a q))"
proof -
  have T: "set (a_child a q) = {c \<in> live a. parent s c = Some q}" if "q \<in> live a" for q
    using wfD(3) [OF assms(1)] that unfolding wf_tree_def by blast
  have noop: "filter (\<lambda>c. c \<noteq> p) (a_child a q) = a_child a q" if "q \<in> live a" "parent s p \<noteq> Some q" for q
    using T [OF that(1)] that(2) by (auto simp: filter_id_conv)
  show ?thesis
  proof (cases "parent s p")
    case None
    have "(pcbs s p)\<lparr>p_parent := None\<rparr> = pcbs s p" using None by (cases "pcbs s p") simp
    then have eq: "s\<lparr>links := links s, pcbs := (pcbs s)(p := (pcbs s p)\<lparr>p_parent := None\<rparr>)\<rparr> = s" by simp
    have ea: "a\<lparr>a_child := a_child a\<rparr> = a" by simp
    show ?thesis
      unfolding Let_def
      by (rule exI [of _ "links s"], rule exI [of _ "a_child a"], unfold eq ea)
        (use None assms(1) noop in \<open>simp add: outChild_root\<close>)
  next
    case (Some q)
    have q: "q \<in> live a" using wfD(3) [OF assms(1)] assms(2) Some unfolding wf_tree_def by blast
    obtain l where l: "outChild (Some p) s =
        (Some p, s\<lparr>links := l, pcbs := (pcbs s)(p := (pcbs s p)\<lparr>p_parent := None\<rparr>)\<rparr>)"
      "kwf (s\<lparr>links := l, pcbs := (pcbs s)(p := (pcbs s p)\<lparr>p_parent := None\<rparr>)\<rparr>)
        (a\<lparr>a_child := (a_child a)(q := remove1 p (a_child a q))\<rparr>)"
      using outChild_eq [OF assms Some] by blast
    have "filter (\<lambda>c. c \<noteq> p) (a_child a q) = remove1 p (a_child a q)"
      by (rule filter_eq_remove1) (rule wf_distinct(6) [OF assms(1) q])
    then have f: "\<forall>r\<in>live a. ((a_child a)(q := remove1 p (a_child a q))) r = filter (\<lambda>c. c \<noteq> p) (a_child a r)"
      using noop Some by auto
    show ?thesis
      unfolding Let_def using l f
      by (intro exI [of _ l] exI [of _ "(a_child a)(q := remove1 p (a_child a q))"]) (simp del: fun_upd_apply)
  qed
qed

lemma left_killed:
  assumes "left_queues p s a (left_state pf p s a l d) a1" "p \<in> live a"
    and "\<And>q. q \<in> live a \<Longrightarrow> f q = filter (\<lambda>c. c \<noteq> p) (a_child a q)"
    and "s' = s\<lparr>links := l', semds := d, pcbs := (pcbs s)(p := (pcbs s p)\<lparr>p_parent := None\<rparr>),
        currProc := (if currProc s = Some p then None else currProc s), processCount := processCount s - 1,
        softBlock_count := softBlock_count s - (if p \<in> soft_blocked pf s a then 1 else 0)\<rparr>"
    and "a' = a1\<lparr>a_child := f, a_free := p # a_free a1\<rparr>"
  shows "killed pf {p} s a s' a'"
proof -
  note L = assms(1) [unfolded left_queues_def]
  have w: "waiting s' a' = waiting (left_state pf p s a l d) a1"
    by (rule waiting_frame) (simp_all add: assms(4,5))
  have lv: "live a' = live a - {p}" using L assms(2,5) by (auto simp: live_def)
  have bl: "blocked a' = blocked a - {p}" using L assms(5) by simp
  have "softBlock_count s - (if p \<in> soft_blocked pf s a then 1 else 0) =
    softBlock_count s - of_nat (card (soft_blocked pf s a \<inter> {p}))" by simp
  then have ex: "\<exists>l d b. s' = s\<lparr>links := l, semds := d, pcbs := b,
     currProc := (if \<exists>q\<in>{p}. currProc s = Some q then None else currProc s),
     processCount := processCount s - of_nat (card {p}),
     softBlock_count := softBlock_count s - of_nat (card (soft_blocked pf s a \<inter> {p}))\<rparr> \<and>
    (\<forall>q. b q = pcbs s q \<or> q \<in> {p} \<and> b q = (pcbs s q)\<lparr>p_parent := None\<rparr>)"
    by (intro exI [of _ l'] exI [of _ d] exI [of _ "(pcbs s)(p := (pcbs s p)\<lparr>p_parent := None\<rparr>)"])
      (simp add: assms(4))
  show ?thesis
    unfolding killed_def lv bl by (intro conjI ex) (use L assms(2,3,5) w in simp_all)
qed

lemma terminate_leaf_eq:
  assumes "kwf s a" "p \<in> live a" "a_child a p = []" "term_ok s a p"
  shows "\<exists>s' a'. terminate_leaf pf p s = Some s' \<and> kwf s' a' \<and> killed pf {p} s a s' a'"
proof -
  let ?s = "\<lambda>l d n. s\<lparr>links := l, semds := d, pcbs := (pcbs s)(p := (pcbs s p)\<lparr>p_parent := None\<rparr>),
        currProc := (if currProc s = Some p then None else currProc s), processCount := n,
        softBlock_count := softBlock_count s - (if p \<in> soft_blocked pf s a then 1 else 0)\<rparr>"
  let ?s1 = "left_state pf p s a"
  obtain l d a1 where l: "leave pf p s = Some (?s1 l d)" and L: "left_queues p s a (?s1 l d) a1"
    using leave_queues [OF assms(1,2,4), of pf] by blast
  have l': "kwf (?s1 l d) a1" "detached a1 p" "live a1 = live a" "a_child a1 = a_child a"
    using L by (simp_all add: left_queues_def live_def)
  have S: "(?s1 l d)\<lparr>links := m, pcbs := (pcbs (?s1 l d))(p := (pcbs (?s1 l d) p)\<lparr>p_parent := None\<rparr>)\<rparr> =
      ?s m d (processCount s)" for m by simp
  have "p \<in> live a1" using assms(2) l'(3) by simp
  from leave_parent [OF l'(1) this] obtain l2 f where
    l2: "snd (outChild (Some p) (?s1 l d)) = ?s l2 d (processCount s)"
    "kwf (?s l2 d (processCount s)) (a1\<lparr>a_child := f\<rparr>)"
    "\<And>q. q \<in> live a \<Longrightarrow> f q = filter (\<lambda>c. c \<noteq> p) (a_child a q)"
    unfolding Let_def S l'(3,4) by blast
  let ?s3 = "?s l2 d (processCount s - 1)"
  let ?a3 = "a1\<lparr>a_child := f, a_free := p # a_free a1\<rparr>"
  have k3: "kwf ?s3 (a1\<lparr>a_child := f\<rparr>)"
    using l2(2) by (subst wf_cong [where s = "?s l2 d (processCount s)"]) simp_all
  have "f p = []" using l2(3) [OF assms(2)] assms(3) by simp
  then have "kwf (freePcb p ?s3) ?a3"
    using freePcb_eq [OF k3, of p] l'(2) by (simp add: detached_def)
  moreover have "(?s l2 d (processCount s))\<lparr>processCount := processCount (?s l2 d (processCount s)) - 1\<rparr> = ?s3"
    by simp
  then have "terminate_leaf pf p s = Some (freePcb p ?s3)"
    unfolding terminate_leaf_def l Let_def bind.bind_lunit l2(1) by (rule arg_cong)
  moreover have "killed pf {p} s a (freePcb p ?s3) ?a3"
    by (rule left_killed [OF L assms(2) l2(3), of _ "list_add (P_list p) PcbFree_h l2"])
      (simp_all add: freePcb_def upd_links_def)
  ultimately show ?thesis by blast
qed


section \<open>Process trees\<close>

text \<open>Two terminations one after the other.\<close>

lemma killed_trans:
  assumes "killed pf D s a s1 a1" "killed pf E s1 a1 s2 a2"
  shows "killed pf (D \<union> E) s a s2 a2"
proof -
  note K = killedD [OF assms(1)] and L = killedD [OF assms(2)]
  have fin: "finite D" "finite E"
    using K(1) L(1) live_finite finite_subset by blast+
  have disj: "D \<inter> E = {}" using L(1) K(2) by auto
  have soft: "soft_blocked pf s1 a1 \<inter> E = soft_blocked pf s a \<inter> E"
    using K(3,10) disj by (auto simp: soft_blocked_def)
  have c1: "card (D \<union> E) = card D + card E" using fin disj by (rule card_Un_disjoint)
  have c2: "card (soft_blocked pf s a \<inter> (D \<union> E)) =
      card (soft_blocked pf s a \<inter> D) + card (soft_blocked pf s a \<inter> E)"
    using card_Un_disjoint [of "soft_blocked pf s a \<inter> D" "soft_blocked pf s a \<inter> E"] fin disj
    by (simp add: Int_Un_distrib inf_assoc inf_left_commute)
  obtain l1 d1 b1 where s1: "s1 = s\<lparr>links := l1, semds := d1, pcbs := b1,
       currProc := (if \<exists>q\<in>D. currProc s = Some q then None else currProc s),
       processCount := processCount s - of_nat (card D),
       softBlock_count := softBlock_count s - of_nat (card (soft_blocked pf s a \<inter> D))\<rparr>"
    "\<And>q. b1 q = pcbs s q \<or> q \<in> D \<and> b1 q = (pcbs s q)\<lparr>p_parent := None\<rparr>"
    using assms(1) unfolding killed_def by blast
  obtain l d b where s2: "s2 = s1\<lparr>links := l, semds := d, pcbs := b,
       currProc := (if \<exists>q\<in>E. currProc s1 = Some q then None else currProc s1),
       processCount := processCount s1 - of_nat (card E),
       softBlock_count := softBlock_count s1 - of_nat (card (soft_blocked pf s1 a1 \<inter> E))\<rparr>"
    "\<And>q. b q = pcbs s1 q \<or> q \<in> E \<and> b q = (pcbs s1 q)\<lparr>p_parent := None\<rparr>"
    using assms(2) unfolding killed_def by blast
  have cur: "(if \<exists>q\<in>E. currProc s1 = Some q then None else currProc s1) =
      (if \<exists>q\<in>D \<union> E. currProc s = Some q then None else currProc s)"
    using K(7) by auto
  have "s2 = s\<lparr>links := l, semds := d, pcbs := b,
       currProc := (if \<exists>q\<in>D \<union> E. currProc s = Some q then None else currProc s),
       processCount := processCount s - of_nat (card (D \<union> E)),
       softBlock_count := softBlock_count s - of_nat (card (soft_blocked pf s a \<inter> (D \<union> E)))\<rparr>"
    unfolding s2(1) cur soft c1 c2 by (simp add: s1(1) algebra_simps)
  moreover have "b q = pcbs s q \<or> q \<in> D \<union> E \<and> b q = (pcbs s q)\<lparr>p_parent := None\<rparr>" for q
    using s1(2) [of q] s2(2) [of q] unfolding s1(1) by auto
  moreover have "a_child a2 q = filter (\<lambda>c. c \<notin> D \<union> E) (a_child a q)" if "q \<in> live a - (D \<union> E)" for q
    using that K(2) K(6) [of q] L(6) [of q] by simp
  moreover have "waiting s2 a2 k = filter (\<lambda>q. q \<notin> D \<union> E) (waiting s a k)" for k
    using K(5) [of k] L(5) [of k] by simp
  ultimately show ?thesis
    unfolding killed_def using K(1-4) L(1-4) by (auto simp: conj_commute)
qed

text \<open>
  A termination of \<open>D\<close> after the child \<open>c\<close> of \<open>p\<close> in \<open>D\<close> was cut off with removeChild
  is a termination of \<open>D\<close> from the state before.
\<close>

lemma killed_cut:
  assumes "kwf s a" "p \<in> live a" "a_child a p = c # cs" "c \<in> D" "p \<notin> D"
    and "s1 = s\<lparr>links := l, pcbs := (pcbs s)(c := (pcbs s c)\<lparr>p_parent := None\<rparr>)\<rparr>"
    and "a1 = a\<lparr>a_child := (a_child a)(p := cs)\<rparr>" and "killed pf D s1 a1 s2 a2"
  shows "killed pf D s a s2 a2"
proof -
  note K = killedD [OF assms(8)]
  have w: "waiting s1 a1 = waiting s a" by (rule waiting_frame) (simp_all add: assms(6,7))
  have soft: "soft_blocked pf s1 a1 = soft_blocked pf s a"
    by (auto simp: soft_blocked_def assms(6,7))
  obtain l d b where s2: "s2 = s1\<lparr>links := l, semds := d, pcbs := b,
       currProc := (if \<exists>q\<in>D. currProc s1 = Some q then None else currProc s1),
       processCount := processCount s1 - of_nat (card D),
       softBlock_count := softBlock_count s1 - of_nat (card (soft_blocked pf s1 a1 \<inter> D))\<rparr>"
    "\<And>q. b q = pcbs s1 q \<or> q \<in> D \<and> b q = (pcbs s1 q)\<lparr>p_parent := None\<rparr>"
    using assms(8) unfolding killed_def by blast
  have "s2 = s\<lparr>links := l, semds := d, pcbs := b,
       currProc := (if \<exists>q\<in>D. currProc s = Some q then None else currProc s),
       processCount := processCount s - of_nat (card D),
       softBlock_count := softBlock_count s - of_nat (card (soft_blocked pf s a \<inter> D))\<rparr>"
    unfolding s2(1) soft by (simp add: assms(6))
  moreover have "b q = pcbs s q \<or> q \<in> D \<and> b q = (pcbs s q)\<lparr>p_parent := None\<rparr>" for q
    using s2(2) [of q] assms(4) by (auto simp: assms(6) split: if_splits)
  moreover have "a_child a2 q = filter (\<lambda>c. c \<notin> D) (a_child a q)" if "q \<in> live a - D" for q
    using that K(6) [of q] assms(3,4) by (auto simp: assms(7) split: if_splits)
  moreover have "waiting s2 a2 k = filter (\<lambda>q. q \<notin> D) (waiting s a k)" for k
    using K(5) [of k] w by simp
  ultimately show ?thesis
    unfolding killed_def using K(1-4) by (auto simp: assms(7))
qed

lemma term_ok_frame:
  assumes "term_ok s a q" "q \<notin> D" "killed pf D s a s' a'"
  shows "term_ok s' a' q"
  using assms(1,2) killedD(1-4,7) [OF assms(3)] killedD(10) [OF assms(3), of q]
  unfolding term_ok_def detached_def by (auto split: if_splits)

lemma terminateProcess_eq:
  assumes "kwf s a" "p \<in> live a" "\<And>q. q \<in> desc a p \<Longrightarrow> term_ok s a q"
  shows "\<exists>s' a'. terminateProcess pf (Some p) s = Some s' \<and> kwf s' a' \<and> killed pf (desc a p) s a s' a'"
  using assms
proof (induction "card (desc a p)" arbitrary: p s a rule: less_induct)
  case less
  note W = less.prems(1) and P = less.prems(2)
  show ?case
  proof (cases "a_child a p")
    case Nil
    have "terminateProcess pf (Some p) s = terminate_leaf pf p s"
      using Nil by (subst terminateProcess.simps) (simp add: emptyChild_eq [OF W P])
    then show ?thesis
      using terminate_leaf_eq [OF W P Nil] less.prems(3) [OF desc_refl] desc_leaf [OF Nil] by simp
  next
    case (Cons c cs)
    have c: "c \<in> set (a_child a p)" using Cons by simp
    let ?D = "desc a c"
    let ?s1 = "\<lambda>l. s\<lparr>links := l, pcbs := (pcbs s)(c := (pcbs s c)\<lparr>p_parent := None\<rparr>)\<rparr>"
    let ?a1 = "a\<lparr>a_child := (a_child a)(p := cs)\<rparr>"
    obtain l where l: "removeChild (Some p) s = Some (Some c, ?s1 l)" "kwf (?s1 l) ?a1"
      using removeChild_Cons [OF W P Cons] by blast
    have D1: "desc ?a1 c = ?D" by (rule desc_cut [OF W P Cons]) simp_all
    have sub: "?D \<subset> desc a p" by (rule desc_child_subset [OF W P c])
    have fin: "finite (desc a p)" by (rule desc_finite [OF W P])
    have p: "p \<notin> ?D" by (rule not_desc_child [OF W P c])
    have ok1: "term_ok (?s1 l) ?a1 q" if "q \<in> ?D" for q
      using less.prems(3) [of q] that sub by (auto simp: term_ok_def detached_def)
    have "c \<in> live ?a1" using child_live(1) [OF W P c] by simp
    from less.hyps [OF _ l(2) this, unfolded D1, OF psubset_card_mono [OF fin sub] ok1]
    obtain s2 a2 where t: "terminateProcess pf (Some c) (?s1 l) = Some s2" "kwf s2 a2"
      "killed pf ?D (?s1 l) ?a1 s2 a2" by blast
    have k: "killed pf ?D s a s2 a2"
      by (rule killed_cut [OF W P Cons desc_refl p refl refl t(3)])
    note K = killedD [OF k]
    have D2: "desc a2 p = desc a p - ?D"
      by (rule desc_prune [OF W P c refl K(2)]) (use K(6) in simp)
    have lt: "card (desc a2 p) < card (desc a p)"
      unfolding D2 by (rule psubset_card_mono [OF fin]) (use desc_refl [of c a] sub in blast)
    have "p \<in> live a2" using K(2) P p by simp
    moreover have "term_ok s2 a2 q" if "q \<in> desc a2 p" for q
      using term_ok_frame [OF _ _ k, of q] less.prems(3) [of q] that unfolding D2 by simp
    ultimately obtain s3 a3 where u: "terminateProcess pf (Some p) s2 = Some s3" "kwf s3 a3"
      "killed pf (desc a2 p) s2 a2 s3 a3"
      using less.hyps [OF lt t(2)] by blast
    have "?D \<union> desc a2 p = desc a p" using D2 sub by auto
    then have "killed pf (desc a p) s a s3 a3" using killed_trans [OF k u(3)] by simp
    moreover have "terminateProcess pf (Some p) s = Some s3"
      using Cons by (subst terminateProcess.simps) (simp add: emptyChild_eq [OF W P] l(1) t(1) u(1))
    ultimately show ?thesis using u(2) by blast
  qed
qed


section \<open>The service\<close>

lemma killed_ninv:
  assumes "nucleus_inv s a" "kwf s' a'" "killed pf D s a s' a'"
  shows "ninv (set_option (currProc s) - D) s' a'" "count_ok s' a'"
    "soft_ok pf s a \<Longrightarrow> soft_ok pf s' a'"
proof -
  note N = nucleus_invD [OF assms(1)] and K = killedD [OF assms(3)]
  have fin: "finite D" using K(1) live_finite finite_subset by blast
  have "prio_sorted (prio s') (a_ready a')"
    unfolding K(4) K(11) by (rule prio_sorted_filter [OF ninvD(4) [OF N(1)]])
  then show "ninv (set_option (currProc s) - D) s' a'"
    using assms(2) ninvD(2,3) [OF N(1)] unfolding ninv_def detached_def K(2-4) by auto
  have "card D \<le> card (live a)" using K(1) by (rule card_mono [OF live_finite])
  then show "count_ok s' a'"
    using N(2) K(8) card_Diff_subset [OF fin K(1)] by (simp add: count_ok_def K(2) of_nat_diff)
  have "soft_blocked pf s' a' = soft_blocked pf s a - (soft_blocked pf s a \<inter> D)"
    using K(3,10) by (auto simp: soft_blocked_def)
  then have "card (soft_blocked pf s' a') = card (soft_blocked pf s a) - card (soft_blocked pf s a \<inter> D)"
    using card_Diff_subset [of "soft_blocked pf s a \<inter> D" "soft_blocked pf s a"] fin by auto
  moreover have "card (soft_blocked pf s a \<inter> D) \<le> card (soft_blocked pf s a)"
    by (rule card_mono [OF soft_blocked_card(1) [OF N(3)]]) simp
  ultimately show "soft_ok pf s' a'" if "soft_ok pf s a"
    using that K(9) by (simp add: soft_ok_def of_nat_diff)
qed

text \<open>What a termination followed by dispatch leaves when the running process is among \<open>D\<close>.\<close>

definition terminated :: "nat set \<Rightarrow> kernel \<Rightarrow> phase1 \<Rightarrow> kernel \<Rightarrow> phase1 \<Rightarrow> bool" where
  "terminated D s a s' a' \<longleftrightarrow>
    live a' = live a - D \<and> blocked a' = blocked a - D \<and>
    a_ready a' = tl (filter (\<lambda>q. q \<notin> D) (a_ready a)) \<and>
    currProc s' = (case filter (\<lambda>q. q \<notin> D) (a_ready a) of [] \<Rightarrow> None | q # _ \<Rightarrow> Some q) \<and>
    (\<forall>k. waiting s' a' k = filter (\<lambda>q. q \<notin> D) (waiting s a k)) \<and>
    (\<forall>q\<in>live a - D. pcbs s' q = pcbs s q \<and> a_child a' q = filter (\<lambda>c. c \<notin> D) (a_child a q)) \<and>
    ram s' = ram s \<and> states s' = states s"

lemma terminate_dispatch:
  assumes "nucleus_inv s a" "p \<in> live a" "\<And>q. q \<in> desc a p \<Longrightarrow> term_ok s a q"
    and "set_option (currProc s) \<subseteq> desc a p"
  shows "\<exists>s1 e s' a'. terminateProcess pf (Some p) s = Some s1 \<and> dispatch s1 = Some (e, s') \<and>
    nucleus_inv s' a' \<and> (soft_ok pf s a \<longrightarrow> soft_ok pf s' a') \<and> terminated (desc a p) s a s' a'"
proof -
  obtain s1 a1 where t: "terminateProcess pf (Some p) s = Some s1" "kwf s1 a1"
    "killed pf (desc a p) s a s1 a1"
    using terminateProcess_eq [OF nucleus_invD(3) [OF assms(1)] assms(2,3)] by blast
  note K = killedD [OF t(3)] and N = killed_ninv [OF assms(1) t(2,3)]
  have n: "ninv {} s1 a1" using N(1) assms(4) by (simp add: Diff_eq_empty_iff [THEN iffD2])
  have "currProc s1 = None" using K(7) assms(4) by (cases "currProc s") auto
  then obtain e s' where d: "dispatch s1 = Some (e, s')" "nucleus_inv s' (a1\<lparr>a_ready := tl (a_ready a1)\<rparr>)"
    "softBlock_count s' = softBlock_count s1" "pcbs s' = pcbs s1" "semds s' = semds s1"
    "ram s' = ram s1" "states s' = states s1"
    "currProc s' = (case a_ready a1 of [] \<Rightarrow> None | p # _ \<Rightarrow> Some p)"
    using dispatch_inv [OF n N(2)] by blast
  let ?a = "a1\<lparr>a_ready := tl (a_ready a1)\<rparr>"
  have w: "waiting s' ?a = waiting s1 a1" by (rule waiting_frame) (simp_all add: d(5))
  have "terminated (desc a p) s a s' ?a"
    unfolding terminated_def w using K(2-6,13-15) d(4,6-8) by simp
  moreover have "soft_ok pf s' ?a" if "soft_ok pf s a"
    by (rule soft_ok_frame [OF N(3) [OF that]]) (simp_all add: d(3,4))
  ultimately show ?thesis using t(1) d(1,2) by blast
qed

lemma nsys2_self:
  assumes "nucleus_inv s a" "currProc s = Some p" "\<And>q. q \<in> desc a p \<Longrightarrow> term_ok s a q"
  shows "\<exists>e s' a'. nsys2 pf 0 excState s = Some (e, s') \<and> nucleus_inv s' a' \<and>
    (soft_ok pf s a \<longrightarrow> soft_ok pf s' a') \<and> terminated (desc a p) s a s' a'"
  using terminate_dispatch [OF assms(1) current_not_blocked(1) [OF assms(1,2)] assms(3), of pf] assms(2)
  by (auto simp: nsys2_def)

lemma nsys2_unknown:
  assumes "nucleus_inv s a" "pid \<noteq> 0" "\<And>q. q \<in> live a \<Longrightarrow> p_pid (pcbs s q) \<noteq> pid"
  shows "nsys2 pf pid excState s = (let s' = upd_state excState (set_a0 pf NOPROC) s
    in Some (LDST (states s' excState), s'))"
proof -
  have "findPcbByPid pid s = Some None"
    by (rule findsE [OF findPcbByPid_finds [OF assms(1)]]) (use assms(3) in auto)
  then show ?thesis using assms(2) by (simp add: nsys2_def)
qed

lemma findPcbByPid_unique:
  assumes "nucleus_inv s a" "p \<in> live a" "inj_on (\<lambda>q. p_pid (pcbs s q)) (live a)"
  shows "findPcbByPid (p_pid (pcbs s p)) s = Some (Some p)"
  by (rule findsE [OF findPcbByPid_finds [OF assms(1)]]) (use assms(2,3) in \<open>auto dest: inj_onD\<close>)

lemma nsys2_other:
  assumes "nucleus_inv s a" "p \<in> live a" "inj_on (\<lambda>q. p_pid (pcbs s q)) (live a)" "p_pid (pcbs s p) \<noteq> 0"
  shows "nsys2 pf (p_pid (pcbs s p)) excState s =
    Option.bind (terminateProcess pf (Some p) s) dispatch"
  using findPcbByPid_unique [OF assms(1-3)] assms(4) by (simp add: nsys2_def)

section \<open>Where the service fails\<close>

text \<open>
  A ready process whose PCB still records a semaphore is taken for a blocked one: it
  stays linked in the ready queue when its PCB goes to the free list.
\<close>

lemma terminate_stale_corrupts:
  assumes "kwf s a" "a_ready a = p # q" "semAdd s p \<noteq> NULL" "a_child a p = []" "currProc s \<noteq> Some p"
  shows "\<exists>s'. terminateProcess pf (Some p) s = Some s' \<and> (\<forall>a'. \<not> kwf s' a')"
proof -
  have p: "p \<in> live a" "p \<notin> blocked a"
    using wfD(1) [OF assms(1)] wf_disjoint(3) [OF assms(1)] assms(2) by (auto simp: wf_pcbs_def)
  let ?s1 = "if isDeviceSemaphore pf (p_semAdd (pcbs s p))
    then s\<lparr>softBlock_count := softBlock_count s - 1\<rparr> else s"
  have k1: "kwf ?s1 a" using assms(1) by (subst wf_cong [where s = s]) simp_all
  obtain l f b where l: "snd (outChild (Some p) ?s1) = ?s1\<lparr>links := l, pcbs := b\<rparr>"
    "kwf (?s1\<lparr>links := l, pcbs := b\<rparr>) (a\<lparr>a_child := f\<rparr>)"
    using leave_parent [OF k1 p(1)] unfolding Let_def by blast
  have n: "nxt l ReadyQueue = P_list p"
    using rings_nxt [OF wf_rings [OF l(2)] lists_of.simps(2)] assms(2) by simp
  let ?s2 = "freePcb p (?s1\<lparr>links := l, pcbs := b,
    processCount := processCount (?s1\<lparr>links := l, pcbs := b\<rparr>) - 1\<rparr>)"
  have "terminateProcess pf (Some p) s = terminate_leaf pf p s"
    using assms(4) by (subst terminateProcess.simps) (simp add: emptyChild_eq [OF assms(1) p(1)])
  also have "\<dots> = Some ?s2"
    using assms(3,5) l(1) by (simp add: terminate_leaf_def outBlocked_other [OF assms(1) p(2)])
  finally have t: "terminateProcess pf (Some p) s = Some ?s2" .
  have l2: "links ?s2 = list_add (P_list p) PcbFree_h l" by (simp add: freePcb_def)
  have "nxt (links ?s2) ReadyQueue = P_list p" "prv (links ?s2) (P_list p) = PcbFree_h"
    unfolding l2 by (simp_all add: list_add_def links_simps n)
  moreover have False if k: "kwf ?s2 a'" "nxt (links ?s2) ReadyQueue = P_list p"
    "prv (links ?s2) (P_list p) = PcbFree_h" for a'
  proof -
    have R: "ring (links ?s2) ReadyQueue ([] @ map P_list (a_ready a'))"
      using rings_ring [OF wf_rings [OF k(1)] lists_of.simps(2)] by simp
    have "hd (map P_list (a_ready a') @ [ReadyQueue]) = P_list p" using ring_cut(1) [OF R] k(2) by simp
    then show False using ring_cut(2) [OF R] k(3) by simp
  qed
  ultimately show ?thesis using t by blast
qed


text \<open>Waking a process with V and then terminating it is enough.\<close>

lemma wake_terminate_corrupts:
  assumes "nucleus_inv s a" "waiting s a k = p # q" "k \<noteq> NULL" "a_ready a = []" "a_child a p = []"
  shows "\<exists>s1 s2. nsys4 k s = Some s1 \<and> terminateProcess pf (Some p) s1 = Some s2 \<and> (\<forall>a'. \<not> kwf s2 a')"
proof -
  obtain l d a' where w: "nsys4 k s = Some (s\<lparr>links := l, semds := d\<rparr>)"
    "nucleus_inv (s\<lparr>links := l, semds := d\<rparr>) a'" "woken k p s a (s\<lparr>links := l, semds := d\<rparr>) a'"
    using nsys4_wakes [OF assms(1,2)] by blast
  have p: "p \<in> blocked a" "semAdd s p = k"
    using waiting_iff [OF nucleus_invD(3) [OF assms(1)], of p k] assms(2) by simp_all
  then have "currProc s \<noteq> Some p" using current_not_blocked(2) [OF assms(1)] by blast
  then have "\<exists>s'. terminateProcess pf (Some p) (s\<lparr>links := l, semds := d\<rparr>) = Some s' \<and> (\<forall>a'. \<not> kwf s' a')"
    by (intro terminate_stale_corrupts [OF nucleus_invD(3) [OF w(2)], of p "[]"])
      (use w(3) assms(3-5) p in \<open>simp_all add: woken_def\<close>)
  then show ?thesis using w(1) by blast
qed

text \<open>
  Terminating another process: the caller is neither put back into the ready queue nor
  resumed. With another process ready, that one runs and the caller is in no queue.
\<close>

lemma nsys2_loses_caller:
  assumes "nucleus_inv s a" "currProc s = Some c" "p \<in> live a" "c \<notin> desc a p"
    and "inj_on (\<lambda>q. p_pid (pcbs s q)) (live a)" "p_pid (pcbs s p) \<noteq> 0"
    and "\<And>q. q \<in> desc a p \<Longrightarrow> term_ok s a q"
    and "filter (\<lambda>q. q \<notin> desc a p) (a_ready a) = r # rs"
  shows "\<exists>e s' a'. nsys2 pf (p_pid (pcbs s p)) excState s = Some (e, s') \<and> kwf s' a' \<and>
    currProc s' = Some r \<and> r \<noteq> c \<and> detached a' c"
proof -
  obtain s1 a1 where t: "terminateProcess pf (Some p) s = Some s1" "kwf s1 a1"
    "killed pf (desc a p) s a s1 a1"
    using terminateProcess_eq [OF nucleus_invD(3) [OF assms(1)] assms(3,7)] by blast
  note K = killedD [OF t(3)]
  have "a_ready a1 = r # rs" using K(4) assms(8) by simp
  from dispatch_Cons [OF t(2) this] obtain l where
    d: "dispatch s1 = Some (LDST (p_s (pcbs s1 r)), s1\<lparr>links := l, currProc := Some r,
      cpu_timer := TIMESLICE * ram s1 TIMESCALEADDR, tod_start := tod s1\<rparr>)"
    "kwf (s1\<lparr>links := l\<rparr>) (a1\<lparr>a_ready := rs\<rparr>)" by blast
  let ?s = "s1\<lparr>links := l, currProc := Some r, cpu_timer := TIMESLICE * ram s1 TIMESCALEADDR, tod_start := tod s1\<rparr>"
  have "kwf ?s (a1\<lparr>a_ready := rs\<rparr>)" using d(2) by (subst wf_cong [where s = "s1\<lparr>links := l\<rparr>"]) simp_all
  moreover have "r \<in> set (a_ready a)" "set rs \<subseteq> set (a_ready a)"
    using filter_is_subset [of "\<lambda>q. q \<notin> desc a p" "a_ready a"] unfolding assms(8) by auto
  then have "r \<noteq> c" "detached (a1\<lparr>a_ready := rs\<rparr>) c"
    using current_not_blocked [OF assms(1,2)] K(2,3) assms(4) by (auto simp: detached_def)
  ultimately show ?thesis
    using nsys2_other [OF assms(1,3,5,6), of pf excState] t(1) d(1) by auto
qed

text \<open>With no other process ready and none waiting for a device, the system panics.\<close>

lemma nsys2_panics:
  assumes "nucleus_inv s a" "soft_ok pf s a" "currProc s = Some c" "p \<in> live a" "c \<notin> desc a p"
    and "inj_on (\<lambda>q. p_pid (pcbs s q)) (live a)" "p_pid (pcbs s p) \<noteq> 0"
    and "\<And>q. q \<in> desc a p \<Longrightarrow> term_ok s a q"
    and "set (a_ready a) \<subseteq> desc a p" "soft_blocked pf s a \<subseteq> desc a p"
  shows "\<exists>s'. nsys2 pf (p_pid (pcbs s p)) excState s = Some (PANIC, s')"
proof -
  obtain s1 a1 where t: "terminateProcess pf (Some p) s = Some s1" "kwf s1 a1"
    "killed pf (desc a p) s a s1 a1"
    using terminateProcess_eq [OF nucleus_invD(3) [OF assms(1)] assms(4,8)] by blast
  note K = killedD [OF t(3)] and N = killed_ninv [OF assms(1) t(2,3)]
  have "a_ready a1 = []" using K(4) assms(9) by (auto simp: filter_empty_conv)
  then have e: "emptyProcQ ReadyQueue s1" using emptyProcQ_ready [OF t(2)] by simp
  have "c \<in> live a1" using current_not_blocked(1) [OF assms(1,3)] K(2) assms(5) by simp
  then have "processCount s1 \<noteq> 0" using live_empty_iff [OF N(2)] by blast
  moreover have "soft_blocked pf s1 a1 = {}"
    using K(3,10) assms(10) by (auto simp: soft_blocked_def)
  then have "softBlock_count s1 = 0" using N(3) [OF assms(2)] by (simp add: soft_ok_def)
  ultimately have "dispatch s1 = Some (PANIC, s1)" using e by (simp add: dispatch_def)
  then show ?thesis using nsys2_other [OF assms(1,4,6,7), of pf excState] t(1) by simp
qed

end
