(* ===== verification/Nucleus.thy ===== *)
theory Nucleus
  imports Termination
begin

text \<open>
  The nucleus as a whole: every admissible exception is handled without undefined
  behaviour and keeps the invariant, and so every reachable state has it.
\<close>

section \<open>Admissible exceptions\<close>

text \<open>
  What the handlers rely on. A process tree can be terminated when the PCBs in it say
  truly whether they are blocked and when it contains the running process (terminating
  another tree loses the caller). The processor local timer interrupts a running
  process, and so does every exception that is not an interrupt. P and V are used on
  semaphores other than those of the devices, and DoIO on a device register.
\<close>

definition can_terminate :: "kernel \<Rightarrow> phase1 \<Rightarrow> nat \<Rightarrow> bool" where
  "can_terminate s a p \<longleftrightarrow> (\<forall>q\<in>desc a p. term_ok s a q) \<and> set_option (currProc s) \<subseteq> desc a p"

definition trap_ok :: "kernel \<Rightarrow> phase1 \<Rightarrow> nat \<Rightarrow> bool" where
  "trap_ok s a p \<longleftrightarrow> (p_supportStruct (pcbs s p) = NULL \<longrightarrow> can_terminate s a p)"

definition request_ok :: "platform \<Rightarrow> kernel \<Rightarrow> phase1 \<Rightarrow> nat \<Rightarrow> u32 \<Rightarrow> u32 \<Rightarrow> bool" where
  "request_ok pf s a p n a1 \<longleftrightarrow>
    (n = - 2 \<longrightarrow> (if a1 = 0 then can_terminate s a p
                 else \<forall>q\<in>live a. p_pid (pcbs s q) = a1 \<longrightarrow> can_terminate s a q)) \<and>
    (n = - 3 \<or> n = - 4 \<longrightarrow> \<not> isDeviceSemaphore pf a1) \<and>
    (n = - 5 \<longrightarrow> device_sem_at pf (nsys5_index pf a1) \<noteq> None)"

text \<open>A request for a service of the nucleus: a syscall -1 to -10 in kernel mode.\<close>

definition is_nsys :: "platform \<Rightarrow> state_t \<Rightarrow> bool" where
  "is_nsys pf st \<longleftrightarrow> - 10 \<le> sint (gpr st (gpr_a0 pf)) \<and> sint (gpr st (gpr_a0 pf)) \<le> - 1 \<and>
    MSTATUS_MPP_MASK AND status st \<noteq> MSTATUS_MPP_U"

definition admissible :: "platform \<Rightarrow> kernel \<Rightarrow> phase1 \<Rightarrow> bool" where
  "admissible pf s a \<longleftrightarrow>
    (let st = states s (getCurrExceptionState pf); c = cause st AND CAUSE_EXCCODE_MASK pf
     in if CAUSE_IS_INT pf (cause st) then c = IL_CPUTIMER \<longrightarrow> currProc s \<noteq> None
        else (case currProc s of
                None \<Rightarrow> False
              | Some p \<Rightarrow>
                  (if (c = 8 \<or> c = 11) \<and> is_nsys pf st
                   then request_ok pf s a p (gpr st (gpr_a0 pf)) (gpr st (gpr_a1 pf))
                   else trap_ok s a p)))"

section \<open>The handlers\<close>

lemma sys_invD:
  assumes "sys_inv pf s a"
  shows "nucleus_inv s a" "soft_ok pf s a" "kwf s a"
  using assms nucleus_invD(3) by (auto simp: sys_inv_def)

lemma nsys2_self_sys_inv:
  assumes "sys_inv pf s a" "currProc s = Some p" "can_terminate s a p"
  shows "\<exists>e s' a'. nsys2 pf 0 excState s = Some (e, s') \<and> sys_inv pf s' a'"
proof -
  have "\<And>q. q \<in> desc a p \<Longrightarrow> term_ok s a q" using assms(3) by (simp add: can_terminate_def)
  from nsys2_self [OF sys_invD(1) [OF assms(1)] assms(2) this, of pf excState] show ?thesis
    using sys_invD(2) [OF assms(1)] by (auto simp: sys_inv_def)
qed

lemma passUpOrDie_sys_inv:
  assumes "sys_inv pf s a" "currProc s = Some p" "trap_ok s a p"
  shows "\<exists>e s' a'. passUpOrDie pf i s = Some (e, s') \<and> sys_inv pf s' a'"
proof (cases "p_supportStruct (pcbs s p) = NULL")
  case True
  then show ?thesis
    using nsys2_self_sys_inv [OF assms(1,2)] assms(2,3) by (simp add: passUpOrDie_def trap_ok_def)
next
  case False
  have "sys_inv pf (s\<lparr>supports := m\<rparr>) a" for m
    by (rule sys_inv_frame [OF assms(1)]) simp_all
  then show ?thesis using False assms(2) by (simp add: passUpOrDie_def Let_def) blast
qed

lemma nsys1_sys_inv:
  assumes "sys_inv pf s a" "currProc s = Some q"
  shows "\<exists>r s' a'. nsys1 pf a1 a2 a3 s = Some (r, s') \<and> sys_inv pf s' a'"
proof (cases "a_free a")
  case Nil
  then show ?thesis using nsys1_full [OF sys_invD(3) [OF assms(1)] Nil] assms(1) by blast
next
  case (Cons p f)
  from nsys1_creates [OF sys_invD(1) [OF assms(1)] assms(2) Cons, of pf a1 a2 a3] obtain s' where
    c: "nsys1 pf a1 a2 a3 s = Some (next_pid s, s')" "nucleus_inv s' (created s' q p a)"
      "softBlock_count s' = softBlock_count s" "\<And>r. r \<noteq> p \<Longrightarrow> pcbs s' r = pcbs s r"
    by (auto simp: Let_def)
  have p: "p \<notin> blocked a"
    using wfD(1) [OF sys_invD(3) [OF assms(1)]] live_alloc(2) [OF sys_invD(3) [OF assms(1)] Cons]
    by (auto simp: wf_pcbs_def)
  have b: "blocked (created s' q p a) = blocked a" by (simp add: created_def)
  have "isDeviceSemaphore pf (semAdd s' r) = isDeviceSemaphore pf (semAdd s r)" if "r \<in> blocked a" for r
  proof -
    have "r \<noteq> p" using that p by blast
    then show ?thesis using c(4) by simp
  qed
  then have "soft_blocked pf s' (created s' q p a) = soft_blocked pf s a"
    unfolding soft_blocked_def b by auto
  then have "soft_ok pf s' (created s' q p a)"
    using sys_invD(2) [OF assms(1)] c(3) by (simp add: soft_ok_def)
  then show ?thesis using c(1,2) by (auto simp: sys_inv_def)
qed

lemma nsys2_sys_inv:
  assumes "sys_inv pf s a" "currProc s = Some p" "request_ok pf s a p (- 2) a1"
  shows "\<exists>e s' a'. nsys2 pf a1 excState s = Some (e, s') \<and> sys_inv pf s' a'"
proof (cases "a1 = 0")
  case True
  then show ?thesis
    using nsys2_self_sys_inv [OF assms(1,2)] assms(3) by (simp add: request_ok_def)
next
  case False
  note N = sys_invD [OF assms(1)]
  show ?thesis
  proof (rule findsE [OF findPcbByPid_finds [OF N(1), of a1]])
    assume n: "findPcbByPid a1 s = Some None"
    have "sys_inv pf (upd_state excState (set_a0 pf NOPROC) s) a"
      by (rule sys_inv_frame [OF assms(1)]) (simp_all add: upd_state_def)
    then show ?thesis using n False by (auto simp: nsys2_def Let_def)
  next
    fix q
    assume q: "findPcbByPid a1 s = Some (Some q)" "q \<in> live a" "p_pid (pcbs s q) = a1"
    then have t: "can_terminate s a q" using assms(3) False by (simp add: request_ok_def)
    then have "\<And>r. r \<in> desc a q \<Longrightarrow> term_ok s a r" "set_option (currProc s) \<subseteq> desc a q"
      by (simp_all add: can_terminate_def)
    from terminate_dispatch [OF N(1) q(2) this, of pf] show ?thesis
      using q(1) False N(2) by (auto simp: nsys2_def sys_inv_def)
  qed
qed

lemma nsys3_sys_inv:
  assumes "sys_inv pf s a" "currProc s = Some p" "\<not> isDeviceSemaphore pf k"
  shows "\<exists>e s' a'. nsys3 pf k excState s = Some (e, s') \<and> sys_inv pf s' a'"
proof (cases "0 < sint (ram s k)")
  case True
  have "sys_inv pf (s\<lparr>ram := r\<rparr>) a" for r by (rule sys_inv_frame [OF assms(1)]) simp_all
  then show ?thesis using nsys3_takes [OF True, of pf excState] by auto
next
  case False
  from nsys3_blocks [OF sys_invD(1) [OF assms(1)] assms(2) False, of pf excState] show ?thesis
    using blocked_on_sys_inv [OF assms(1,2)] assms(3) by fastforce
qed

lemma nsys4_sys_inv:
  assumes "sys_inv pf s a" "\<not> isDeviceSemaphore pf k"
  shows "\<exists>s' a'. nsys4 k s = Some s' \<and> sys_inv pf s' a'"
proof (cases "waiting s a k")
  case Nil
  have "sys_inv pf (s\<lparr>ram := r\<rparr>) a" for r by (rule sys_inv_frame [OF assms(1)]) simp_all
  then show ?thesis using nsys4_increments [OF sys_invD(3) [OF assms(1)] Nil] by auto
next
  case (Cons p q)
  from nsys4_wakes [OF sys_invD(1) [OF assms(1)] Cons] obtain l d a' where
    w: "nsys4 k s = Some (s\<lparr>links := l, semds := d\<rparr>)" "nucleus_inv (s\<lparr>links := l, semds := d\<rparr>) a'"
      "woken k p s a (s\<lparr>links := l, semds := d\<rparr>) a'" by blast
  have "sys_inv pf (s\<lparr>links := l, semds := d\<rparr>) a'"
    by (rule woken_sys_inv [OF assms(1) w(2,3) Cons]) (simp_all add: assms(2))
  then show ?thesis using w(1) by blast
qed

lemma nsys5_sys_inv:
  assumes "platform_ok pf" "sys_inv pf s a" "currProc s = Some p"
    and "device_sem_at pf (nsys5_index pf a1) \<noteq> None"
  shows "\<exists>e s' a'. nsys5 pf a1 a2 excState s = Some (e, s') \<and> sys_inv pf s' a'"
proof -
  obtain k where k: "device_sem_at pf (nsys5_index pf a1) = Some k" using assms(4) by blast
  have i: "k = device_semaphore pf (word_of_int (nsys5_index pf a1))"
    "0 \<le> nsys5_index pf a1" "nsys5_index pf a1 < int NRSEMAPHORES"
    using k by (auto simp: device_sem_at_def split: if_splits)
  have "(word_of_int (nsys5_index pf a1) :: u32) < of_nat NRSEMAPHORES"
    using i(2,3) by (simp add: word_less_def uint_word_of_int)
  then have "isDeviceSemaphore pf k" unfolding i(1) by (rule isDeviceSemaphore_index [OF assms(1)])
  with nsys5_blocks [OF sys_invD(1) [OF assms(2)] assms(3) k, of a2 excState] show ?thesis
    using blocked_on_sys_inv [OF assms(2,3)] by fastforce
qed

lemma nsys7_sys_inv:
  assumes "platform_ok pf" "sys_inv pf s a" "currProc s = Some p"
  shows "\<exists>e s' a'. nsys7 pf excState s = Some (e, s') \<and> sys_inv pf s' a'"
proof -
  have "isDeviceSemaphore pf (device_semaphore pf (of_nat NSUPPSEM))"
    by (rule isDeviceSemaphore_index [OF assms(1)]) simp
  with nsys7_blocks [OF sys_invD(1) [OF assms(2)] assms(3), of pf excState] show ?thesis
    using blocked_on_sys_inv [OF assms(2,3)] by fastforce
qed

lemma nsys10_sys_inv:
  assumes "sys_inv pf s a" "currProc s = Some p"
  shows "\<exists>e s' a'. nsys10 pf excState s = Some (e, s') \<and> sys_inv pf s' a'"
proof -
  note N = sys_invD(1) [OF assms(1)]
  obtain e s' a' where h: "nsys10 pf excState s = Some (e, s')" "nucleus_inv s' a'" "blocked a' = blocked a"
    "pcbs s' = (pcbs s)(p := saved_pcb pf excState s p)" "softBlock_count s' = softBlock_count s"
  proof (cases "a_ready a")
    case Nil
    then show ?thesis using nsys10_alone [OF N assms(2) Nil, of pf excState] that by blast
  next
    case (Cons h q)
    then show ?thesis
      using nsys10_yields [OF N assms(2) Cons, of pf excState] that [of _ _ "a\<lparr>a_ready := prio_insert (prio s) p q\<rparr>"]
      by auto
  qed
  have "sys_inv pf s' a'" by (rule sys_inv_ready [OF assms(1) h(2)]) (simp_all add: h)
  then show ?thesis using h(1) by blast
qed


lemma upd_state_sys_inv: "sys_inv pf s a \<Longrightarrow> sys_inv pf (upd_state x f s) a"
  by (erule sys_inv_frame) (simp_all add: upd_state_def)

lemma load_state_sys_inv:
  "sys_inv pf s a \<Longrightarrow> \<exists>e s' a'. load_state x s = Some (e, s') \<and> sys_inv pf s' a'"
  by (auto simp: load_state_def)

lemma upd_state_simps [simp]:
  "currProc (upd_state x f s) = currProc s" "pcbs (upd_state x f s) = pcbs s"
  by (simp_all add: upd_state_def)

lemma request_upd_state [simp]:
  "can_terminate (upd_state x f s) a p = can_terminate s a p"
  "request_ok pf (upd_state x f s) a p n a1 = request_ok pf s a p n a1"
  "trap_ok (upd_state x f s) a p = trap_ok s a p"
  by (simp_all add: can_terminate_def term_ok_def request_ok_def trap_ok_def)

text \<open>A service request: the program counter is moved and the service is called.\<close>

lemma nsys_range:
  assumes "- 10 \<le> sint (n :: u32)" "sint n \<le> - 1"
  shows "n = - 1 \<or> n = - 2 \<or> n = - 3 \<or> n = - 4 \<or> n = - 5 \<or> n = - 6 \<or> n = - 7 \<or> n = - 8 \<or> n = - 9 \<or> n = - 10"
proof -
  have "sint n = - 1 \<or> sint n = - 2 \<or> sint n = - 3 \<or> sint n = - 4 \<or> sint n = - 5 \<or> sint n = - 6 \<or>
      sint n = - 7 \<or> sint n = - 8 \<or> sint n = - 9 \<or> sint n = - 10"
    using assms by presburger
  moreover have "n = word_of_int (sint n)" by simp
  ultimately show ?thesis by fastforce
qed

lemma syscallHandler_eq:
  assumes "st = states s x" "x = getCurrExceptionState pf" "is_nsys pf st" "n = gpr st (gpr_a0 pf)"
    and "s' = upd_state x (\<lambda>st. st\<lparr>pc_epc := pc_epc st + WORDLEN\<rparr>) s"
  shows "syscallHandler pf s = (let a1 = gpr st (gpr_a1 pf); a2 = gpr st (gpr_a2 pf); a3 = gpr st (gpr_a3 pf) in
     if n = - 1 then Option.bind (nsys1 pf a1 a2 a3 s') (\<lambda>(r, s). load_state x (upd_state x (set_a0 pf r) s))
     else if n = - 2 then nsys2 pf a1 x s'
     else if n = - 3 then nsys3 pf a1 x s'
     else if n = - 4 then Option.bind (nsys4 a1 s') (load_state x)
     else if n = - 5 then nsys5 pf a1 a2 x s'
     else if n = - 6 then Option.bind (nsys6 pf x s') (load_state x)
     else if n = - 7 then nsys7 pf x s'
     else if n = - 8 then Option.bind (nsys8 pf x s') (load_state x)
     else if n = - 9 then Option.bind (nsys9 pf a1 x s') (load_state x)
     else if n = - 10 then nsys10 pf x s' else exc_trapHandler pf s')"
proof -
  have "- 10 \<le> sint n" "sint n \<le> - 1" "MSTATUS_MPP_MASK AND status st \<noteq> MSTATUS_MPP_U"
    using assms(3,4) by (simp_all add: is_nsys_def)
  then show ?thesis
    using assms(4,5) unfolding syscallHandler_def Let_def assms(1,2) [symmetric] by simp
qed

lemma syscallHandler_nsys:
  assumes "platform_ok pf" "sys_inv pf s a" "currProc s = Some p"
    and "st = states s (getCurrExceptionState pf)" "is_nsys pf st"
    and "request_ok pf s a p (gpr st (gpr_a0 pf)) (gpr st (gpr_a1 pf))"
  shows "\<exists>e s' a'. syscallHandler pf s = Some (e, s') \<and> sys_inv pf s' a'"
proof -
  let ?x = "getCurrExceptionState pf"
  let ?n = "gpr st (gpr_a0 pf)" and ?a1 = "gpr st (gpr_a1 pf)"
  let ?a2 = "gpr st (gpr_a2 pf)" and ?a3 = "gpr st (gpr_a3 pf)"
  let ?s = "upd_state ?x (\<lambda>st. st\<lparr>pc_epc := pc_epc st + WORDLEN\<rparr>) s"
  have I: "sys_inv pf ?s a" by (rule upd_state_sys_inv [OF assms(2)])
  have C: "currProc ?s = Some p" using assms(3) by simp
  have R: "request_ok pf ?s a p ?n ?a1" using assms(6) by simp
  have range: "- 10 \<le> sint ?n" "sint ?n \<le> - 1" using assms(5) by (simp_all add: is_nsys_def)
  note eq = syscallHandler_eq [OF assms(4) refl assms(5) refl refl, unfolded Let_def]
  consider "?n = - 1" | "?n = - 2" | "?n = - 3" | "?n = - 4" | "?n = - 5" | "?n = - 6" | "?n = - 7"
    | "?n = - 8" | "?n = - 9" | "?n = - 10" using nsys_range [OF range] by blast
  then show ?thesis
  proof cases
    case 1
    then show ?thesis
      using eq nsys1_sys_inv [OF I C, of ?a1 ?a2 ?a3] load_state_sys_inv [OF upd_state_sys_inv] by fastforce
  next
    case 2
    then show ?thesis using eq R nsys2_sys_inv [OF I C, of ?a1] by simp
  next
    case 3
    then show ?thesis using eq R nsys3_sys_inv [OF I C, of ?a1] by (simp add: request_ok_def)
  next
    case 4
    then show ?thesis
      using eq R nsys4_sys_inv [OF I, of ?a1] load_state_sys_inv by (fastforce simp: request_ok_def)
  next
    case 5
    then show ?thesis using eq R nsys5_sys_inv [OF assms(1) I C, of ?a1] by (simp add: request_ok_def)
  next
    case 6
    then show ?thesis using eq C load_state_sys_inv [OF upd_state_sys_inv [OF I]] by (simp add: nsys6_def)
  next
    case 7
    then show ?thesis using eq nsys7_sys_inv [OF assms(1) I C] by simp
  next
    case 8
    then show ?thesis using eq C load_state_sys_inv [OF upd_state_sys_inv [OF I]] by (simp add: nsys8_def)
  next
    case 9
    then show ?thesis
      using eq C load_state_sys_inv [OF upd_state_sys_inv [OF I]] by (simp add: nsys9_def split: option.split)
  next
    case 10
    then show ?thesis using eq nsys10_sys_inv [OF I C] by simp
  qed
qed

text \<open>Any other system call is a trap, in a state in which at most the cause has changed.\<close>

lemma syscallHandler_not_nsys:
  assumes "\<not> is_nsys pf (states s (getCurrExceptionState pf))"
  shows "\<exists>f. syscallHandler pf s = exc_trapHandler pf (upd_state (getCurrExceptionState pf) f s)"
proof -
  let ?st = "states s (getCurrExceptionState pf)"
  have r: "- 10 \<le> sint n \<and> sint n \<le> - 1"
    if "n = - 1 \<or> n = - 2 \<or> n = - 3 \<or> n = - 4 \<or> n = - 5 \<or> n = - 6 \<or> n = - 7 \<or> n = - 8 \<or> n = - 9 \<or> n = - 10"
    for n :: u32 using that by auto
  show ?thesis
  proof (cases "sint (gpr ?st (gpr_a0 pf)) < 0 \<and> MSTATUS_MPP_MASK AND status ?st = MSTATUS_MPP_U")
    case True
    then show ?thesis by (auto simp: syscallHandler_def Let_def)
  next
    case False
    then have n: "\<not> (- 10 \<le> sint (gpr ?st (gpr_a0 pf)) \<and> sint (gpr ?st (gpr_a0 pf)) \<le> - 1)"
      using assms by (auto simp: is_nsys_def)
    then have "syscallHandler pf s = exc_trapHandler pf s"
      using False r [of "gpr ?st (gpr_a0 pf)"] unfolding syscallHandler_def Let_def by auto
    moreover have "upd_state x (\<lambda>st. st) s = s" for x by (simp add: upd_state_def)
    ultimately show ?thesis by metis
  qed
qed

lemma syscallHandler_trap:
  assumes "sys_inv pf s a" "currProc s = Some p" "trap_ok s a p"
    and "\<not> is_nsys pf (states s (getCurrExceptionState pf))"
  shows "\<exists>e s' a'. syscallHandler pf s = Some (e, s') \<and> sys_inv pf s' a'"
proof -
  have "\<exists>e s' a'. exc_trapHandler pf (upd_state x f s) = Some (e, s') \<and> sys_inv pf s' a'" for x f
    unfolding exc_trapHandler_def
    by (rule passUpOrDie_sys_inv [OF upd_state_sys_inv [OF assms(1)], where p = p])
      (use assms(2,3) in auto)
  then show ?thesis using syscallHandler_not_nsys [OF assms(4)] by metis
qed

lemma interruptHandler_sys_inv:
  assumes "platform_ok pf" "sys_inv pf s a"
    and "cause (states s (getCurrExceptionState pf)) AND CAUSE_EXCCODE_MASK pf = IL_CPUTIMER \<longrightarrow> currProc s \<noteq> None"
  shows "\<exists>e s' a'. interruptHandler pf s = Some (e, s') \<and> sys_inv pf s' a'"
  using pltInterruptHandler_inv [OF assms(2)] itInterruptHandler_inv [OF assms(1,2)]
    deviceInterruptHandler_inv [OF assms(1,2)] assms(2,3)
  by (auto simp: interruptHandler_def Let_def)

lemma exceptionHandler_sys_inv:
  assumes "platform_ok pf" "sys_inv pf s a" "admissible pf s a"
  shows "\<exists>e s' a'. exceptionHandler pf s = Some (e, s') \<and> sys_inv pf s' a'"
proof -
  let ?st = "states s (getCurrExceptionState pf)"
  let ?c = "cause ?st AND CAUSE_EXCCODE_MASK pf"
  show ?thesis
  proof (cases "CAUSE_IS_INT pf (cause ?st)")
    case True
    then show ?thesis
      using interruptHandler_sys_inv [OF assms(1,2)] assms(3)
      by (simp add: exceptionHandler_def admissible_def Let_def)
  next
    case False
    then obtain p where p: "currProc s = Some p"
      "if (?c = 8 \<or> ?c = 11) \<and> is_nsys pf ?st
       then request_ok pf s a p (gpr ?st (gpr_a0 pf)) (gpr ?st (gpr_a1 pf)) else trap_ok s a p"
      using assms(3) by (auto simp: admissible_def Let_def split: option.splits)
    show ?thesis
    proof (cases "?c = 8 \<or> ?c = 11")
      case True
      then have "exceptionHandler pf s = syscallHandler pf s"
        using False by (auto simp: exceptionHandler_def Let_def)
      then show ?thesis
        using syscallHandler_nsys [OF assms(1,2) p(1) refl] syscallHandler_trap [OF assms(2) p(1)] p(2) True
        by (auto split: if_splits)
    next
      case ne: False
      then show ?thesis
        using False p passUpOrDie_sys_inv [OF assms(2) p(1)]
        by (auto simp: exceptionHandler_def exc_tlbHandler_def exc_trapHandler_def Let_def)
    qed
  qed
qed

lemma uTLB_RefillHandler_frame:
  assumes "uTLB_RefillHandler s = Some (e, s')" "sys_inv pf s a"
  shows "sys_inv pf s' a"
  by (rule sys_inv_frame [OF assms(2)])
    (use assms(1) in \<open>auto simp: uTLB_RefillHandler_def Let_def bind_eq_Some_conv' split: if_splits\<close>)


section \<open>The nucleus as a transition system\<close>

text \<open>
  Between two activations the running process and the devices change the memory, the
  saved states and the clocks, but not the structures of the nucleus.
\<close>

definition runs :: "kernel \<Rightarrow> kernel \<Rightarrow> bool" where
  "runs s s' \<longleftrightarrow> links s' = links s \<and> pcbs s' = pcbs s \<and> semds s' = semds s \<and> next_pid s' = next_pid s \<and>
    processCount s' = processCount s \<and> softBlock_count s' = softBlock_count s \<and> currProc s' = currProc s"

text \<open>The pending exception is admissible in every view of the structures.\<close>

definition acceptable :: "platform \<Rightarrow> kernel \<Rightarrow> bool" where
  "acceptable pf s \<longleftrightarrow> (\<forall>a. sys_inv pf s a \<longrightarrow> admissible pf s a)"

inductive nstep :: "platform \<Rightarrow> kernel \<Rightarrow> kernel \<Rightarrow> bool" for pf where
  nstep_run: "runs s s' \<Longrightarrow> nstep pf s s'"
| nstep_exception: "acceptable pf s \<Longrightarrow> exceptionHandler pf s = Some (e, s') \<Longrightarrow> nstep pf s s'"
| nstep_refill: "uTLB_RefillHandler s = Some (e, s') \<Longrightarrow> nstep pf s s'"

inductive_cases nstepE: "nstep pf s s'"

definition nucleus_init :: "platform \<Rightarrow> kernel \<Rightarrow> bool" where
  "nucleus_init pf s \<longleftrightarrow> platform_ok pf \<and> (\<exists>s0 e. boot_globals pf s0 \<and> main pf s0 = Some (e, s))"

lemma nstep_sys_inv:
  assumes "platform_ok pf" "sys_inv pf s a" "nstep pf s s'"
  shows "\<exists>a'. sys_inv pf s' a'"
proof -
  have run: ?thesis if r: "runs s s'"
  proof -
    have "sys_inv pf s' a"
      by (rule sys_inv_frame [OF assms(2)]) (use r in \<open>simp_all add: runs_def\<close>)
    then show ?thesis by blast
  qed
  have exc: ?thesis if "acceptable pf s" "exceptionHandler pf s = Some (e, s')" for e
    using that exceptionHandler_sys_inv [OF assms(1,2)] assms(2) by (auto simp: acceptable_def)
  show ?thesis
    by (rule nstepE [OF assms(3)]) (use run exc uTLB_RefillHandler_frame assms(2) in blast)+
qed

interpretation nuc: responsive_system "nucleus_init pf" "nstep pf"
  "\<lambda>s. platform_ok pf \<and> (\<exists>a. sys_inv pf s a)" "acceptable pf" "exceptionHandler pf" for pf
proof unfold_locales
  show "platform_ok pf \<and> (\<exists>a. sys_inv pf s a)" if i: "nucleus_init pf s" for s
  proof -
    obtain s0 e where b: "platform_ok pf" "boot_globals pf s0" "main pf s0 = Some (e, s)"
      using i by (auto simp: nucleus_init_def)
    then show ?thesis using main_sys_inv [OF b(2)] by auto
  qed
  show "platform_ok pf \<and> (\<exists>a. sys_inv pf s' a)"
    if "platform_ok pf \<and> (\<exists>a. sys_inv pf s a)" "nstep pf s s'" for s s'
    using that nstep_sys_inv by blast
  show "\<exists>e s'. exceptionHandler pf s = Some (e, s') \<and> nstep pf s s'"
    if i: "platform_ok pf \<and> (\<exists>a. sys_inv pf s a)" "acceptable pf s" for s
  proof -
    obtain a where a: "platform_ok pf" "sys_inv pf s a" using i(1) by blast
    moreover have "admissible pf s a" using i(2) a(2) by (simp add: acceptable_def)
    ultimately show ?thesis
      using exceptionHandler_sys_inv [of pf s a] nstep_exception [OF i(2)] by blast
  qed
qed

end
