(* ===== verification/Samples.thy ===== *)
theory Samples
  imports Nucleus
begin

text \<open>
  Concrete states of the nucleus: the memory before boot, the state main leaves, and the
  states a few services lead to from there. The theorems of the development are applied
  to them to show that their hypotheses can hold.
\<close>

section \<open>A platform and the memory before boot\<close>

definition sample_platform :: platform where
  "sample_platform = \<lparr>STATE_GPR_LEN = 32, gpr_sp = 1, gpr_a0 = 9, gpr_a1 = 10, gpr_a2 = 11, gpr_a3 = 12,
     CAUSE_IS_INT = (\<lambda>c. c AND 0x80000000 \<noteq> 0), CAUSE_EXCCODE_MASK = 0x7FFFFFFF, ACK = 1,
     DEVPERINT = 8, DEVREGSIZE = 16, PRID = 0, adr_device_semaphores = 0x20005000,
     adr_test = 0x20002000, adr_uTLB_RefillHandler = 0x20002100, adr_exceptionHandler = 0x20002200\<rparr>"

definition zero_st :: state_t where
  "zero_st = \<lparr>entry_hi = 0, cause = 0, status = 0, pc_epc = 0, mie = 0, gpr = (\<lambda>_. 0)\<rparr>"

definition zero_pcb :: pcb_t where
  "zero_pcb = \<lparr>p_parent = None, p_s = zero_st, p_time = 0, p_semAdd = 0, p_supportStruct = 0,
     p_prio = 0, p_pid = 0\<rparr>"

definition zero_support :: support_t where
  "zero_support = \<lparr>sup_asid = 0, sup_exceptState = (\<lambda>_. zero_st),
     sup_exceptContext = (\<lambda>_. \<lparr>ctx_stackPtr = 0, ctx_status = 0, ctx_pc = 0\<rparr>),
     sup_privatePgTbl = (\<lambda>_. \<lparr>pte_entryHI = 0, pte_entryLO = 0\<rparr>)\<rparr>"

definition zero_kernel :: kernel where
  "zero_kernel = \<lparr>links = \<lparr>nxt = (\<lambda>n. n), prv = (\<lambda>n. n)\<rparr>, pcbs = (\<lambda>_. zero_pcb),
     semds = (\<lambda>_. \<lparr>s_key = 0\<rparr>), next_pid = 1, processCount = 0, softBlock_count = 0, currProc = None,
     tod_start = 0, ram = (\<lambda>_. 0), states = (\<lambda>_. zero_st), supports = (\<lambda>_. zero_support),
     passupvector = \<lparr>tlb_refill_handler = 0, tlb_refill_stackPtr = 0, exception_handler = 0, exception_stackPtr = 0\<rparr>,
     tod = 0, itimer = 0, cpu_timer = 0, cpu_mie = 0, cpu_status = 0, cpu_entryHI = 0, cpu_entryLO = 0,
     tlb_written = []\<rparr>"

lemma sample_platform_ok: "platform_ok sample_platform"
  by (simp add: platform_ok_def sample_platform_def)

lemma zero_kernel_boots: "boot_globals sample_platform zero_kernel"
  by (simp add: boot_globals_def zero_kernel_def)

section \<open>The running system\<close>

text \<open>The state a step leads to.\<close>

definition state_of :: "('e \<times> kernel) option \<Rightarrow> kernel" where
  "state_of r = (case r of Some (_, s) \<Rightarrow> s | None \<Rightarrow> zero_kernel)"

lemma state_of_Some [simp]: "state_of (Some (e, s)) = s"
  by (simp add: state_of_def)

text \<open>After boot the process in PCB 19 runs and no other exists.\<close>

definition booted :: kernel where
  "booted = state_of (main sample_platform zero_kernel)"

lemma booted_inv:
  "main sample_platform zero_kernel = Some (LDST (p_s (pcbs booted 19)), booted)"
  "nucleus_inv booted boot_phase1" "currProc booted = Some 19"
  "pcbs booted = (pcbs zero_kernel)(19 := first_pcb sample_platform zero_kernel 19)"
  "softBlock_count booted = 0" "ram booted = (\<lambda>_. 0)" "states booted = (\<lambda>_. zero_st)"
  "soft_ok sample_platform booted boot_phase1" "next_pid booted = 2"
proof -
  have M: "MAXPROC - 1 = 19" by (simp add: MAXPROC_def)
  obtain s' where s': "main sample_platform zero_kernel =
      Some (LDST (p_s (first_pcb sample_platform zero_kernel 19)), s')"
    "nucleus_inv s' boot_phase1" "currProc s' = Some 19"
    "pcbs s' = (pcbs zero_kernel)(19 := first_pcb sample_platform zero_kernel 19)"
    "next_pid s' = next_pid zero_kernel + 1" "softBlock_count s' = softBlock_count zero_kernel"
    "ram s' = ram zero_kernel" "states s' = states zero_kernel"
    using main_eq [of zero_kernel sample_platform] unfolding M by (auto simp: zero_kernel_def)
  have b: "booted = s'" using s'(1) by (simp add: booted_def)
  show "main sample_platform zero_kernel = Some (LDST (p_s (pcbs booted 19)), booted)"
    using s'(1,4) b by simp
  show "nucleus_inv booted boot_phase1" "currProc booted = Some 19"
    "pcbs booted = (pcbs zero_kernel)(19 := first_pcb sample_platform zero_kernel 19)"
    using s' b by simp_all
  show "softBlock_count booted = 0" "ram booted = (\<lambda>_. 0)" "states booted = (\<lambda>_. zero_st)"
    "next_pid booted = 2"
    using s' b by (simp_all add: zero_kernel_def)
  then show "soft_ok sample_platform booted boot_phase1"
    by (simp add: soft_ok_def soft_blocked_def)
qed


text \<open>The first process creates a second one, which is ready in PCB 18.\<close>

definition forked :: kernel where
  "forked = state_of (nsys1 sample_platform 0 0 0 booted)"

definition forked_phase1 :: phase1 where
  "forked_phase1 = created forked 19 18 boot_phase1"

lemma boot_free: "a_free boot_phase1 = 18 # rev [0..<18]"
  using upt_Suc_append [of 0 18] by (simp add: boot_phase1_def MAXPROC_def)

lemma forked_inv:
  "nsys1 sample_platform 0 0 0 booted = Some (2, forked)"
  "nucleus_inv forked forked_phase1" "currProc forked = Some 19"
  "pcbs forked = (pcbs booted)(18 := new_pcb sample_platform booted 0 0 0 19 18)"
  "softBlock_count forked = 0" "ram forked = (\<lambda>_. 0)" "states forked = (\<lambda>_. zero_st)"
proof -
  obtain l where l: "let s' = booted\<lparr>links := l, pcbs := (pcbs booted)(18 := new_pcb sample_platform booted 0 0 0 19 18),
      next_pid := next_pid booted + 1, processCount := processCount booted + 1\<rparr> in
    nsys1 sample_platform 0 0 0 booted = Some (next_pid booted, s') \<and> nucleus_inv s' (created s' 19 18 boot_phase1)"
    using nsys1_creates [OF booted_inv(2,3) boot_free] by blast
  then have f: "forked = booted\<lparr>links := l, pcbs := (pcbs booted)(18 := new_pcb sample_platform booted 0 0 0 19 18),
      next_pid := next_pid booted + 1, processCount := processCount booted + 1\<rparr>"
    by (simp add: Let_def forked_def)
  show "nsys1 sample_platform 0 0 0 booted = Some (2, forked)" "nucleus_inv forked forked_phase1"
    using l booted_inv(9) unfolding Let_def forked_phase1_def f by simp_all
  show "currProc forked = Some 19" "softBlock_count forked = 0" "ram forked = (\<lambda>_. 0)"
    "states forked = (\<lambda>_. zero_st)"
    "pcbs forked = (pcbs booted)(18 := new_pcb sample_platform booted 0 0 0 19 18)"
    using booted_inv unfolding f by simp_all
qed

lemma forked_phase1_simps [simp]:
  "a_ready forked_phase1 = [18]" "blocked forked_phase1 = {}" "live forked_phase1 = {18, 19}"
  "a_child forked_phase1 19 = [18]" "a_child forked_phase1 18 = []" "waiting s forked_phase1 k = []"
proof -
  have eq: "forked_phase1 = boot_phase1\<lparr>a_free := rev [0..<18],
      a_child := (a_child boot_phase1)(18 := [], 19 := [18]), a_ready := [18]\<rparr>"
    by (simp add: forked_phase1_def created_def boot_free) (simp add: boot_phase1_def init_phase1_def)
  show "a_ready forked_phase1 = [18]" "blocked forked_phase1 = {}" "a_child forked_phase1 19 = [18]"
    "a_child forked_phase1 18 = []" unfolding eq by simp_all
  show "live forked_phase1 = {18, 19}" unfolding eq by (auto simp: live_def MAXPROC_def)
  show "waiting s forked_phase1 k = []" unfolding eq by (simp add: waiting_def boot_phase1_def)
qed

lemma forked_pcbs:
  "pcbs forked 19 = first_pcb sample_platform zero_kernel 19"
  "pcbs forked 18 = new_pcb sample_platform booted 0 0 0 19 18"
  "semAdd forked 18 = 0" "semAdd forked 19 = 0" "p_pid (pcbs forked 18) = 2" "p_pid (pcbs forked 19) = 1"
  "prio forked 18 = 0" "prio forked 19 = 0"
  using booted_inv(4,9) by (simp_all add: forked_inv(4) new_pcb_def fresh_pcb_def zero_kernel_def)

lemma forked_soft_ok: "soft_ok sample_platform forked forked_phase1"
  by (simp add: soft_ok_def soft_blocked_def forked_inv(5))

text \<open>The first process blocks on a semaphore, and the second one runs.\<close>

definition sample_sem :: u32 where
  "sample_sem = 0x20006000"

definition waiting_kernel :: kernel where
  "waiting_kernel = state_of (nsys3 sample_platform sample_sem 0 forked)"

lemma waiting_kernel_inv:
  "\<exists>a. nucleus_inv waiting_kernel a \<and> soft_ok sample_platform waiting_kernel a \<and>
    waiting waiting_kernel a sample_sem = [19] \<and> a_ready a = [] \<and> live a = {18, 19} \<and>
    a_child a = a_child forked_phase1 \<and> blocked a = {19} \<and> currProc waiting_kernel = Some 18 \<and>
    ram waiting_kernel = (\<lambda>_. 0)"
proof -
  obtain e s' a' where n: "nsys3 sample_platform sample_sem 0 forked = Some (e, s')"
    "blocked_on sample_sem 19 (saved_pcb sample_platform 0 forked 19) forked forked_phase1 s' a'"
    "softBlock_count s' = softBlock_count forked" "ram s' = ram forked"
    using nsys3_blocks [OF forked_inv(2,3), of sample_sem sample_platform 0] by (auto simp: forked_inv(6))
  have w: "waiting_kernel = s'" using n(1) by (simp add: waiting_kernel_def)
  have "\<not> isDeviceSemaphore sample_platform sample_sem"
    by (simp add: isDeviceSemaphore_def sample_sem_def device_semaphore_def sample_platform_def)
  then have "sys_inv sample_platform s' a'"
    using blocked_on_sys_inv [OF _ forked_inv(3) n(2)] n(3) forked_inv(2) forked_soft_ok
    by (simp add: sys_inv_def)
  moreover have "a_free a' = a_free forked_phase1" using n(2) by (simp add: blocked_on_def)
  then have "live a' = {18, 19}" using forked_phase1_simps(3) by (simp add: live_def)
  ultimately show ?thesis
    unfolding w using n(2,4) by (intro exI [of _ a']) (simp add: sys_inv_def blocked_on_def forked_inv(6))
qed

text \<open>The first process waits for the pseudo-clock, and the second one runs.\<close>

definition clock_kernel :: kernel where
  "clock_kernel = state_of (nsys7 sample_platform 0 forked)"

lemma clock_kernel_inv:
  "\<exists>a. nucleus_inv clock_kernel a \<and> soft_ok sample_platform clock_kernel a \<and>
    waiting clock_kernel a (device_semaphore sample_platform (of_nat NSUPPSEM)) = [19] \<and>
    currProc clock_kernel = Some 18 \<and> a_ready a = []"
proof -
  let ?k = "device_semaphore sample_platform (of_nat NSUPPSEM)"
  obtain e s' a' where n: "nsys7 sample_platform 0 forked = Some (e, s')"
    "blocked_on ?k 19 (saved_pcb sample_platform 0 forked 19) forked forked_phase1 s' a'"
    "softBlock_count s' = softBlock_count forked + 1"
    using nsys7_blocks [OF forked_inv(2,3), of sample_platform 0] by blast
  have w: "clock_kernel = s'" using n(1) by (simp add: clock_kernel_def)
  have "isDeviceSemaphore sample_platform ?k"
    by (rule isDeviceSemaphore_index [OF sample_platform_ok]) simp
  then have "sys_inv sample_platform s' a'"
    using blocked_on_sys_inv [OF _ forked_inv(3) n(2)] n(3) forked_inv(2) forked_soft_ok
    by (simp add: sys_inv_def)
  then show ?thesis
    unfolding w using n(2) by (intro exI [of _ a']) (simp add: sys_inv_def blocked_on_def)
qed

text \<open>The descendants of the first process, and that both processes can be terminated.\<close>

lemma forked_desc: "desc forked_phase1 19 = {18, 19}" "desc forked_phase1 18 = {18}"
proof -
  show d: "desc forked_phase1 18 = {18}" by (rule desc_leaf) simp
  show "desc forked_phase1 19 = {18, 19}" using desc_unfold [of 19 forked_phase1] d by auto
qed

lemma forked_term_ok: "q \<in> {18, 19} \<Longrightarrow> term_ok forked forked_phase1 q"
  by (auto simp: term_ok_def detached_def forked_inv(3) forked_pcbs(3))


lemma sample_detached: "detached boot_phase1 19" "detached forked_phase1 19"
  using current_not_blocked [OF booted_inv(2,3)] current_not_blocked [OF forked_inv(2,3)]
  by (simp_all add: detached_def)

lemma sample_wf: "kwf booted boot_phase1" "kwf forked forked_phase1"
  using nucleus_invD(3) [OF booted_inv(2)] nucleus_invD(3) [OF forked_inv(2)] .

lemma sample_sys_inv: "sys_inv sample_platform booted boot_phase1" "sys_inv sample_platform forked forked_phase1"
  using booted_inv(2,8) forked_inv(2) forked_soft_ok by (simp_all add: sys_inv_def)


text \<open>The booted system with a pending interrupt of the interval timer.\<close>

definition ticked :: kernel where
  "ticked = booted\<lparr>states := (\<lambda>_. zero_st\<lparr>cause := 0x80000003\<rparr>)\<rparr>"

lemma booted_init: "nucleus_init sample_platform booted"
  using sample_platform_ok zero_kernel_boots booted_inv(1) unfolding nucleus_init_def by blast

lemma ticked_reach: "reach (nucleus_init sample_platform) (nstep sample_platform) ticked"
proof (rule reach_step)
  show "reach (nucleus_init sample_platform) (nstep sample_platform) booted"
    by (rule reach_init) (rule booted_init)
  show "nstep sample_platform booted ticked"
    by (rule nstep_run) (simp add: runs_def ticked_def)
qed

lemma ticked_acceptable: "acceptable sample_platform ticked"
  by (simp add: acceptable_def admissible_def sample_platform_def ticked_def Let_def)

lemma forked_pids: "inj_on (\<lambda>q. p_pid (pcbs forked q)) (live forked_phase1)"
  by (simp add: forked_pcbs(5,6))


text \<open>The first process yields, and the second one blocks on the semaphore: the first runs again.\<close>

definition child_waits :: kernel where
  "child_waits = state_of (nsys3 sample_platform sample_sem 0 (state_of (nsys10 sample_platform 0 forked)))"

lemma child_waits_inv:
  "\<exists>a. nucleus_inv child_waits a \<and> waiting child_waits a sample_sem = [18] \<and> a_ready a = [] \<and>
    a_child a 18 = [] \<and> currProc child_waits = Some 19"
proof -
  obtain s1 where y: "nsys10 sample_platform 0 forked = Some (LDST (p_s (pcbs forked 18)), s1)"
    "nucleus_inv s1 (forked_phase1\<lparr>a_ready := [19]\<rparr>)" "currProc s1 = Some 18" "ram s1 = ram forked"
    "semds s1 = semds forked"
    using nsys10_yields [OF forked_inv(2,3) forked_phase1_simps(1), of sample_platform 0] by auto
  have w: "waiting s1 (forked_phase1\<lparr>a_ready := [19]\<rparr>) k = []" for k
    using waiting_frame [of s1 forked "forked_phase1\<lparr>a_ready := [19]\<rparr>" forked_phase1] y(5) by simp
  obtain e s2 a2 where "nsys3 sample_platform sample_sem 0 s1 = Some (e, s2)"
    "blocked_on sample_sem 18 (saved_pcb sample_platform 0 s1 18) s1 (forked_phase1\<lparr>a_ready := [19]\<rparr>) s2 a2"
    using nsys3_blocks [OF y(2,3), of sample_sem sample_platform 0] by (auto simp: y(4) forked_inv(6))
  then show ?thesis
    using y(1) w by (intro exI [of _ a2]) (simp add: child_waits_def blocked_on_def)
qed

text \<open>
  The first process waits for the transmitter of terminal 2, which has completed: the
  bitmap of line 7 and the status of the transmitter say so.
\<close>

definition io_kernel :: kernel where
  "io_kernel = (state_of (nsys5 sample_platform 0x10000280 2 0 forked))
     \<lparr>ram := (\<lambda>_. 0)(0x10000050 := 4, 0x1000027C := 5)\<rparr>"

lemma io_kernel_inv:
  "\<exists>a. nucleus_inv io_kernel a \<and> waiting io_kernel a (device_semaphore sample_platform 42) = [19] \<and>
    currProc io_kernel = Some 18 \<and> a_ready a = []"
proof -
  have "device_sem_at sample_platform (nsys5_index sample_platform 0x10000280) =
      Some (device_semaphore sample_platform 42)"
    by (simp add: device_sem_at_def nsys5_index_def sample_platform_def Let_def
        signed_divide_int_def signed_modulo_int_def)
  from nsys5_blocks [OF forked_inv(2,3) this, of 2 0] obtain e s' a' where
    n: "nsys5 sample_platform 0x10000280 2 0 forked = Some (e, s')"
      "blocked_on (device_semaphore sample_platform 42) 19 (saved_pcb sample_platform 0 forked 19)
        forked forked_phase1 s' a'" by blast
  let ?r = "(\<lambda>_. 0)(0x10000050 := 4, 0x1000027C := 5)"
  have "nucleus_inv s' a'" using n(2) by (simp add: blocked_on_def)
  then have "ninv (set_option (currProc s')) (s'\<lparr>ram := ?r\<rparr>) a'" "count_ok (s'\<lparr>ram := ?r\<rparr>) a'"
    using ninv_frame [OF nucleus_invD(1), of s' a' "s'\<lparr>ram := ?r\<rparr>"]
    by (simp_all add: nucleus_inv_def count_ok_def)
  moreover have "waiting (s'\<lparr>ram := ?r\<rparr>) a' = waiting s' a'" by (rule waiting_frame) simp_all
  ultimately show ?thesis
    using n by (intro exI [of _ a']) (simp add: io_kernel_def nucleus_inv_def blocked_on_def)
qed

end
