(* ===== verification/Props_Structures.thy ===== *)
theory Props_Structures
  imports Samples
begin

text \<open>
  The properties of the data structures: the linked lists of listx.h, the process queues
  and trees of pcb.c and the active semaphore list of asl.c.
\<close>

section \<open>Linked lists\<close>

text \<open>
  C5: The loop list_for_each over a well-formed list visits exactly the nodes of the list
  in order, stops at the first node for which the body leaves the loop, and ends.
\<close>

theorem list_for_each_visits:
  assumes "rings l R" "R h = Some xs"
  shows "list_for_each l h (\<lambda>n. Some (if P n then Some n else None)) = Some (find P xs)"
  unfolding rings_list_for_each [OF assms]
  using foreach_find [where g = "\<lambda>n. n"] by (simp add: option.map_ident)

theorem list_for_each_visits_witness:
  "list_for_each (list_add_tail (2 :: nat) 0 (list_add_tail 1 0 (INIT_LIST_HEAD 0 \<lparr>nxt = (\<lambda>n. n), prv = (\<lambda>n. n)\<rparr>))) 0
     (\<lambda>n. Some (if 1 < n then Some n else None)) = Some (Some 2)"
proof -
  have "rings (INIT_LIST_HEAD (0 :: nat) \<lparr>nxt = (\<lambda>n. n), prv = (\<lambda>n. n)\<rparr>) [0 \<mapsto> []]"
    by (rule rings_INIT_LIST_HEAD) (simp_all add: rings_def members_def)
  then have "rings (list_add_tail (1 :: nat) 0 (INIT_LIST_HEAD 0 \<lparr>nxt = (\<lambda>n. n), prv = (\<lambda>n. n)\<rparr>)) ([0 \<mapsto> []](0 \<mapsto> [] @ [1]))"
    by (rule rings_list_add_tail) (auto simp: nodes_def split: if_splits)
  then have "rings (list_add_tail (2 :: nat) 0 (list_add_tail 1 0 (INIT_LIST_HEAD 0 \<lparr>nxt = (\<lambda>n. n), prv = (\<lambda>n. n)\<rparr>)))
      ([0 \<mapsto> []](0 \<mapsto> [] @ [1], 0 \<mapsto> ([] @ [1]) @ [2]))"
    by (rule rings_list_add_tail) (auto simp: nodes_def split: if_splits)
  from list_for_each_visits [OF this, of 0 "[1, 2]" "\<lambda>n. 1 < n"] show ?thesis by simp
qed

text \<open>
  Deleting a node that was inserted gives the list back: list_add at the head or at the
  tail of a list followed by list_del of the new node leaves the same lists in the heap,
  for the list itself and for every other list.
\<close>

theorem list_add_del_roundtrip:
  assumes "rings l R" "R h = Some xs" "n \<notin> nodes R"
  shows "rings (list_del n (list_add n h l)) R \<and> rings (list_del n (list_add_tail n h l)) R"
proof
  have n: "n \<notin> set xs" using assms(2,3) by (auto simp: nodes_def)
  have "rings (list_del n (list_add n h l)) (R(h \<mapsto> n # xs, h \<mapsto> remove1 n (n # xs)))"
    by (rule rings_list_del [OF rings_list_add [OF assms]]) simp_all
  then show "rings (list_del n (list_add n h l)) R" using assms(2) by (simp add: fun_upd_idem)
  have "rings (list_del n (list_add_tail n h l)) (R(h \<mapsto> xs @ [n], h \<mapsto> remove1 n (xs @ [n])))"
    by (rule rings_list_del [OF rings_list_add_tail [OF assms]]) simp_all
  then show "rings (list_del n (list_add_tail n h l)) R"
    using assms(2) n by (simp add: fun_upd_idem remove1_append)
qed

theorem list_add_del_roundtrip_witness:
  "rings (list_del (1 :: nat) (list_add 1 0 (INIT_LIST_HEAD 0 \<lparr>nxt = (\<lambda>n. n), prv = (\<lambda>n. n)\<rparr>))) [0 \<mapsto> []]"
proof -
  have r: "rings (INIT_LIST_HEAD (0 :: nat) \<lparr>nxt = (\<lambda>n. n), prv = (\<lambda>n. n)\<rparr>) [0 \<mapsto> []]"
    by (rule rings_INIT_LIST_HEAD) (simp_all add: rings_def members_def)
  have "1 \<notin> nodes [0 :: nat \<mapsto> []]" by (auto simp: nodes_def split: if_splits)
  from list_add_del_roundtrip [OF r _ this, of 0] show ?thesis by simp
qed

section \<open>Process control blocks\<close>

text \<open>
  allocPcb takes the first PCB of the free list, clears all its fields and gives it the
  next process identifier, and leaves every other PCB alone; with an empty free list it
  returns NULL and changes nothing.
\<close>

theorem allocPcb_allocates:
  assumes "kwf s a"
  shows "case a_free a of
      [] \<Rightarrow> allocPcb pf s = Some (None, s)
    | p # f \<Rightarrow> \<exists>l. let s' = s\<lparr>links := l, pcbs := (pcbs s)(p := fresh_pcb pf (next_pid s) (pcbs s p)),
          next_pid := next_pid s + 1\<rparr> in
        allocPcb pf s = Some (Some p, s') \<and> kwf s' (a\<lparr>a_free := f, a_child := (a_child a)(p := [])\<rparr>)"
proof (cases "a_free a")
  case Nil
  then show ?thesis using allocPcb_Nil [OF assms] by simp
next
  case (Cons p f)
  then show ?thesis using allocPcb_Cons [OF assms Cons, of pf] by (simp add: Let_def)
qed

theorem allocPcb_allocates_witness:
  "\<exists>s'. allocPcb sample_platform booted = Some (Some 18, s') \<and> p_pid (pcbs s' 18) = 2"
proof -
  have "next_pid booted = 2" using booted_inv(9) .
  then show ?thesis
    using allocPcb_allocates [OF sample_wf(1), of sample_platform]
    unfolding boot_free by (auto simp: Let_def fresh_pcb_def)
qed

text \<open>
  A PCB that is freed is the next one to be allocated: freePcb followed by allocPcb
  returns the same PCB, cleared, with the structures well formed. The PCB freed must be in
  no queue and have neither children nor a parent.
\<close>

theorem freePcb_allocPcb:
  assumes "kwf s a" "detached a p" "a_child a p = []" "parent s p = None"
  shows "\<exists>l. let s' = s\<lparr>links := l, pcbs := (pcbs s)(p := fresh_pcb pf (next_pid s) (pcbs s p)),
        next_pid := next_pid s + 1\<rparr> in
    allocPcb pf (freePcb p s) = Some (Some p, s') \<and> kwf s' a"
proof -
  have k: "kwf (freePcb p s) (a\<lparr>a_free := p # a_free a\<rparr>)" by (rule freePcb_eq [OF assms])
  have f: "a_free (a\<lparr>a_free := p # a_free a\<rparr>) = p # a_free a" by simp
  let ?t = "freePcb p s"
  have t: "?t\<lparr>links := l, pcbs := (pcbs ?t)(p := fresh_pcb pf (next_pid ?t) (pcbs ?t p)), next_pid := next_pid ?t + 1\<rparr> =
      s\<lparr>links := l, pcbs := (pcbs s)(p := fresh_pcb pf (next_pid s) (pcbs s p)), next_pid := next_pid s + 1\<rparr>" for l
    by (simp add: freePcb_def upd_links_def)
  have "a\<lparr>a_free := p # a_free a, a_free := a_free a, a_child := (a_child (a\<lparr>a_free := p # a_free a\<rparr>))(p := [])\<rparr> = a"
    using assms(3) by (simp add: fun_upd_idem)
  with allocPcb_Cons [OF k f, of pf] show ?thesis
    unfolding t Let_def by auto
qed

theorem freePcb_allocPcb_witness:
  "\<exists>s'. allocPcb sample_platform (freePcb 19 booted) = Some (Some 19, s')"
proof -
  have "a_child boot_phase1 19 = []" "parent booted 19 = None"
    by (simp_all add: boot_phase1_def init_phase1_def booted_inv(4))
  from freePcb_allocPcb [OF sample_wf(1) sample_detached(1) this, of sample_platform] show ?thesis
    by (auto simp: Let_def)
qed


section \<open>The ready queue\<close>

text \<open>
  C9: insertProcQ keeps the ready queue sorted by priority and first come, first served
  among equals: the process goes behind every process of the same or a higher priority and
  in front of every process of a lower one.
\<close>

theorem insertProcQ_priority_order:
  assumes "kwf s a" "prio_sorted (prio s) (a_ready a)" "detached a p"
  shows "\<exists>s' a' xs ys. insertProcQ ReadyQueue p s = Some s' \<and> kwf s' a' \<and>
    prio_sorted (prio s') (a_ready a') \<and> a_ready a = xs @ ys \<and> a_ready a' = xs @ p # ys \<and>
    (\<forall>x\<in>set xs. sint (prio s p) \<le> sint (prio s x)) \<and> (\<forall>y\<in>set ys. sint (prio s y) < sint (prio s p))"
  using readyq.ins_law [of s a p] assms by blast

theorem insertProcQ_priority_order_witness:
  "\<exists>s' a'. insertProcQ ReadyQueue 19 forked = Some s' \<and> kwf s' a' \<and> a_ready a' = [18, 19]"
proof -
  have "prio_sorted (prio forked) (a_ready forked_phase1)" by (simp add: prio_sorted_def)
  from insertProcQ_priority_order [OF sample_wf(2) this sample_detached(2)]
  obtain s' a' xs ys where i: "insertProcQ ReadyQueue 19 forked = Some s'" "kwf s' a'" "[18] = xs @ ys"
    "a_ready a' = xs @ 19 # ys" "\<forall>y\<in>set ys. sint (prio forked y) < sint (prio forked 19)" by auto
  have "ys = []"
  proof (rule ccontr)
    assume "ys \<noteq> []"
    then have "18 \<in> set ys" using i(3) by (cases xs) auto
    then show False using i(5) forked_pcbs(7,8) by auto
  qed
  then show ?thesis using i by auto
qed

text \<open>
  removeProcQ on the ready queue returns a process of the highest priority among the
  ready ones and leaves the others in order; on an empty queue it returns NULL.
\<close>

theorem removeProcQ_highest_priority:
  assumes "kwf s a" "prio_sorted (prio s) (a_ready a)"
  shows "if a_ready a = [] then removeProcQ ReadyQueue s = Some (None, s)
    else \<exists>p s' a'. removeProcQ ReadyQueue s = Some (Some p, s') \<and> kwf s' a' \<and> a_ready a = p # a_ready a' \<and>
      (\<forall>q\<in>set (a_ready a'). sint (prio s q) \<le> sint (prio s p))"
  using readyq.rem_Nil [of s a] readyq.rem_max [of s a] assms by auto

theorem removeProcQ_highest_priority_witness:
  "\<exists>s' a'. removeProcQ ReadyQueue forked = Some (Some 18, s') \<and> kwf s' a' \<and> a_ready a' = []"
proof -
  have "prio_sorted (prio forked) (a_ready forked_phase1)" by (simp add: prio_sorted_def)
  from removeProcQ_highest_priority [OF sample_wf(2) this] show ?thesis by fastforce
qed

section \<open>Process trees\<close>

text \<open>
  The process tree operations agree with the tree they represent. insertChild makes the
  new process the first child; removeChild then takes that child, and outChild of the child
  gives back the children as they were; both clear the parent pointer and keep the
  structures well formed.
\<close>

theorem insertChild_removeChild_outChild:
  assumes "kwf s a" "q \<in> live a" "c \<in> live a" "c \<noteq> q" "parent s c = None" "a_child a c = []"
  shows "\<exists>s1. insertChild (Some q) (Some c) s = s1 \<and> parent s1 c = Some q \<and>
    kwf s1 (a\<lparr>a_child := (a_child a)(q := c # a_child a q)\<rparr>) \<and>
    (\<exists>s2. removeChild (Some q) s1 = Some (Some c, s2) \<and> kwf s2 a \<and> pcbs s2 = pcbs s) \<and>
    (\<exists>s3. outChild (Some c) s1 = (Some c, s3) \<and> kwf s3 a \<and> pcbs s3 = pcbs s)"
proof -
  let ?a = "a\<lparr>a_child := (a_child a)(q := c # a_child a q)\<rparr>"
  obtain l where l: "insertChild (Some q) (Some c) s =
      s\<lparr>links := l, pcbs := (pcbs s)(c := (pcbs s c)\<lparr>p_parent := Some q\<rparr>)\<rparr>"
    "kwf (s\<lparr>links := l, pcbs := (pcbs s)(c := (pcbs s c)\<lparr>p_parent := Some q\<rparr>)\<rparr>) ?a"
    using insertChild_eq [OF assms] by blast
  let ?s = "s\<lparr>links := l, pcbs := (pcbs s)(c := (pcbs s c)\<lparr>p_parent := Some q\<rparr>)\<rparr>"
  have b: "(pcbs ?s)(c := (pcbs ?s c)\<lparr>p_parent := None\<rparr>) = pcbs s"
    using assms(5) by (cases "pcbs s c") (simp add: fun_upd_idem_iff)
  have a: "?a\<lparr>a_child := (a_child ?a)(q := a_child a q)\<rparr> = a"
    "?a\<lparr>a_child := (a_child ?a)(q := remove1 c (a_child ?a q))\<rparr> = a" by simp_all
  have q: "q \<in> live ?a" "c \<in> live ?a" "a_child ?a q = c # a_child a q" "parent ?s c = Some q"
    using assms(2,3) by simp_all
  from removeChild_Cons [OF l(2) q(1,3)] have r: "\<exists>s2. removeChild (Some q) ?s = Some (Some c, s2) \<and> kwf s2 a \<and> pcbs s2 = pcbs s"
    unfolding b a(1) by auto
  from outChild_eq [OF l(2) q(2,4)] have "\<exists>s3. outChild (Some c) ?s = (Some c, s3) \<and> kwf s3 a \<and> pcbs s3 = pcbs s"
    unfolding b a(2) by auto
  with r show ?thesis using l by auto
qed


theorem insertChild_removeChild_outChild_witness:
  "\<exists>s s2. allocPcb sample_platform booted = Some (Some 18, s) \<and>
    removeChild (Some 19) (insertChild (Some 19) (Some 18) s) = Some (Some 18, s2) \<and> pcbs s2 = pcbs s"
proof -
  let ?a = "boot_phase1\<lparr>a_free := rev [0..<18], a_child := (a_child boot_phase1)(18 := [])\<rparr>"
  obtain l where l: "allocPcb sample_platform booted = Some (Some 18, booted\<lparr>links := l,
      pcbs := (pcbs booted)(18 := fresh_pcb sample_platform (next_pid booted) (pcbs booted 18)),
      next_pid := next_pid booted + 1\<rparr>)"
    "kwf (booted\<lparr>links := l,
      pcbs := (pcbs booted)(18 := fresh_pcb sample_platform (next_pid booted) (pcbs booted 18)),
      next_pid := next_pid booted + 1\<rparr>) ?a"
    using allocPcb_Cons [OF sample_wf(1) boot_free] by blast
  have "19 \<in> live ?a" "18 \<in> live ?a" "a_child ?a 18 = []" by (simp_all add: live_def MAXPROC_def)
  then show ?thesis
    using insertChild_removeChild_outChild [OF l(2), of 19 18] l(1) by (fastforce simp: fresh_pcb_def)
qed

section \<open>The active semaphore list\<close>

text \<open>
  C12: insertBlocked never fails, although it allocates a descriptor for a semaphore that is
  not active: there are as many descriptors as PCBs, so one is free while a process is not
  blocked. The process goes to the end of the queue of the semaphore, its PCB records the
  semaphore, and the other queues are untouched.
\<close>

theorem insertBlocked_refines:
  assumes "kwf s a" "detached a p"
  shows "\<exists>s' a'. insertBlocked k p s = Some (False, s') \<and> kwf s' a' \<and>
    waiting s' a' = (waiting s a)(k := waiting s a k @ [p]) \<and>
    pcbs s' = (pcbs s)(p := (pcbs s p)\<lparr>p_semAdd := k\<rparr>) \<and>
    blocked a' = insert p (blocked a) \<and> a_ready a' = a_ready a \<and> a_free a' = a_free a"
  using insertBlocked_eq [OF assms, of k] by fastforce

theorem insertBlocked_refines_witness:
  "\<exists>s' a'. insertBlocked sample_sem 19 booted = Some (False, s') \<and> waiting s' a' sample_sem = [19]"
  using insertBlocked_refines [OF sample_wf(1) sample_detached(1), of sample_sem]
  by (metis append_Nil boot_phase1_simps(4) fun_upd_same)

text \<open>
  C13: removeBlocked returns the process that has waited longest for the semaphore and
  leaves the rest of the queue in order and the other queues untouched; when no process
  waits it returns NULL and changes nothing. headBlocked returns the process removeBlocked
  would return, without changing anything.
\<close>

theorem removeBlocked_refines:
  assumes "kwf s a"
  shows "headBlocked k s = Some (case waiting s a k of [] \<Rightarrow> None | p # _ \<Rightarrow> Some p) \<and>
    (case waiting s a k of
       [] \<Rightarrow> removeBlocked k s = Some (None, s)
     | p # q \<Rightarrow> \<exists>s' a'. removeBlocked k s = Some (Some p, s') \<and> kwf s' a' \<and>
         waiting s' a' = (waiting s a)(k := q) \<and> blocked a' = blocked a - {p} \<and>
         pcbs s' = pcbs s \<and> a_ready a' = a_ready a \<and> a_free a' = a_free a)"
proof
  show "headBlocked k s = Some (case waiting s a k of [] \<Rightarrow> None | p # _ \<Rightarrow> Some p)"
    by (rule headBlocked_eq [OF assms])
  show "case waiting s a k of [] \<Rightarrow> removeBlocked k s = Some (None, s)
     | p # q \<Rightarrow> \<exists>s' a'. removeBlocked k s = Some (Some p, s') \<and> kwf s' a' \<and>
         waiting s' a' = (waiting s a)(k := q) \<and> blocked a' = blocked a - {p} \<and>
         pcbs s' = pcbs s \<and> a_ready a' = a_ready a \<and> a_free a' = a_free a"
  proof (cases "waiting s a k")
    case Nil
    then show ?thesis using removeBlocked_Nil [OF assms Nil] by simp
  next
    case (Cons p q)
    then show ?thesis using removeBlocked_Cons [OF assms Cons] by fastforce
  qed
qed

theorem removeBlocked_refines_witness:
  "\<exists>s'. removeBlocked sample_sem waiting_kernel = Some (Some 19, s') \<and>
    headBlocked sample_sem waiting_kernel = Some (Some 19)"
proof -
  obtain a where a: "nucleus_inv waiting_kernel a" "waiting waiting_kernel a sample_sem = [19]"
    using waiting_kernel_inv by blast
  from removeBlocked_refines [OF nucleus_invD(3) [OF a(1)], of sample_sem] show ?thesis
    unfolding a(2) by auto
qed

text \<open>
  outBlocked removes the process from the queue of the semaphore it is blocked on,
  wherever in the queue it is, and keeps the order of the others; for a process that is not
  blocked it returns NULL and changes nothing.
\<close>

theorem outBlocked_refines:
  assumes "kwf s a"
  shows "if p \<in> blocked a
    then \<exists>s' a'. outBlocked p s = Some (Some p, s') \<and> kwf s' a' \<and>
      waiting s' a' = (waiting s a)(semAdd s p := remove1 p (waiting s a (semAdd s p))) \<and>
      blocked a' = blocked a - {p} \<and> pcbs s' = pcbs s
    else outBlocked p s = Some (None, s)"
  using outBlocked_other [OF assms, of p] outBlocked_eq [OF assms, of p] by fastforce

theorem outBlocked_refines_witness:
  "\<exists>s' a'. outBlocked 19 waiting_kernel = Some (Some 19, s') \<and> blocked a' = {}"
proof -
  obtain a where a: "nucleus_inv waiting_kernel a" "blocked a = {19}"
    using waiting_kernel_inv by blast
  from outBlocked_refines [OF nucleus_invD(3) [OF a(1)], of 19] show ?thesis
    using a(2) by auto
qed

text \<open>
  C15: Bounded waiting on a semaphore. A process that blocks behind n others is the last of
  the next n + 1 processes that removeBlocked returns, and those come in the order in which
  they blocked.
\<close>

theorem semaphore_fifo:
  assumes "kwf s a" "detached a p"
  shows "\<exists>s1 s2 a2. insertBlocked k p s = Some (False, s1) \<and>
    takes removeBlocked (Suc (length (waiting s a k))) k s1 = Some (waiting s a k @ [p], s2) \<and>
    kwf s2 a2 \<and> waiting s2 a2 = (waiting s a)(k := [])"
  by (rule semq.block_then_takes [OF assms])

theorem semaphore_fifo_witness:
  "\<exists>s1 s2. insertBlocked sample_sem 18 waiting_kernel = Some (False, s1) \<and>
    takes removeBlocked 2 sample_sem s1 = Some ([19, 18], s2)"
proof -
  obtain a where a: "nucleus_inv waiting_kernel a" "waiting waiting_kernel a sample_sem = [19]"
    "currProc waiting_kernel = Some 18" using waiting_kernel_inv by blast
  have "detached a 18" using current_not_blocked [OF a(1,3)] by (simp add: detached_def)
  from semaphore_fifo [OF nucleus_invD(3) [OF a(1)] this, of sample_sem] show ?thesis
    unfolding a(2) by (auto simp: numeral_2_eq_2)
qed

end
