(* ===== verification/Props_Nucleus.thy ===== *)
theory Props_Nucleus
  imports Samples
begin

text \<open>
  The properties of the scheduler, of the services of the nucleus and of the interrupt
  and exception handlers.
\<close>

section \<open>The scheduler\<close>

text \<open>
  C16: dispatch always decides. With a ready process it runs the first one, with a full time
  slice, and the invariant holds with that process running. With none it halts when no
  process is left, waits (with interrupts on and the processor local timer masked) when
  some process is blocked on a device, and panics otherwise.
\<close>

theorem dispatch_decides:
  assumes "ninv {} s a" "count_ok s a" "soft_ok pf s a"
  shows "case a_ready a of
      p # q \<Rightarrow> \<exists>s'. dispatch s = Some (LDST (p_s (pcbs s p)), s') \<and> nucleus_inv s' (a\<lparr>a_ready := q\<rparr>) \<and>
        currProc s' = Some p \<and> cpu_timer s' = TIMESLICE * ram s TIMESCALEADDR \<and> tod_start s' = tod s
    | [] \<Rightarrow> dispatch s =
        (if live a = {} then Some (HALT, s)
         else if soft_blocked pf s a \<noteq> {} then
           Some (WAIT, s\<lparr>cpu_mie := MIE_ALL AND NOT MIE_MTIE_MASK,
             cpu_status := cpu_status s OR MSTATUS_MIE_MASK\<rparr>)
         else Some (PANIC, s))"
proof (cases "a_ready a")
  case Nil
  note W = ninvD(1) [OF assms(1)]
  have "0 < sint (softBlock_count s) \<longleftrightarrow> soft_blocked pf s a \<noteq> {}"
    using of_nat_small_u32(2) [OF soft_blocked_card(2) [OF W]] assms(3) soft_blocked_card(1) [OF W, of pf]
    by (simp add: soft_ok_def card_gt_0_iff)
  then show ?thesis using dispatch_idle [OF assms(1,2) Nil] Nil by simp
next
  case (Cons p q)
  obtain l where "dispatch s = Some (LDST (p_s (pcbs s p)), s\<lparr>links := l, currProc := Some p,
      cpu_timer := TIMESLICE * ram s TIMESCALEADDR, tod_start := tod s\<rparr>)"
    "ninv {p} (s\<lparr>links := l, currProc := Some p,
      cpu_timer := TIMESLICE * ram s TIMESCALEADDR, tod_start := tod s\<rparr>) (a\<lparr>a_ready := q\<rparr>)"
    using dispatch_ready [OF assms(1) Cons] by blast
  then show ?thesis using Cons assms(2) by (simp add: nucleus_inv_def count_ok_def)
qed

text \<open>A state without processes, as the initialisation of the structures leaves it.\<close>

theorem dispatch_decides_witness:
  "\<exists>s. ninv {} s init_phase1 \<and> count_ok s init_phase1 \<and> dispatch s = Some (HALT, s)"
proof -
  let ?s = "initASL (initPcbs (mkEmptyProcQ (Some ReadyQueue) zero_kernel))"
  have n: "ninv {} ?s init_phase1" using phase1_init by (simp add: ninv_def prio_sorted_def)
  have c: "count_ok ?s init_phase1" "soft_ok sample_platform ?s init_phase1"
    by (simp_all add: count_ok_def soft_ok_def soft_blocked_def initASL_def initPcbs_def
        mkEmptyProcQ_def upd_links_def zero_kernel_def)
  from dispatch_decides [OF n c] show ?thesis using n c by auto
qed

section \<open>Services\<close>

text \<open>
  C17: CreateProcess. With a free PCB the new process gets the next identifier (which is
  returned), the given state, priority and support structure, is ready behind the processes
  of the same or a higher priority, and is the first child of the caller; without one the
  service returns -1 and changes nothing. The invariant holds in both cases.
\<close>

theorem nsys1_creates_process:
  assumes "nucleus_inv s a" "currProc s = Some q"
  shows "case a_free a of
      [] \<Rightarrow> nsys1 pf a1 a2 a3 s = Some (NOPROC, s)
    | p # f \<Rightarrow> \<exists>s'. nsys1 pf a1 a2 a3 s = Some (next_pid s, s') \<and> nucleus_inv s' (created s' q p a) \<and>
        p_pid (pcbs s' p) = next_pid s \<and> parent s' p = Some q \<and> prio s' p = a2 \<and>
        p_supportStruct (pcbs s' p) = a3 \<and> pc_epc (p_s (pcbs s' p)) = pc_epc (states s a1) \<and>
        (\<forall>r. r \<noteq> p \<longrightarrow> pcbs s' r = pcbs s r) \<and> next_pid s' = next_pid s + 1"
proof (cases "a_free a")
  case Nil
  then show ?thesis using nsys1_full [OF nucleus_invD(3) [OF assms(1)] Nil] by simp
next
  case (Cons p f)
  then show ?thesis
    using nsys1_creates [OF assms Cons, of pf a1 a2 a3] by (auto simp: Let_def new_pcb_def fresh_pcb_def)
qed

theorem nsys1_creates_process_witness:
  "\<exists>s'. nsys1 sample_platform 0 1 0 booted = Some (2, s') \<and> parent s' 18 = Some 19 \<and> prio s' 18 = 1"
  using nsys1_creates_process [OF booted_inv(2,3), of sample_platform 0 1 0] booted_inv(9)
  unfolding boot_free by auto

text \<open>
  C18: Passeren. On a positive semaphore the service decrements it and the caller goes on;
  otherwise the caller is saved, its processor time is charged, it joins the end of the
  queue of the semaphore, the value of the semaphore does not change, and the first ready
  process runs.
\<close>

theorem nsys3_passeren:
  assumes "nucleus_inv s a" "currProc s = Some p"
  shows "if 0 < sint (ram s k)
    then nsys3 pf k excState s = Some (LDST (states s excState), s\<lparr>ram := (ram s)(k := ram s k - 1)\<rparr>)
    else \<exists>e s' a'. nsys3 pf k excState s = Some (e, s') \<and> nucleus_inv s' a' \<and>
      waiting s' a' = (waiting s a)(k := waiting s a k @ [p]) \<and>
      p_s (pcbs s' p) = copyState pf (p_s (pcbs s p)) (states s excState) \<and>
      p_time (pcbs s' p) = p_time (pcbs s p) + (tod s - tod_start s) \<and> ram s' = ram s \<and>
      a_ready a' = tl (a_ready a) \<and>
      currProc s' = (case a_ready a of [] \<Rightarrow> None | q # _ \<Rightarrow> Some q)"
proof (cases "0 < sint (ram s k)")
  case True
  then show ?thesis using nsys3_takes by simp
next
  case False
  then show ?thesis
    using nsys3_blocks [OF assms False, of pf excState] by (auto simp: blocked_on_def saved_pcb_def)
qed

theorem nsys3_passeren_witness:
  "\<exists>e s' a'. nsys3 sample_platform sample_sem 0 forked = Some (e, s') \<and>
    waiting s' a' sample_sem = [19] \<and> currProc s' = Some 18"
  using nsys3_passeren [OF forked_inv(2,3), of sample_sem sample_platform 0]
  by (auto simp: forked_inv(6)) (metis append_Nil forked_phase1_simps(6) fun_upd_same)

text \<open>
  C19: Verhogen. When processes wait for the semaphore, the one that has waited longest
  becomes ready, placed by its priority, and the value of the semaphore does not change;
  otherwise the semaphore is incremented. The caller is never blocked.
\<close>

theorem nsys4_verhogen:
  assumes "nucleus_inv s a"
  shows "case waiting s a k of
      [] \<Rightarrow> nsys4 k s = Some (s\<lparr>ram := (ram s)(k := ram s k + 1)\<rparr>)
    | p # q \<Rightarrow> \<exists>s' a'. nsys4 k s = Some s' \<and> nucleus_inv s' a' \<and> waiting s' a' = (waiting s a)(k := q) \<and>
        a_ready a' = prio_insert (prio s) p (a_ready a) \<and> ram s' = ram s \<and> currProc s' = currProc s"
proof (cases "waiting s a k")
  case Nil
  then show ?thesis using nsys4_increments [OF nucleus_invD(3) [OF assms] Nil] by simp
next
  case (Cons p q)
  then show ?thesis using nsys4_wakes [OF assms Cons] by (fastforce simp: woken_def)
qed

theorem nsys4_verhogen_witness:
  "\<exists>s' a'. nsys4 sample_sem waiting_kernel = Some s' \<and> a_ready a' = [19] \<and> nucleus_inv s' a'"
proof -
  obtain a where a: "nucleus_inv waiting_kernel a" "waiting waiting_kernel a sample_sem = [19]" "a_ready a = []"
    using waiting_kernel_inv by blast
  from nsys4_verhogen [OF a(1), of sample_sem] show ?thesis unfolding a(2,3) by auto
qed


text \<open>
  C20: The request and the interrupt of a device use the same semaphore. Whatever event the
  interrupt handler finds on line L and device N, a DoIO on the command register that the
  handler acknowledges for that event blocks the caller on the semaphore that the handler
  signals, which is the semaphore of a device and not the pseudo-clock; the command is
  written to the register and the soft-block count goes up by one.
\<close>

theorem doio_matches_interrupt:
  assumes "platform_ok pf" "interrupt_line c = Some L" "pending_device bitmap = Some N"
    and "device_event pf L N s0 = Some (st, command, idx)"
    and "nucleus_inv s a" "currProc s = Some p"
  shows "idx < of_nat NSUPPSEM \<and>
    (\<exists>e s' a'. nsys5 pf command v excState s = Some (e, s') \<and> nucleus_inv s' a' \<and>
      waiting s' a' = (waiting s a)(device_semaphore pf idx := waiting s a (device_semaphore pf idx) @ [p]) \<and>
      ram s' = (ram s)(command := v) \<and> softBlock_count s' = softBlock_count s + 1)"
proof -
  note E = device_event_index [OF assms(1) interrupt_line_range [OF assms(2)]
      pending_device_range [OF assms(3)] assms(4)]
  from nsys5_blocks [OF assms(5,6) device_sem_at_index [OF E], of v excState] show ?thesis
    using E(2) by (auto simp: blocked_on_def)
qed

theorem doio_matches_interrupt_witness:
  "\<exists>e s' a'. device_event sample_platform 7 2 (booted\<lparr>ram := (\<lambda>_. 5)\<rparr>) = Some (5, 0x10000280, 42) \<and>
    nsys5 sample_platform 0x10000280 2 0 forked = Some (e, s') \<and>
    waiting s' a' (device_semaphore sample_platform 42) = [19]"
proof -
  have e: "device_event sample_platform 7 2 (booted\<lparr>ram := (\<lambda>_. 5)\<rparr>) = Some (5, 0x10000280, 42)"
    by (simp add: device_event_def device_address_def sample_platform_def Let_def)
  have "interrupt_line 21 = Some 7" "pending_device 4 = Some 2"
    by (simp_all add: interrupt_line_def pending_device_def)
  from doio_matches_interrupt [OF sample_platform_ok this e forked_inv(2,3), of 2 0]
  obtain e' s' a' where "nsys5 sample_platform 0x10000280 2 0 forked = Some (e', s')"
    "waiting s' a' = (waiting forked forked_phase1)(device_semaphore sample_platform 42 :=
      waiting forked forked_phase1 (device_semaphore sample_platform 42) @ [19])" by blast
  then show ?thesis using e by (intro exI [of _ e'] exI [of _ s'] exI [of _ a']) simp
qed

text \<open>
  C21: Yield. The caller goes back to the ready queue but the process that was first there
  runs, even when the caller has a higher priority; alone, the caller runs again. Its state
  is saved and its processor time charged.
\<close>

theorem nsys10_yield:
  assumes "nucleus_inv s a" "currProc s = Some p"
  shows "\<exists>e s' a'. nsys10 pf excState s = Some (e, s') \<and> nucleus_inv s' a' \<and>
    pcbs s' = (pcbs s)(p := saved_pcb pf excState s p) \<and>
    currProc s' = Some (case a_ready a of [] \<Rightarrow> p | h # _ \<Rightarrow> h) \<and>
    a_ready a' = (case a_ready a of [] \<Rightarrow> [] | _ # q \<Rightarrow> prio_insert (prio s) p q)"
proof (cases "a_ready a")
  case Nil
  obtain s' where "nsys10 pf excState s = Some (LDST (p_s (saved_pcb pf excState s p)), s')"
    "nucleus_inv s' a" "currProc s' = Some p" "pcbs s' = (pcbs s)(p := saved_pcb pf excState s p)"
    using nsys10_alone [OF assms Nil, of pf excState] by blast
  then show ?thesis using Nil by (intro exI [of _ s'] exI [of _ a] exI) auto
next
  case (Cons h q)
  obtain s' where "nsys10 pf excState s = Some (LDST (p_s (pcbs s h)), s')"
    "nucleus_inv s' (a\<lparr>a_ready := prio_insert (prio s) p q\<rparr>)" "currProc s' = Some h"
    "pcbs s' = (pcbs s)(p := saved_pcb pf excState s p)"
    using nsys10_yields [OF assms Cons, of pf excState] by blast
  then show ?thesis
    using Cons by (intro exI [of _ "LDST (p_s (pcbs s h))"] exI [of _ s']
        exI [of _ "a\<lparr>a_ready := prio_insert (prio s) p q\<rparr>"]) simp
qed

theorem nsys10_yield_witness:
  "\<exists>e s' a'. nsys10 sample_platform 0 forked = Some (e, s') \<and> nucleus_inv s' a' \<and>
    currProc s' = Some 18 \<and> a_ready a' = [19]"
  using nsys10_yield [OF forked_inv(2,3), of sample_platform 0] by fastforce



text \<open>
  C23: findPcbByPid ends and finds a process exactly when there is one: it returns a live
  process with the identifier, or NULL when no live process has it.
\<close>

theorem findPcbByPid_correct:
  assumes "nucleus_inv s a"
  shows "\<exists>r. findPcbByPid pid s = Some r \<and>
    (case r of None \<Rightarrow> \<forall>q\<in>live a. p_pid (pcbs s q) \<noteq> pid
     | Some q \<Rightarrow> q \<in> live a \<and> p_pid (pcbs s q) = pid)"
  by (rule findsE [OF findPcbByPid_finds [OF assms, of pid]]) auto

theorem findPcbByPid_correct_witness: "findPcbByPid 2 forked = Some (Some 18)"
  using findPcbByPid_correct [OF forked_inv(2), of 2] forked_pcbs(5,6)
  by (auto split: option.splits)

section \<open>Interrupts\<close>

text \<open>
  C24: The interval timer wakes every process that waits for the pseudo-clock, in the order
  in which they blocked, however many they are (the loop ends); the soft-block count goes
  down by their number, the pseudo-clock semaphore is reset, and the interrupted process
  goes back to the ready queue behind those of its priority.
\<close>

theorem itInterruptHandler_wakes_all:
  assumes "platform_ok pf" "sys_inv pf s a" "k = device_semaphore pf (of_nat NSUPPSEM)"
    and "q = (case currProc s of None \<Rightarrow> fold (prio_insert (prio s)) (waiting s a k) (a_ready a)
      | Some p \<Rightarrow> prio_insert (prio s) p (fold (prio_insert (prio s)) (waiting s a k) (a_ready a)))"
  shows "\<exists>e s' a'. itInterruptHandler pf s = Some (e, s') \<and> nucleus_inv s' a' \<and>
    waiting s' a' = (waiting s a)(k := []) \<and> blocked a' = blocked a - set (waiting s a k) \<and>
    a_ready a' = tl q \<and> currProc s' = (case q of [] \<Rightarrow> None | p # _ \<Rightarrow> Some p) \<and>
    ram s' = (ram s)(k := 0) \<and>
    softBlock_count s' = softBlock_count s - of_nat (length (waiting s a k))"
  using itInterruptHandler_wakes [OF sys_invD(1) [OF assms(2)] assms(3) refl refl assms(4)] by blast

theorem itInterruptHandler_wakes_all_witness:
  "\<exists>e s' a'. itInterruptHandler sample_platform clock_kernel = Some (e, s') \<and> nucleus_inv s' a' \<and>
    waiting s' a' (device_semaphore sample_platform (of_nat NSUPPSEM)) = [] \<and> currProc s' \<noteq> None"
proof -
  let ?k = "device_semaphore sample_platform (of_nat NSUPPSEM)"
  obtain a where a: "nucleus_inv clock_kernel a" "soft_ok sample_platform clock_kernel a"
    "waiting clock_kernel a ?k = [19]" "currProc clock_kernel = Some 18" "a_ready a = []"
    using clock_kernel_inv by blast
  have "sys_inv sample_platform clock_kernel a" using a(1,2) by (simp add: sys_inv_def)
  from itInterruptHandler_wakes_all [OF sample_platform_ok this refl refl] obtain e s' a' where
    h: "itInterruptHandler sample_platform clock_kernel = Some (e, s')" "nucleus_inv s' a'"
      "waiting s' a' = (waiting clock_kernel a)(?k := [])"
      "currProc s' = (case prio_insert (prio clock_kernel) 18 (prio_insert (prio clock_kernel) 19 []) of
        [] \<Rightarrow> None | p # _ \<Rightarrow> Some p)"
    unfolding a(3-5) by auto
  obtain x xs where "prio_insert (prio clock_kernel) 18 (prio_insert (prio clock_kernel) 19 []) = x # xs"
    by (metis length_prio_insert length_Suc_conv)
  then show ?thesis using h by (intro exI [of _ e] exI [of _ s'] exI [of _ a']) simp
qed

text \<open>
  C25: The processor local timer implements round robin: the running process is saved and
  goes behind the ready processes of the same or a higher priority, and the first one runs.
  A process of at least the same priority that is ready therefore runs before it.
\<close>

theorem pltInterruptHandler_round_robin:
  assumes "nucleus_inv s a" "currProc s = Some p"
  shows "\<exists>e s' a'. pltInterruptHandler pf s = Some (e, s') \<and> nucleus_inv s' a' \<and>
    pcbs s' = (pcbs s)(p := saved_pcb pf (getCurrExceptionState pf) s p) \<and>
    (if \<exists>q\<in>set (a_ready a). sint (prio s p) \<le> sint (prio s q)
     then currProc s' = Some (hd (a_ready a)) else currProc s' = Some p)"
proof -
  have n: "ninv {p} s a" using nucleus_invD(1) [OF assms(1)] assms(2) by simp
  obtain xs ys where i: "a_ready a = xs @ ys" "prio_insert (prio s) p (a_ready a) = xs @ p # ys"
    "\<forall>c\<in>set xs. sint (prio s p) \<le> sint (prio s c)" "\<forall>d\<in>set ys. sint (prio s d) < sint (prio s p)"
    using prio_insert_split_sorted [OF ninvD(4) [OF n]] by blast
  then have "hd (prio_insert (prio s) p (a_ready a)) =
      (if \<exists>q\<in>set (a_ready a). sint (prio s p) \<le> sint (prio s q) then hd (a_ready a) else p)"
    by (cases xs) auto
  then show ?thesis using pltInterruptHandler_requeues [OF assms, of pf] by fastforce
qed

theorem pltInterruptHandler_round_robin_witness:
  "\<exists>e s'. pltInterruptHandler sample_platform forked = Some (e, s') \<and> currProc s' = Some 18"
  using pltInterruptHandler_round_robin [OF forked_inv(2,3), of sample_platform]
  by (auto simp: forked_pcbs(7,8))


text \<open>
  C26: A device interrupt. The event of the first pending device of the line is acknowledged
  in its command register; the process that has waited longest for the device gets the
  status in its register a0 and becomes ready, and the soft-block count goes down by one.
  The interrupted process goes on with the state it had.
\<close>

theorem deviceInterruptHandler_completes:
  assumes "nucleus_inv s a" "currProc s = Some c" "interrupt_line code = Some L"
    and "pending_device (ram s (0x10000040 + (L - 3) * WORDLEN)) = Some N"
    and "device_event pf L N s = Some (st, command, idx)"
    and "waiting s a (device_semaphore pf idx) = p # q"
  shows "\<exists>s' a'. deviceInterruptHandler pf code s = Some (LDST (states s (getCurrExceptionState pf)), s') \<and>
    nucleus_inv s' a' \<and> ram s' = (ram s)(command := ACK pf) \<and>
    reg_a0 pf (p_s (pcbs s' p)) = st \<and> softBlock_count s' = softBlock_count s - 1 \<and>
    waiting s' a' = (waiting s a)(device_semaphore pf idx := q) \<and>
    a_ready a' = prio_insert (prio s) p (a_ready a) \<and> currProc s' = Some c"
proof -
  let ?t = "s\<lparr>ram := (ram s)(command := ACK pf)\<rparr>"
  have n: "nucleus_inv ?t a"
  proof -
    have "ninv (set_option (currProc s)) ?t a" by (rule ninv_frame [OF nucleus_invD(1) [OF assms(1)]]) simp_all
    then show ?thesis using nucleus_invD(2) [OF assms(1)] by (simp add: nucleus_inv_def count_ok_def)
  qed
  have w: "waiting ?t a = waiting s a" by (rule waiting_frame) simp_all
  then have "waiting ?t a (device_semaphore pf idx) = p # q" using assms(6) by simp
  from signal_device_wakes [OF n this, of pf st] obtain s' a' where
    g: "signal_device pf (device_semaphore pf idx) st ?t = Some s'" "nucleus_inv s' a'"
      "woken (device_semaphore pf idx) p ?t a s' a'" "ram s' = ram ?t" "states s' = states s"
      "pcbs s' = (pcbs s)(p := (pcbs s p)\<lparr>p_s := set_a0 pf st (p_s (pcbs s p))\<rparr>)"
      "softBlock_count s' = softBlock_count s - 1" "currProc s' = currProc s"
    unfolding Let_def by fastforce
  have "deviceInterruptHandler pf code s = resume pf s'"
    using deviceInterruptHandler_event [OF assms(3-5)] g(1) by simp
  then show ?thesis
    using g assms(2,6) w by (intro exI [of _ s'] exI [of _ a']) (simp add: resume_def woken_def set_a0_def)
qed


theorem deviceInterruptHandler_completes_witness:
  "\<exists>e s' a'. deviceInterruptHandler sample_platform 21 io_kernel = Some (e, s') \<and> nucleus_inv s' a' \<and>
    reg_a0 sample_platform (p_s (pcbs s' 19)) = 5 \<and> a_ready a' = [19]"
proof -
  obtain a where a: "nucleus_inv io_kernel a" "waiting io_kernel a (device_semaphore sample_platform 42) = [19]"
    "currProc io_kernel = Some 18" "a_ready a = []" using io_kernel_inv by blast
  have r: "ram io_kernel = (\<lambda>_. 0)(0x10000050 := 4, 0x1000027C := 5)" by (simp add: io_kernel_def)
  have "interrupt_line 21 = Some 7" by (simp add: interrupt_line_def)
  moreover have "pending_device (ram io_kernel (0x10000040 + (7 - 3) * WORDLEN)) = Some 2"
    by (simp add: r pending_device_def)
  moreover have "device_event sample_platform 7 2 io_kernel = Some (5, 0x10000280, 42)"
    by (simp add: device_event_def device_address_def sample_platform_def Let_def r)
  ultimately show ?thesis
    using deviceInterruptHandler_completes [OF a(1,3) _ _ _ a(2)] a(4) by (metis prio_insert_Nil)
qed

section \<open>Exceptions\<close>

text \<open>
  C27: A service of the nucleus requested in user mode is not performed: the request is
  passed up to the support level as a general exception with the code of a privileged
  instruction, at the address of the request, and no structure of the nucleus changes.
\<close>

theorem user_mode_request_trapped:
  assumes "currProc s = Some p" "p_supportStruct (pcbs s p) = spt" "spt \<noteq> NULL"
    and "st = states s (getCurrExceptionState pf)" "sint (gpr st (gpr_a0 pf)) < 0"
    and "MSTATUS_MPP_MASK AND status st = MSTATUS_MPP_U"
  shows "\<exists>s'. syscallHandler pf s = Some (LDCXT (ctx_stackPtr (sup_exceptContext (supports s spt) GENERALEXCEPT))
        (ctx_status (sup_exceptContext (supports s spt) GENERALEXCEPT))
        (ctx_pc (sup_exceptContext (supports s spt) GENERALEXCEPT)), s') \<and>
    cause (sup_exceptState (supports s' spt) GENERALEXCEPT) =
      (cause st AND CLEAREXECCODE) OR push_bit CAUSESHIFT PRIVINSTR \<and>
    pc_epc (sup_exceptState (supports s' spt) GENERALEXCEPT) = pc_epc st \<and>
    links s' = links s \<and> pcbs s' = pcbs s \<and> semds s' = semds s \<and> ram s' = ram s \<and> currProc s' = currProc s"
  using assms
  by (simp add: syscallHandler_def exc_trapHandler_def passUpOrDie_def Let_def upd_state_def)

theorem user_mode_request_trapped_witness:
  "\<exists>s e s'. currProc s = Some 19 \<and> syscallHandler sample_platform s = Some (e, s') \<and>
    cause (sup_exceptState (supports s' 0x20008000) GENERALEXCEPT) = 40"
proof -
  let ?s = "booted\<lparr>pcbs := (pcbs booted)(19 := (pcbs booted 19)\<lparr>p_supportStruct := 0x20008000\<rparr>),
    states := (\<lambda>_. zero_st\<lparr>gpr := (\<lambda>_. - 3)\<rparr>)\<rparr>"
  have "currProc ?s = Some 19" "p_supportStruct (pcbs ?s 19) = 0x20008000" "(0x20008000 :: u32) \<noteq> NULL"
    using booted_inv(3) by simp_all
  from user_mode_request_trapped [OF this refl, of sample_platform] show ?thesis
    using booted_inv(3) by (intro exI [of _ ?s]) (auto simp: zero_st_def)
qed

section \<open>Where termination fails\<close>

text \<open>
  C28: The semaphore address in a PCB is not cleared when the process is woken. A process
  without children that waits for a semaphore, is woken by Verhogen while no other process
  is ready, and is then terminated stays linked in the ready queue while its PCB is on the
  free list: after terminateProcess no abstract state describes the structures.
\<close>

theorem woken_process_termination_corrupts:
  assumes "nucleus_inv s a" "waiting s a k = p # q" "k \<noteq> NULL" "a_ready a = []" "a_child a p = []"
  shows "\<exists>s1 s2. nsys4 k s = Some s1 \<and> terminateProcess pf (Some p) s1 = Some s2 \<and> (\<forall>a'. \<not> kwf s2 a')"
  by (rule wake_terminate_corrupts [OF assms])

theorem woken_process_termination_corrupts_witness:
  "\<exists>s1 s2. nsys4 sample_sem child_waits = Some s1 \<and>
    terminateProcess sample_platform (Some 18) s1 = Some s2 \<and> (\<forall>a'. \<not> kwf s2 a')"
proof -
  obtain a where a: "nucleus_inv child_waits a" "waiting child_waits a sample_sem = [18]" "a_ready a = []"
    "a_child a 18 = []" using child_waits_inv by blast
  have "sample_sem \<noteq> NULL" by (simp add: sample_sem_def)
  from woken_process_termination_corrupts [OF a(1,2) this a(3,4), of sample_platform] show ?thesis .
qed

text \<open>
  C29: TerminateProcess of another process does not resume the caller. When no process
  outside the terminated tree is ready and none waits for a device, the system panics
  although the caller is alive.
\<close>

theorem nsys2_other_panics:
  assumes "sys_inv pf s a" "currProc s = Some c" "p \<in> live a" "c \<notin> desc a p"
    and "inj_on (\<lambda>q. p_pid (pcbs s q)) (live a)" "p_pid (pcbs s p) \<noteq> 0"
    and "\<And>q. q \<in> desc a p \<Longrightarrow> term_ok s a q"
    and "set (a_ready a) \<subseteq> desc a p" "soft_blocked pf s a \<subseteq> desc a p"
  shows "\<exists>s'. nsys2 pf (p_pid (pcbs s p)) excState s = Some (PANIC, s')"
  by (rule nsys2_panics [OF sys_invD(1,2) [OF assms(1)] assms(2-9)])

theorem nsys2_other_panics_witness:
  "\<exists>s'. nsys2 sample_platform 2 0 forked = Some (PANIC, s')"
proof -
  have "18 \<in> live forked_phase1" "19 \<notin> desc forked_phase1 18" "p_pid (pcbs forked 18) \<noteq> 0"
    "set (a_ready forked_phase1) \<subseteq> desc forked_phase1 18"
    "soft_blocked sample_platform forked forked_phase1 \<subseteq> desc forked_phase1 18"
    using forked_pcbs(5) by (simp_all add: forked_desc soft_blocked_def)
  moreover have "\<And>q. q \<in> desc forked_phase1 18 \<Longrightarrow> term_ok forked forked_phase1 q"
    using forked_term_ok by (simp add: forked_desc)
  ultimately show ?thesis
    using nsys2_other_panics [OF sample_sys_inv(2) forked_inv(3) _ _ forked_pids, of 18 0] forked_pcbs(5) by simp
qed

end
