(* ===== verification/Support.thy ===== *)
theory Support
  imports Exceptions
begin

text \<open>
  The support level of phase 3: virtual memory (phase3/src/vmSupport.c), the
  initialisation of user processes (helpers.c and initProc.c) and the services for user
  processes (sysSupport.c and syscalls.c).

  This code runs as part of a process and asks the nucleus for services with SYSCALL.
  Its state extends the state of the nucleus. A request to the nucleus is recorded in
  \<open>calls\<close>, and what it returns is the next element of \<open>replies\<close>: the completion status
  of an operation on a device, the identifier of a new process, a pointer. A request that
  is never answered makes the code undefined (\<open>None\<close>). While the code waits for an answer
  other processes may run; those do not change the data of the support level, which the
  code protects with semaphores.
\<close>

section \<open>Constants\<close>

abbreviation (input) PAGESIZE :: u32 where
  "PAGESIZE \<equiv> 4096"

abbreviation (input) KUSEG :: u32 where
  "KUSEG \<equiv> 0x80000000"

abbreviation (input) DIRTYON :: u32 where
  "DIRTYON \<equiv> 0x400"

abbreviation (input) VALIDON :: u32 where
  "VALIDON \<equiv> 0x200"

abbreviation (input) GETSHAREFLAG :: u32 where
  "GETSHAREFLAG \<equiv> 0xC0000000"

abbreviation (input) ASIDSHIFT :: nat where
  "ASIDSHIFT \<equiv> 6"

abbreviation (input) SHAREDSEGFLAG :: nat where
  "SHAREDSEGFLAG \<equiv> 30"

abbreviation (input) PRIVATE :: u32 where
  "PRIVATE \<equiv> 2"

abbreviation (input) UPROCSTARTADDR :: u32 where
  "UPROCSTARTADDR \<equiv> 0x800000B0"

abbreviation (input) USERSTACKTOP :: u32 where
  "USERSTACKTOP \<equiv> 0xC0000000"

abbreviation (input) UPROCMAX :: nat where
  "UPROCMAX \<equiv> 8"

abbreviation (input) POOLSIZE :: nat where
  "POOLSIZE \<equiv> 16"

abbreviation (input) USERPGTBLSIZE :: nat where
  "USERPGTBLSIZE \<equiv> 32"

abbreviation (input) FLASHPOOLSTART :: u32 where
  "FLASHPOOLSTART \<equiv> 0x20020000"

abbreviation (input) FLASHREAD :: u32 where
  "FLASHREAD \<equiv> 2"

abbreviation (input) FLASHWRITE :: u32 where
  "FLASHWRITE \<equiv> 3"

abbreviation (input) TRANSMITCHAR :: u32 where
  "TRANSMITCHAR \<equiv> 2"

abbreviation (input) RECEIVECHAR :: u32 where
  "RECEIVECHAR \<equiv> 2"

abbreviation (input) MAXSTRLENG :: nat where
  "MAXSTRLENG \<equiv> 128"

abbreviation (input) SHELL_ASID :: u32 where
  "SHELL_ASID \<equiv> 1"

abbreviation (input) PROCESS_PRIO_LOW :: u32 where
  "PROCESS_PRIO_LOW \<equiv> 0"

abbreviation (input) CREATEPROCESS :: u32 where
  "CREATEPROCESS \<equiv> - 1"

abbreviation (input) TERMPROCESS :: u32 where
  "TERMPROCESS \<equiv> - 2"

abbreviation (input) PASSEREN :: u32 where
  "PASSEREN \<equiv> - 3"

abbreviation (input) VERHOGEN :: u32 where
  "VERHOGEN \<equiv> - 4"

abbreviation (input) DOIO :: u32 where
  "DOIO \<equiv> - 5"

abbreviation (input) GETSUPPORTPTR :: u32 where
  "GETSUPPORTPTR \<equiv> - 8"

abbreviation (input) SYSEXCEPTION :: u32 where
  "SYSEXCEPTION \<equiv> 8"

abbreviation (input) TERMINATE :: u32 where
  "TERMINATE \<equiv> 2"

abbreviation (input) WRITETERMINAL :: u32 where
  "WRITETERMINAL \<equiv> 4"

abbreviation (input) READTERMINAL :: u32 where
  "READTERMINAL \<equiv> 5"

abbreviation (input) EXECUTE :: u32 where
  "EXECUTE \<equiv> 6"

section \<open>The state\<close>

text \<open>
  What the support level uses of the machine and of the memory layout: addresses of its
  variables and functions, offsets of fields, and the probe of the TLB. \<open>TLBP\<close> gives the
  contents of the index register for an EntryHI value, and \<open>tlb_slot\<close> the entry such a
  value names.
\<close>

record splatform = platform +
  EXC_MOD :: u32
  DEV_REG_ADDR :: "u32 \<Rightarrow> u32 \<Rightarrow> u32"
  off_command :: u32
  off_data0 :: u32
  off_recv_command :: u32
  off_transm_command :: u32
  off_stackTLB :: u32
  off_stackGen :: u32
  sizeof_support_t :: u32
  adr_supportPool :: u32
  adr_swapSemaphore :: u32
  adr_masterSemaphore :: u32
  adr_shellSemaphore :: u32
  adr_termWriteSemaphore :: u32
  adr_termReadSemaphore :: u32
  adr_pager :: u32
  adr_generalExceptionHandler :: u32
  adr_procState :: u32                  \<comment> \<open>the local variable of createUProc\<close>
  TLBP_index :: "(nat \<rightharpoonup> u32 \<times> u32) \<Rightarrow> u32 \<Rightarrow> u32"
  tlb_slot :: "u32 \<Rightarrow> nat"

text \<open>
  An entry of the Swap Pool. A pointer to a page table entry is the address of the support
  structure and the index of the entry; \<open>None\<close> is NULL.
\<close>

record swap_t =
  sw_asid :: u32
  sw_pageNo :: u32
  sw_pte :: "(u32 \<times> nat) option"

record world = kernel +
  swapPool :: "nat \<Rightarrow> swap_t"
  holdingSwapMutex :: "nat \<Rightarrow> u32"
  fifoCont :: nat
  bytes :: "u32 \<Rightarrow> 8 word"           \<comment> \<open>the memory of the user process\<close>
  tlb :: "nat \<rightharpoonup> u32 \<times> u32"         \<comment> \<open>the entries of the TLB\<close>
  calls :: "(u32 \<times> u32 \<times> u32 \<times> u32) list"
  replies :: "u32 list"

text \<open>How a handler of the support level ends.\<close>

datatype sexit =
    S_LDST state_t
  | S_TERMINATED
  | S_PANIC

definition SYSCALL :: "u32 \<Rightarrow> u32 \<Rightarrow> u32 \<Rightarrow> u32 \<Rightarrow> world \<Rightarrow> (u32 \<times> world) option" where
  "SYSCALL n a1 a2 a3 w =
    (case replies w of
       [] \<Rightarrow> None
     | r # rs \<Rightarrow> Some (r, w\<lparr>replies := rs, calls := calls w @ [(n, a1, a2, a3)]\<rparr>))"

text \<open>The call of TERMPROCESS, which does not return.\<close>

definition SYSCALL_terminate :: "world \<Rightarrow> sexit \<times> world" where
  "SYSCALL_terminate w = (S_TERMINATED, w\<lparr>calls := calls w @ [(TERMPROCESS, 0, 0, 0)]\<rparr>)"

definition set_pool :: "nat \<Rightarrow> (swap_t \<Rightarrow> swap_t) \<Rightarrow> world \<Rightarrow> world" where
  "set_pool i f w = w\<lparr>swapPool := (swapPool w)(i := f (swapPool w i))\<rparr>"

definition pte_at :: "u32 \<times> nat \<Rightarrow> world \<Rightarrow> pteEntry_t" where
  "pte_at q w = sup_privatePgTbl (supports w (fst q)) (snd q)"

definition set_pte :: "u32 \<times> nat \<Rightarrow> (pteEntry_t \<Rightarrow> pteEntry_t) \<Rightarrow> world \<Rightarrow> world" where
  "set_pte q f w = w\<lparr>supports := (supports w)(fst q := (supports w (fst q))
     \<lparr>sup_privatePgTbl := (sup_privatePgTbl (supports w (fst q)))(snd q := f (pte_at q w))\<rparr>)\<rparr>"

section \<open>vmSupport.c\<close>

primrec initPagetable_loop :: "nat \<Rightarrow> u32 \<Rightarrow> (nat \<Rightarrow> pteEntry_t) \<Rightarrow> (nat \<Rightarrow> pteEntry_t)" where
  "initPagetable_loop 0 asid t = t"
| "initPagetable_loop (Suc i) asid t = (initPagetable_loop i asid t)(i :=
     \<lparr>pte_entryHI = (KUSEG + push_bit VPNSHIFT (of_nat i)) OR push_bit ASIDSHIFT asid, pte_entryLO = DIRTYON\<rparr>)"

definition initPagetable :: "(nat \<Rightarrow> pteEntry_t) \<Rightarrow> u32 \<Rightarrow> (nat \<Rightarrow> pteEntry_t)" where
  "initPagetable t asid = (initPagetable_loop (USERPGTBLSIZE - 1) asid t)(31 :=
     \<lparr>pte_entryHI = push_bit VPNSHIFT 0xBFFFF OR push_bit ASIDSHIFT asid, pte_entryLO = DIRTYON\<rparr>)"

definition free_frame :: swap_t where
  "free_frame = \<lparr>sw_asid = - 1, sw_pageNo = - 1, sw_pte = None\<rparr>"

definition initSwapPool :: "splatform \<Rightarrow> world \<Rightarrow> world option" where
  "initSwapPool pf w = do {
     let w = fold (\<lambda>i. set_pool i (\<lambda>_. free_frame)) [0..<POOLSIZE] w;
     (_, w) \<leftarrow> SYSCALL VERHOGEN (adr_swapSemaphore pf) 0 0 w;
     Some w
   }"

text \<open>The body of the loop of freeSwapFrames for the frame \<open>j\<close>.\<close>

definition free_if_owned :: "u32 \<Rightarrow> nat \<Rightarrow> world \<Rightarrow> world" where
  "free_if_owned asid j w =
    (if sw_asid (swapPool w j) = asid then
       (let w = (case sw_pte (swapPool w j) of
                   Some q \<Rightarrow> set_pte q (\<lambda>e. e\<lparr>pte_entryLO := pte_entryLO e AND NOT VALIDON\<rparr>) w
                 | None \<Rightarrow> w)
        in set_pool j (\<lambda>_. free_frame) w)
     else w)"

definition freeSwapFrames :: "splatform \<Rightarrow> u32 \<Rightarrow> world \<Rightarrow> world option" where
  "freeSwapFrames pf asid w = do {
     (_, w) \<leftarrow> SYSCALL PASSEREN (adr_swapSemaphore pf) 0 0 w;
     let oldStatus = cpu_status w;
     let w = w\<lparr>cpu_status := oldStatus AND NOT MSTATUS_MIE_MASK\<rparr>;
     let w = fold (free_if_owned asid) [0..<POOLSIZE] w;
     let w = w\<lparr>tlb := Map.empty\<rparr>;
     let w = w\<lparr>cpu_status := oldStatus\<rparr>;
     (_, w) \<leftarrow> SYSCALL VERHOGEN (adr_swapSemaphore pf) 0 0 w;
     Some w
   }"

definition getFlashBlock :: "u32 \<Rightarrow> u32" where
  "getFlashBlock vpn = (if vpn = 0xBFFFF then 31 else vpn - 0x80000)"

definition getFlashRegister :: "u32 \<Rightarrow> u32 option" where
  "getFlashRegister asid =
    (let devNo = asid - 1
     in if sint devNo < 0 \<or> int UPROCMAX \<le> sint devNo then None
        else Some (START_DEVREG + (4 - 3) * 0x80 + devNo * 0x10))"

definition readWriteFlashdrive ::
  "splatform \<Rightarrow> u32 \<Rightarrow> u32 \<Rightarrow> u32 \<Rightarrow> u32 \<Rightarrow> world \<Rightarrow> (u32 \<times> world) option" where
  "readWriteFlashdrive pf asid vpn phisicalFrame op w =
    (let block = getFlashBlock vpn
     in if sint block < 0 \<or> int USERPGTBLSIZE \<le> sint block then Some (- 1, w)
        else (case getFlashRegister asid of
           None \<Rightarrow> Some (- 1, w)
         | Some reg \<Rightarrow> do {
             let w = w\<lparr>ram := (ram w)(reg + off_data0 pf := phisicalFrame)\<rparr>;
             let command = push_bit 8 block OR op;
             SYSCALL DOIO (reg + off_command pf) command 0 w
           }))"

text \<open>The update of a cached TLB entry, which the pager does for the old and the new page.\<close>

definition update_tlb :: "splatform \<Rightarrow> u32 \<times> nat \<Rightarrow> world \<Rightarrow> world" where
  "update_tlb pf q w =
    (let w = w\<lparr>cpu_entryHI := pte_entryHI (pte_at q w)\<rparr>;
         idx = TLBP_index pf (tlb w) (cpu_entryHI w)
     in if idx AND 0x80000000 = 0 then
          (let w = w\<lparr>cpu_entryLO := pte_entryLO (pte_at q w)\<rparr>
           in w\<lparr>tlb := (tlb w)(tlb_slot pf idx \<mapsto> (cpu_entryHI w, cpu_entryLO w))\<rparr>)
        else w)"

text \<open>The choice of a frame: the first free one, or the next one in turn.\<close>

definition choose_frame :: "world \<Rightarrow> nat \<times> world" where
  "choose_frame w =
    (case find (\<lambda>j. sw_asid (swapPool w j) = - 1) [0..<POOLSIZE] of
       Some j \<Rightarrow> (j, w)
     | None \<Rightarrow> (fifoCont w, w\<lparr>fifoCont := (fifoCont w + 1) mod POOLSIZE\<rparr>))"

definition frame_address :: "nat \<Rightarrow> u32" where
  "frame_address i = FLASHPOOLSTART + of_nat i * PAGESIZE"

text \<open>
  The eviction of the page that occupies the frame \<open>i\<close>. The pager dereferences the pointer
  to the page table entry without a test.
\<close>

definition evict :: "splatform \<Rightarrow> nat \<Rightarrow> world \<Rightarrow> world option" where
  "evict pf i w =
    (if sw_asid (swapPool w i) \<noteq> - 1 then do {
       let x = sw_asid (swapPool w i);
       let k = sw_pageNo (swapPool w i);
       xPte \<leftarrow> sw_pte (swapPool w i);
       let status = cpu_status w;
       let w = w\<lparr>cpu_status := status AND NOT MSTATUS_MIE_MASK\<rparr>;
       let w = set_pte xPte (\<lambda>e. e\<lparr>pte_entryLO := pte_entryLO e AND NOT VALIDON\<rparr>) w;
       let w = update_tlb pf xPte w;
       let w = w\<lparr>cpu_status := status\<rparr>;
       (_, w) \<leftarrow> readWriteFlashdrive pf x k (frame_address i) FLASHWRITE w;
       Some w
     } else Some w)"

text \<open>The page of the process becomes present in the frame \<open>i\<close>.\<close>

definition install :: "splatform \<Rightarrow> nat \<Rightarrow> u32 \<Rightarrow> u32 \<Rightarrow> world \<Rightarrow> world option" where
  "install pf i suppPtr missingPageNo w = do {
     let w = set_pool i (\<lambda>e. e\<lparr>sw_asid := sup_asid (supports w suppPtr)\<rparr>) w;
     let w = set_pool i (\<lambda>e. e\<lparr>sw_pageNo := missingPageNo\<rparr>) w;
     let pageIdx = getFlashBlock missingPageNo;
     let status = cpu_status w;
     let w = w\<lparr>cpu_status := status AND NOT MSTATUS_MIE_MASK\<rparr>;
     pte \<leftarrow> (if 0 \<le> sint pageIdx \<and> sint pageIdx < int USERPGTBLSIZE
             then Some (suppPtr, unat pageIdx) else None);
     let w = set_pool i (\<lambda>e. e\<lparr>sw_pte := Some pte\<rparr>) w;
     let w = set_pte pte (\<lambda>e. e\<lparr>pte_entryLO := frame_address i OR DIRTYON OR VALIDON\<rparr>) w;
     let w = update_tlb pf pte w;
     Some (w\<lparr>cpu_status := status\<rparr>)
   }"

section \<open>Services of syscalls.c: termination\<close>

text \<open>An index into holdingSwapMutex.\<close>

definition mutex_index :: "u32 \<Rightarrow> nat option" where
  "mutex_index asid =
    (if 0 \<le> sint (asid - 1) \<and> sint (asid - 1) < int UPROCMAX then Some (unat (asid - 1)) else None)"

definition sys2 :: "splatform \<Rightarrow> u32 \<Rightarrow> world \<Rightarrow> (sexit \<times> world) option" where
  "sys2 pf spt w = do {
     let asid = sup_asid (supports w spt);
     i \<leftarrow> mutex_index asid;
     w \<leftarrow> (if holdingSwapMutex w i \<noteq> 0 then do {
            let w = w\<lparr>holdingSwapMutex := (holdingSwapMutex w)(i := 0)\<rparr>;
            (_, w) \<leftarrow> SYSCALL VERHOGEN (adr_swapSemaphore pf) 0 0 w;
            Some w
          } else Some w);
     (_, w) \<leftarrow> SYSCALL VERHOGEN (if asid = SHELL_ASID then adr_masterSemaphore pf else adr_shellSemaphore pf) 0 0 w;
     w \<leftarrow> freeSwapFrames pf asid w;
     Some (SYSCALL_terminate w)
   }"

definition programTrapHandler :: "splatform \<Rightarrow> u32 \<Rightarrow> world \<Rightarrow> (sexit \<times> world) option" where
  "programTrapHandler pf spt w = sys2 pf spt w"

section \<open>The pager\<close>

definition missing_page :: "state_t \<Rightarrow> u32" where
  "missing_page st = drop_bit VPNSHIFT (entry_hi st AND (GETSHAREFLAG OR GETPAGENO))"

definition pager :: "splatform \<Rightarrow> world \<Rightarrow> (sexit \<times> world) option" where
  "pager pf w = do {
     (suppPtr, w) \<leftarrow> SYSCALL GETSUPPORTPTR 0 0 0 w;
     let cause = cause (sup_exceptState (supports w suppPtr) PGFAULTEXCEPT) AND CAUSE_EXCCODE_MASK pf;
     if cause = EXC_MOD pf then programTrapHandler pf suppPtr w
     else do {
       (_, w) \<leftarrow> SYSCALL PASSEREN (adr_swapSemaphore pf) 0 0 w;
       m \<leftarrow> mutex_index (sup_asid (supports w suppPtr));
       let w = w\<lparr>holdingSwapMutex := (holdingSwapMutex w)(m := 1)\<rparr>;
       let missingPageNo = missing_page (sup_exceptState (supports w suppPtr) PGFAULTEXCEPT);
       let (i, w) = choose_frame w;
       w \<leftarrow> evict pf i w;
       (ioStatus, w) \<leftarrow> readWriteFlashdrive pf (sup_asid (supports w suppPtr)) missingPageNo
                          (frame_address i) FLASHREAD w;
       if ioStatus \<noteq> 1 then do {
         let w = w\<lparr>holdingSwapMutex := (holdingSwapMutex w)(m := 0)\<rparr>;
         (_, w) \<leftarrow> SYSCALL VERHOGEN (adr_swapSemaphore pf) 0 0 w;
         programTrapHandler pf suppPtr w
       } else do {
         w \<leftarrow> install pf i suppPtr missingPageNo w;
         let w = w\<lparr>holdingSwapMutex := (holdingSwapMutex w)(m := 0)\<rparr>;
         (_, w) \<leftarrow> SYSCALL VERHOGEN (adr_swapSemaphore pf) 0 0 w;
         Some (S_LDST (sup_exceptState (supports w suppPtr) 0), w)
       }
     }
   }"

end
