(* ===== verification/UserProc.thy ===== *)
theory UserProc
  imports Support
begin

text \<open>
  User processes: their initialisation (phase3/src/helpers.c, initProc.c) and the services
  the support level gives them (phase3/src/syscalls.c, sysSupport.c).
\<close>

section \<open>helpers.c\<close>

abbreviation (input) UPROC_STATUS :: u32 where
  "UPROC_STATUS \<equiv> MSTATUS_MPP_U OR MSTATUS_MIE_MASK"

abbreviation (input) SUPPORT_STATUS :: u32 where
  "SUPPORT_STATUS \<equiv> MSTATUS_MPP_M OR MSTATUS_MIE_MASK"

abbreviation (input) STACK_PAGE_INDEX :: nat where
  "STACK_PAGE_INDEX \<equiv> USERPGTBLSIZE - 1"

abbreviation (input) SUPPORT_STACK_LAST_INDEX :: u32 where
  "SUPPORT_STACK_LAST_INDEX \<equiv> 499"

text \<open>clearState does what \<open>zero_state\<close> does for a fresh PCB: every field 0.\<close>

definition clearState :: "splatform \<Rightarrow> state_t \<Rightarrow> state_t" where
  "clearState pf st =
    (let st = st\<lparr>entry_hi := 0\<rparr>;
         st = st\<lparr>cause := 0\<rparr>;
         st = st\<lparr>status := 0\<rparr>;
         st = st\<lparr>pc_epc := 0\<rparr>;
         st = st\<lparr>mie := 0\<rparr>
     in fold (\<lambda>i st. st\<lparr>gpr := (gpr st)(i := 0)\<rparr>) [0..<STATE_GPR_LEN pf] st)"

definition makePrivateEntryHI :: "u32 \<Rightarrow> u32 \<Rightarrow> u32" where
  "makePrivateEntryHI virtualAddress asid =
    (let vpn = virtualAddress AND GETPAGENO;
         privateSegment = push_bit SHAREDSEGFLAG PRIVATE;
         processAsid = push_bit ASIDSHIFT asid
     in vpn OR privateSegment OR processAsid)"

definition initPageTableEntry :: "u32 \<Rightarrow> u32 \<Rightarrow> pteEntry_t" where
  "initPageTableEntry virtualAddress asid =
    \<lparr>pte_entryHI = makePrivateEntryHI virtualAddress asid, pte_entryLO = DIRTYON\<rparr>"

definition set_pgtbl :: "nat \<Rightarrow> pteEntry_t \<Rightarrow> support_t \<Rightarrow> support_t" where
  "set_pgtbl i e spt = spt\<lparr>sup_privatePgTbl := (sup_privatePgTbl spt)(i := e)\<rparr>"

definition initPageTable :: "u32 \<Rightarrow> support_t \<Rightarrow> support_t" where
  "initPageTable asid spt =
    (let spt = fold (\<lambda>i. set_pgtbl i (initPageTableEntry (KUSEG + of_nat i * PAGESIZE) asid))
                 [0..<STACK_PAGE_INDEX] spt;
         stackPageAddress = USERSTACKTOP - PAGESIZE
     in set_pgtbl STACK_PAGE_INDEX (initPageTableEntry stackPageAddress asid) spt)"

definition initInitialProcessorState :: "splatform \<Rightarrow> u32 \<Rightarrow> state_t \<Rightarrow> state_t" where
  "initInitialProcessorState pf asid st =
    (let st = clearState pf st;
         st = st\<lparr>pc_epc := UPROCSTARTADDR\<rparr>;
         st = st\<lparr>gpr := (gpr st)(gpr_sp pf := USERSTACKTOP)\<rparr>;
         st = st\<lparr>status := UPROC_STATUS\<rparr>;
         st = st\<lparr>mie := MIE_ALL\<rparr>
     in st\<lparr>entry_hi := push_bit ASIDSHIFT asid\<rparr>)"

definition set_context :: "nat \<Rightarrow> context_t \<Rightarrow> support_t \<Rightarrow> support_t" where
  "set_context i c spt = spt\<lparr>sup_exceptContext := (sup_exceptContext spt)(i := c)\<rparr>"

definition initPageFaultContext :: "splatform \<Rightarrow> u32 \<Rightarrow> support_t \<Rightarrow> support_t" where
  "initPageFaultContext pf adr = set_context PGFAULTEXCEPT
     \<lparr>ctx_stackPtr = adr + off_stackTLB pf + 4 * SUPPORT_STACK_LAST_INDEX,
      ctx_status = SUPPORT_STATUS, ctx_pc = adr_pager pf\<rparr>"

definition initGeneralExceptionContext :: "splatform \<Rightarrow> u32 \<Rightarrow> support_t \<Rightarrow> support_t" where
  "initGeneralExceptionContext pf adr = set_context GENERALEXCEPT
     \<lparr>ctx_stackPtr = adr + off_stackGen pf + 4 * SUPPORT_STACK_LAST_INDEX,
      ctx_status = SUPPORT_STATUS, ctx_pc = adr_generalExceptionHandler pf\<rparr>"

text \<open>\<open>None\<close> is the PANIC on invalid parameters; \<open>state\<close> and \<open>support\<close> are addresses.\<close>

definition initUProc :: "splatform \<Rightarrow> u32 \<Rightarrow> u32 \<Rightarrow> u32 \<Rightarrow> world \<Rightarrow> world option" where
  "initUProc pf asid st spt w =
    (if sint asid \<le> 0 \<or> int UPROCMAX < sint asid \<or> st = NULL \<or> spt = NULL then None
     else
       (let s = (supports w spt)\<lparr>sup_asid := asid\<rparr>;
            w = w\<lparr>states := (states w)(st := initInitialProcessorState pf asid (states w st))\<rparr>;
            s = initPageFaultContext pf spt s;
            s = initGeneralExceptionContext pf spt s;
            s = initPageTable asid s
        in Some (w\<lparr>supports := (supports w)(spt := s)\<rparr>)))"

section \<open>initProc.c\<close>

definition support_address :: "splatform \<Rightarrow> u32 \<Rightarrow> u32" where
  "support_address pf asid = adr_supportPool pf + (asid - 1) * sizeof_support_t pf"

text \<open>The inner \<open>None\<close> is a PANIC.\<close>

definition createUProc :: "splatform \<Rightarrow> u32 \<Rightarrow> world \<Rightarrow> (u32 option \<times> world) option" where
  "createUProc pf asid w =
    (if sint asid \<le> 0 \<or> int UPROCMAX < sint asid then Some (None, w)
     else
       (let support = support_address pf asid
        in case initUProc pf asid (adr_procState pf) support w of
             None \<Rightarrow> Some (None, w)
           | Some w \<Rightarrow> do {
               (pid, w) \<leftarrow> SYSCALL CREATEPROCESS (adr_procState pf) PROCESS_PRIO_LOW support w;
               Some (Some pid, w)
             }))"

definition test :: "splatform \<Rightarrow> world \<Rightarrow> (sexit \<times> world) option" where
  "test pf w = do {
     let w = w\<lparr>ram := (ram w)(adr_masterSemaphore pf := 0)\<rparr>;
     let w = w\<lparr>ram := (ram w)(adr_shellSemaphore pf := 0)\<rparr>;
     let w = w\<lparr>ram := (ram w)(adr_termWriteSemaphore pf := 1)\<rparr>;
     let w = w\<lparr>ram := (ram w)(adr_termReadSemaphore pf := 1)\<rparr>;
     w \<leftarrow> initSwapPool pf w;
     (pid, w) \<leftarrow> createUProc pf SHELL_ASID w;
     if pid = None \<or> pid = Some NOPROC then Some (S_PANIC, w)
     else do {
       (_, w) \<leftarrow> SYSCALL PASSEREN (adr_masterSemaphore pf) 0 0 w;
       Some (SYSCALL_terminate w)
     }
   }"

section \<open>syscalls.c\<close>

text \<open>
  The loop of writeTerminal from the character \<open>i\<close> on, for \<open>n\<close> more characters: the value
  is the number of characters sent, or the status of the failed one with the sign changed.
\<close>

fun writeTerminal_loop :: "splatform \<Rightarrow> u32 \<Rightarrow> u32 \<Rightarrow> u32 \<Rightarrow> nat \<Rightarrow> world \<Rightarrow> (u32 \<times> world) option" where
  "writeTerminal_loop pf term str transmitted 0 w = Some (transmitted, w)"
| "writeTerminal_loop pf term str transmitted (Suc n) w = do {
     let cmd = push_bit 8 (ucast (bytes w (str + transmitted))) OR TRANSMITCHAR;
     (status, w) \<leftarrow> SYSCALL DOIO (term + off_transm_command pf) cmd 0 w;
     if status AND 0xFF \<noteq> OKCHARTRANS then Some (- (status AND 0xFF), w)
     else writeTerminal_loop pf term str (transmitted + 1) n w
   }"

definition writeTerminal :: "splatform \<Rightarrow> u32 \<Rightarrow> u32 \<Rightarrow> world \<Rightarrow> (u32 \<times> world) option" where
  "writeTerminal pf str len w = do {
     let term = DEV_REG_ADDR pf IL_TERMINAL 0;
     (_, w) \<leftarrow> SYSCALL PASSEREN (adr_termWriteSemaphore pf) 0 0 w;
     (result, w) \<leftarrow> writeTerminal_loop pf term str 0 (nat (sint len)) w;
     (_, w) \<leftarrow> SYSCALL VERHOGEN (adr_termWriteSemaphore pf) 0 0 w;
     Some (result, w)
   }"

text \<open>The loop of readTerminal, which ends with a newline or a failed operation.\<close>

partial_function (option) readTerminal_loop ::
  "splatform \<Rightarrow> u32 \<Rightarrow> u32 \<Rightarrow> nat \<Rightarrow> world \<Rightarrow> (u32 \<times> world) option" where
  "readTerminal_loop pf term buf received w =
    Option.bind (SYSCALL DOIO (term + off_recv_command pf) RECEIVECHAR 0 w) (\<lambda>r.
      (let status = fst r; w = snd r
       in if status AND 0xFF \<noteq> CHARRECV then Some (- (status AND 0xFF), w)
          else
            (let c = (ucast (drop_bit 8 status AND 0xFF) :: 8 word);
                 store = received < MAXSTRLENG;
                 w = (if store then w\<lparr>bytes := (bytes w)(buf + of_nat received := c)\<rparr> else w);
                 received = (if store then received + 1 else received)
             in if c = 10 then Some (of_nat received, w)
                else readTerminal_loop pf term buf received w)))"

definition readTerminal :: "splatform \<Rightarrow> u32 \<Rightarrow> world \<Rightarrow> (u32 \<times> world) option" where
  "readTerminal pf buf w = do {
     let term = DEV_REG_ADDR pf IL_TERMINAL 0;
     (_, w) \<leftarrow> SYSCALL PASSEREN (adr_termReadSemaphore pf) 0 0 w;
     (result, w) \<leftarrow> readTerminal_loop pf term buf 0 w;
     (_, w) \<leftarrow> SYSCALL VERHOGEN (adr_termReadSemaphore pf) 0 0 w;
     Some (result, w)
   }"

text \<open>The saved state of the exception, and how the services finish.\<close>

definition general_state :: "u32 \<Rightarrow> world \<Rightarrow> state_t" where
  "general_state spt w = sup_exceptState (supports w spt) GENERALEXCEPT"

definition upd_general_state :: "u32 \<Rightarrow> (state_t \<Rightarrow> state_t) \<Rightarrow> world \<Rightarrow> world" where
  "upd_general_state spt f w = w\<lparr>supports := (supports w)(spt := (supports w spt)
     \<lparr>sup_exceptState := (sup_exceptState (supports w spt))(GENERALEXCEPT := f (general_state spt w))\<rparr>)\<rparr>"

definition sys4 :: "splatform \<Rightarrow> u32 \<Rightarrow> world \<Rightarrow> (sexit \<times> world) option" where
  "sys4 pf spt w =
    (let str = gpr (general_state spt w) (gpr_a1 pf);
         len = gpr (general_state spt w) (gpr_a2 pf)
     in if str < KUSEG \<or> USERSTACKTOP < str + len then sys2 pf spt w
        else if sint len < 0 \<or> int MAXSTRLENG < sint len then sys2 pf spt w
        else do {
          (r, w) \<leftarrow> writeTerminal pf str len w;
          let w = upd_general_state spt (\<lambda>st. st\<lparr>gpr := (gpr st)(gpr_a0 pf := r)\<rparr>) w;
          Some (S_LDST (general_state spt w), w)
        })"

definition sys5 :: "splatform \<Rightarrow> u32 \<Rightarrow> world \<Rightarrow> (sexit \<times> world) option" where
  "sys5 pf spt w =
    (let buf = gpr (general_state spt w) (gpr_a1 pf)
     in if buf < KUSEG \<or> USERSTACKTOP \<le> buf then sys2 pf spt w
        else do {
          (r, w) \<leftarrow> readTerminal pf buf w;
          let w = upd_general_state spt (\<lambda>st. st\<lparr>gpr := (gpr st)(gpr_a0 pf := r)\<rparr>) w;
          Some (S_LDST (general_state spt w), w)
        })"

definition sys6 :: "splatform \<Rightarrow> u32 \<Rightarrow> world \<Rightarrow> (sexit \<times> world) option" where
  "sys6 pf spt w =
    (let asid = gpr (general_state spt w) (gpr_a1 pf)
     in if sup_asid (supports w spt) \<noteq> SHELL_ASID then sys2 pf spt w
        else if sint asid \<le> 0 \<or> int UPROCMAX < sint asid \<or> asid = SHELL_ASID then sys2 pf spt w
        else do {
          (pid, w) \<leftarrow> createUProc pf asid w;
          case pid of
            None \<Rightarrow> Some (S_PANIC, w)
          | Some pid \<Rightarrow>
              (if pid = NOPROC then sys2 pf spt w
               else do {
                 (_, w) \<leftarrow> SYSCALL PASSEREN (adr_shellSemaphore pf) 0 0 w;
                 Some (S_LDST (general_state spt w), w)
               })
        })"

section \<open>sysSupport.c\<close>

definition pos_syscallHandler :: "splatform \<Rightarrow> u32 \<Rightarrow> world \<Rightarrow> (sexit \<times> world) option" where
  "pos_syscallHandler pf spt w =
    (let a0_numSys = gpr (general_state spt w) (gpr_a0 pf);
         w = upd_general_state spt (\<lambda>st. st\<lparr>pc_epc := pc_epc st + WORDLEN\<rparr>) w
     in if a0_numSys = TERMINATE then sys2 pf spt w
        else if a0_numSys = WRITETERMINAL then sys4 pf spt w
        else if a0_numSys = READTERMINAL then sys5 pf spt w
        else if a0_numSys = EXECUTE then sys6 pf spt w
        else sys2 pf spt w)"

definition generalExceptionHandler :: "splatform \<Rightarrow> world \<Rightarrow> (sexit \<times> world) option" where
  "generalExceptionHandler pf w = do {
     (spt, w) \<leftarrow> SYSCALL GETSUPPORTPTR 0 0 0 w;
     let excCode = cause (general_state spt w) AND CAUSE_EXCCODE_MASK pf;
     if excCode = SYSEXCEPTION \<or> excCode = 11 then pos_syscallHandler pf spt w
     else programTrapHandler pf spt w
   }"

end
