(* ===== verification/Paging.thy ===== *)
theory Paging
  imports UserProc
begin

text \<open>
  Virtual memory: the page tables of user processes, the Swap Pool and the pager.
\<close>

section \<open>Pages and blocks\<close>

lemma user_page_address:
  assumes "i < 31"
  shows "((KUSEG + of_nat i * PAGESIZE) AND GETPAGENO) OR push_bit SHAREDSEGFLAG PRIVATE =
    KUSEG + push_bit VPNSHIFT (of_nat i)"
proof -
  have "i \<in> set [0..<31]" using assms by simp
  then show ?thesis unfolding upt_conv_Cons_Cons by (auto simp: upt_rec push_bit_eq_mult)
qed

lemma fold_set_pgtbl:
  "sup_privatePgTbl (fold (\<lambda>i. set_pgtbl i (f i)) [0..<n] spt) =
    (\<lambda>i. if i < n then f i else sup_privatePgTbl spt i)"
  by (induction n) (auto simp: set_pgtbl_def fun_eq_iff less_Suc_eq)

lemma initPageTable_entry:
  "sup_privatePgTbl (initPageTable asid spt) i =
    (if i < 31 then initPageTableEntry (KUSEG + of_nat i * PAGESIZE) asid
     else if i = 31 then initPageTableEntry (USERSTACKTOP - PAGESIZE) asid
     else sup_privatePgTbl spt i)"
  unfolding initPageTable_def Let_def set_pgtbl_def [of 31] by (simp add: fold_set_pgtbl set_pgtbl_def)

lemma initPagetable_loop_entry:
  "initPagetable_loop n asid t i = (if i < n then
     \<lparr>pte_entryHI = (KUSEG + push_bit VPNSHIFT (of_nat i)) OR push_bit ASIDSHIFT asid, pte_entryLO = DIRTYON\<rparr>
     else t i)"
  by (induction n) (auto simp: less_Suc_eq)

lemma initPageTable_initPagetable:
  "sup_privatePgTbl (initPageTable asid spt) = initPagetable (sup_privatePgTbl spt) asid"
proof
  fix i :: nat
  consider "i < 31" | "i = 31" | "31 < i" by linarith
  then show "sup_privatePgTbl (initPageTable asid spt) i = initPagetable (sup_privatePgTbl spt) asid i"
  proof cases
    case 1
    then show ?thesis
      using user_page_address [OF 1]
      by (simp add: initPageTable_entry initPagetable_def initPagetable_loop_entry
          initPageTableEntry_def makePrivateEntryHI_def flip: or.assoc)
  next
    case 2
    then show ?thesis
      by (simp add: initPageTable_entry initPagetable_def initPageTableEntry_def makePrivateEntryHI_def
          flip: or.assoc)
  next
    case 3
    then show ?thesis by (simp add: initPageTable_entry initPagetable_def initPagetable_loop_entry)
  qed
qed

text \<open>The page number of an entry: 0x80000 to 0x8001E for text and data, 0xBFFFF for the stack.\<close>

definition page_number :: "nat \<Rightarrow> u32" where
  "page_number i = (if i = 31 then 0xBFFFF else 0x80000 + of_nat i)"

lemma getFlashBlock_page_number: "i < 32 \<Longrightarrow> getFlashBlock (page_number i) = of_nat i"
proof -
  assume "i < 32"
  moreover have "(0x80000 :: u32) + of_nat i \<noteq> 0xBFFFF" if "i < 31"
  proof
    assume "(0x80000 :: u32) + of_nat i = 0xBFFFF"
    then have "(of_nat i :: u32) = 0x3FFFF" by (simp add: algebra_simps)
    then have "unat (of_nat i :: u32) = unat (0x3FFFF :: u32)" by (rule arg_cong)
    then show False using that by (simp add: unat_of_nat_u32)
  qed
  ultimately show ?thesis by (auto simp: getFlashBlock_def page_number_def)
qed


section \<open>The invariant of the Swap Pool\<close>

definition valid_pte :: "pteEntry_t \<Rightarrow> bool" where
  "valid_pte e \<longleftrightarrow> pte_entryLO e AND VALIDON \<noteq> 0"

text \<open>The EntryLO value of a page that is present in the frame \<open>i\<close>.\<close>

definition resident :: "nat \<Rightarrow> u32" where
  "resident i = frame_address i OR DIRTYON OR VALIDON"

text \<open>
  The entry of the Swap Pool for a frame is free, or it names an entry of the page table of
  one of the processes whose support structures are in \<open>A\<close>, and the address space and the
  page number it records are those of that entry.
\<close>

definition record_ok :: "u32 set \<Rightarrow> world \<Rightarrow> swap_t \<Rightarrow> bool" where
  "record_ok A w e \<longleftrightarrow>
    (case sw_pte e of
       None \<Rightarrow> sw_asid e = - 1
     | Some (a, k) \<Rightarrow> a \<in> A \<and> k < USERPGTBLSIZE \<and> sw_asid e = sup_asid (supports w a) \<and>
         getFlashBlock (sw_pageNo e) = of_nat k)"

definition pool_inv :: "u32 set \<Rightarrow> world \<Rightarrow> bool" where
  "pool_inv A w \<longleftrightarrow> fifoCont w < POOLSIZE \<and>
    (\<forall>a\<in>A. mutex_index (sup_asid (supports w a)) \<noteq> None) \<and>
    (\<forall>i<POOLSIZE. record_ok A w (swapPool w i)) \<and>
    (\<forall>a\<in>A. \<forall>k<USERPGTBLSIZE. valid_pte (pte_at (a, k) w) \<longrightarrow>
      (\<exists>i<POOLSIZE. sw_pte (swapPool w i) = Some (a, k) \<and> pte_entryLO (pte_at (a, k) w) = resident i))"

lemma pool_invD:
  assumes "pool_inv A w"
  shows "fifoCont w < POOLSIZE"
    and "a \<in> A \<Longrightarrow> \<exists>m. mutex_index (sup_asid (supports w a)) = Some m"
    and "i < POOLSIZE \<Longrightarrow> record_ok A w (swapPool w i)"
    and "\<lbrakk>a \<in> A; k < USERPGTBLSIZE; valid_pte (pte_at (a, k) w)\<rbrakk> \<Longrightarrow>
      \<exists>i<POOLSIZE. sw_pte (swapPool w i) = Some (a, k) \<and> pte_entryLO (pte_at (a, k) w) = resident i"
  using assms unfolding pool_inv_def by auto

lemma frame_address_inject:
  assumes "i < POOLSIZE" "j < POOLSIZE"
  shows "resident i = resident j \<longleftrightarrow> i = j"
proof -
  have "i \<in> set [0..<16]" "j \<in> set [0..<16]" using assms by simp_all
  then show ?thesis by (auto simp: upt_rec resident_def frame_address_def)
qed

lemma resident_valid: "i < POOLSIZE \<Longrightarrow> resident i AND VALIDON \<noteq> 0"
proof -
  assume "i < POOLSIZE"
  then have "i \<in> set [0..<16]" by simp
  then show ?thesis by (auto simp: upt_rec resident_def frame_address_def)
qed

text \<open>The frame in an EntryLO value.\<close>

definition frame_of :: "pteEntry_t \<Rightarrow> u32" where
  "frame_of e = pte_entryLO e AND 0xFFFFF000"

lemma resident_frame: "i < POOLSIZE \<Longrightarrow> resident i AND 0xFFFFF000 = frame_address i"
proof -
  assume "i < POOLSIZE"
  then have "i \<in> set [0..<16]" by simp
  then show ?thesis by (auto simp: upt_rec resident_def frame_address_def)
qed

lemma invalidated: "(x AND NOT v) AND v = (0 :: u32)"
  by (simp add: bit_eq_iff bit_simps)

text \<open>Two valid pages never share a frame.\<close>

lemma pool_inv_isolated:
  assumes inv: "pool_inv A w" and a: "a \<in> A" "k < USERPGTBLSIZE" "valid_pte (pte_at (a, k) w)"
    and b: "b \<in> A" "l < USERPGTBLSIZE" "valid_pte (pte_at (b, l) w)"
    and eq: "frame_of (pte_at (a, k) w) = frame_of (pte_at (b, l) w)"
  shows "(a, k) = (b, l)"
proof -
  obtain i j where "i < POOLSIZE" "sw_pte (swapPool w i) = Some (a, k)" "pte_entryLO (pte_at (a, k) w) = resident i"
    "j < POOLSIZE" "sw_pte (swapPool w j) = Some (b, l)" "pte_entryLO (pte_at (b, l) w) = resident j"
    using pool_invD(4) [OF inv] a b by metis
  moreover then have "i = j" using eq resident_frame frame_address_inject unfolding frame_of_def resident_def by metis
  ultimately show ?thesis by simp
qed


section \<open>How the updates act on the state\<close>

named_theorems vm_simps \<open>the fields of a state after an update of the support level\<close>

lemma set_pte_simps [vm_simps]:
  "pte_at q' (set_pte q f w) = (if q' = q then f (pte_at q w) else pte_at q' w)"
  "sup_asid (supports (set_pte q f w) a) = sup_asid (supports w a)"
  "sup_exceptState (supports (set_pte q f w) a) = sup_exceptState (supports w a)"
  "swapPool (set_pte q f w) = swapPool w" "fifoCont (set_pte q f w) = fifoCont w"
  "holdingSwapMutex (set_pte q f w) = holdingSwapMutex w"
  "replies (set_pte q f w) = replies w" "calls (set_pte q f w) = calls w"
  by (auto simp: set_pte_def pte_at_def prod_eq_iff)

lemma set_pool_simps [vm_simps]:
  "supports (set_pool i f w) = supports w" "pte_at q (set_pool i f w) = pte_at q w"
  "swapPool (set_pool i f w) = (swapPool w)(i := f (swapPool w i))"
  "fifoCont (set_pool i f w) = fifoCont w" "holdingSwapMutex (set_pool i f w) = holdingSwapMutex w"
  "replies (set_pool i f w) = replies w" "calls (set_pool i f w) = calls w"
  "cpu_status (set_pool i f w) = cpu_status w"
  by (simp_all add: set_pool_def pte_at_def)

lemma update_tlb_simps [vm_simps]:
  "supports (update_tlb pf q w) = supports w" "pte_at q' (update_tlb pf q w) = pte_at q' w"
  "swapPool (update_tlb pf q w) = swapPool w" "fifoCont (update_tlb pf q w) = fifoCont w"
  "holdingSwapMutex (update_tlb pf q w) = holdingSwapMutex w"
  "replies (update_tlb pf q w) = replies w" "calls (update_tlb pf q w) = calls w"
  by (simp_all add: update_tlb_def Let_def pte_at_def)

lemma pte_at_frame:
  "supports w' = supports w \<Longrightarrow> pte_at q w' = pte_at q w"
  by (simp add: pte_at_def)

lemma record_ok_frame:
  "(\<And>a. sup_asid (supports w' a) = sup_asid (supports w a)) \<Longrightarrow> record_ok A w' e = record_ok A w e"
  by (simp add: record_ok_def split: option.splits prod.splits)

lemma pool_inv_frame:
  assumes "swapPool w' = swapPool w" "fifoCont w' = fifoCont w"
    and "\<And>a. sup_asid (supports w' a) = sup_asid (supports w a)"
    and "\<And>q. pte_at q w' = pte_at q w"
  shows "pool_inv A w' = pool_inv A w"
  using assms record_ok_frame [OF assms(3)] by (simp add: pool_inv_def)

section \<open>Steps that keep the invariant\<close>

definition invalidate :: "pteEntry_t \<Rightarrow> pteEntry_t" where
  "invalidate e = e\<lparr>pte_entryLO := pte_entryLO e AND NOT VALIDON\<rparr>"

lemma invalidate_not_valid: "\<not> valid_pte (invalidate e)"
  using invalidated [of "pte_entryLO e" VALIDON] by (simp add: valid_pte_def invalidate_def)

lemma pool_inv_invalidate:
  assumes "pool_inv A w"
  shows "pool_inv A (set_pte q invalidate w)"
proof -
  note D = pool_invD [OF assms]
  have "\<exists>i<POOLSIZE. sw_pte (swapPool w i) = Some (a, k) \<and>
      pte_entryLO (pte_at (a, k) (set_pte q invalidate w)) = resident i"
    if "a \<in> A" "k < USERPGTBLSIZE" "valid_pte (pte_at (a, k) (set_pte q invalidate w))" for a k
    using that D(4) [of a k] invalidate_not_valid by (auto simp: vm_simps split: if_splits)
  then show ?thesis
    using D(1-3) record_ok_frame [OF set_pte_simps(2)] by (simp add: pool_inv_def vm_simps)
qed

lemma pool_inv_elsewhere:
  assumes "pool_inv A w" "a \<in> A" "k < USERPGTBLSIZE" "valid_pte (pte_at (a, k) w)"
    and "\<And>q. sw_pte (swapPool w i) = Some q \<Longrightarrow> \<not> valid_pte (pte_at q w)"
  obtains j where "j < POOLSIZE" "j \<noteq> i" "sw_pte (swapPool w j) = Some (a, k)"
    "pte_entryLO (pte_at (a, k) w) = resident j"
  using pool_invD(4) [OF assms(1-4)] assms(4,5) by metis

lemma pool_inv_free:
  assumes inv: "pool_inv A w" and clear: "\<And>q. sw_pte (swapPool w i) = Some q \<Longrightarrow> \<not> valid_pte (pte_at q w)"
  shows "pool_inv A (set_pool i (\<lambda>_. free_frame) w)" (is "pool_inv A ?w")
proof -
  note D = pool_invD [OF inv]
  have "\<exists>j<POOLSIZE. sw_pte (swapPool ?w j) = Some (a, k) \<and> pte_entryLO (pte_at (a, k) ?w) = resident j"
    if "a \<in> A" "k < USERPGTBLSIZE" "valid_pte (pte_at (a, k) ?w)" for a k
  proof -
    have "valid_pte (pte_at (a, k) w)" using that by (simp add: vm_simps)
    from pool_inv_elsewhere [OF inv that(1,2) this clear] show ?thesis by (auto simp: vm_simps)
  qed
  moreover have "record_ok A ?w (swapPool ?w j)" if "j < POOLSIZE" for j
    using D(3) [OF that] record_ok_frame [of ?w w] by (simp add: vm_simps record_ok_def free_frame_def)
  ultimately show ?thesis
    using D(1,2) by (simp add: pool_inv_def vm_simps)
qed

lemma pool_inv_install:
  assumes inv: "pool_inv A w" and clear: "\<And>q. sw_pte (swapPool w i) = Some q \<Longrightarrow> \<not> valid_pte (pte_at q w)"
    and a: "a \<in> A" "k < USERPGTBLSIZE" "i < POOLSIZE" "getFlashBlock p = of_nat k"
    and w': "swapPool w' = (swapPool w)(i := \<lparr>sw_asid = sup_asid (supports w a), sw_pageNo = p, sw_pte = Some (a, k)\<rparr>)"
      "supports w' = supports (set_pte (a, k) (\<lambda>e. e\<lparr>pte_entryLO := resident i\<rparr>) w)" "fifoCont w' = fifoCont w"
  shows "pool_inv A w'"
proof -
  note D = pool_invD [OF inv]
  have asid: "sup_asid (supports w' b) = sup_asid (supports w b)" for b
    by (simp add: w' vm_simps)
  have pte: "pte_at q w' = (if q = (a, k) then (pte_at (a, k) w)\<lparr>pte_entryLO := resident i\<rparr> else pte_at q w)" for q
    using pte_at_frame [OF w'(2)] by (simp add: vm_simps)
  have "\<exists>j<POOLSIZE. sw_pte (swapPool w' j) = Some (b, l) \<and> pte_entryLO (pte_at (b, l) w') = resident j"
    if "b \<in> A" "l < USERPGTBLSIZE" "valid_pte (pte_at (b, l) w')" for b l
  proof (cases "(b, l) = (a, k)")
    case True
    then show ?thesis using a(3) by (auto simp: w'(1) pte)
  next
    case False
    then have "valid_pte (pte_at (b, l) w)" using that(3) by (auto simp: pte split: if_splits)
    from pool_inv_elsewhere [OF inv that(1,2) this clear] show ?thesis
      using False by (auto simp: w'(1) pte)
  qed
  moreover have "record_ok A w' (swapPool w' j)" if "j < POOLSIZE" for j
    using D(3) [OF that] a by (auto simp: record_ok_def w'(1) asid split: option.splits)
  ultimately show ?thesis
    using D(1,2) by (simp add: pool_inv_def w'(3) asid)
qed

end
