(* ===== verification/Pager.thy ===== *)
theory Pager
  imports Paging
begin

text \<open>
  What the operations on the Swap Pool do: the eviction and the installation of a page, the
  pager, and the release of the frames of a process. The pager returns whatever the flash
  devices answer, and every one of its branches keeps the invariant of the pool.
\<close>

section \<open>Computations that return\<close>

declare returns_bind [simp] returns_Some [simp]

text \<open>A request to the nucleus that is answered.\<close>

definition asked :: "u32 \<times> u32 \<times> u32 \<times> u32 \<Rightarrow> world \<Rightarrow> world" where
  "asked c w = w\<lparr>replies := tl (replies w), calls := calls w @ [c]\<rparr>"

lemma asked_simps [vm_simps]:
  "supports (asked c w) = supports w" "pte_at q (asked c w) = pte_at q w"
  "swapPool (asked c w) = swapPool w" "fifoCont (asked c w) = fifoCont w"
  "holdingSwapMutex (asked c w) = holdingSwapMutex w" "cpu_status (asked c w) = cpu_status w"
  "replies (asked c w) = tl (replies w)" "calls (asked c w) = calls w @ [c]"
  "bytes (asked c w) = bytes w" "ram (asked c w) = ram w" "tlb (asked c w) = tlb w"
  by (simp_all add: asked_def pte_at_def)

lemma SYSCALL_answered:
  "replies w \<noteq> [] \<Longrightarrow> SYSCALL n x y z w = Some (hd (replies w), asked (n, x, y, z) w)"
  by (cases "replies w") (simp_all add: SYSCALL_def asked_def)

section \<open>Operations on the flash devices\<close>

lemma mutex_index_register:
  "mutex_index asid = Some m \<longleftrightarrow> m < UPROCMAX \<and> asid = of_nat m + 1"
proof
  assume *: "m < UPROCMAX \<and> asid = of_nat m + 1"
  then have "m \<in> set [0..<8]" by simp
  then show "mutex_index asid = Some m" using * by (auto simp: upt_rec mutex_index_def)
next
  assume "mutex_index asid = Some m"
  then have "0 \<le> sint (asid - 1) \<and> sint (asid - 1) < int 8" and m: "m = unat (asid - 1)"
    by (simp_all add: mutex_index_def split: if_splits)
  then have "unat (asid - 1) < 8" using signed_range [of 8 "asid - 1"] by simp
  then show "m < UPROCMAX \<and> asid = of_nat m + 1" using m by simp
qed

text \<open>The command field of the flash device of an address space.\<close>

definition flash_command :: "splatform \<Rightarrow> u32 \<Rightarrow> u32" where
  "flash_command pf asid = START_DEVREG + 0x80 + (asid - 1) * 0x10 + off_command pf"

lemma getFlashRegister_mutex:
  "mutex_index asid = Some m \<Longrightarrow> getFlashRegister asid = Some (flash_command pf asid - off_command pf)"
  by (simp add: mutex_index_def getFlashRegister_def flash_command_def Let_def not_less not_le split: if_splits)

lemma readWriteFlashdrive_eq:
  assumes "mutex_index asid = Some m" "getFlashBlock vpn = of_nat k" "k < USERPGTBLSIZE" "replies w \<noteq> []"
  shows "readWriteFlashdrive pf asid vpn f op w =
    Some (hd (replies w), asked (DOIO, flash_command pf asid, push_bit 8 (of_nat k) OR op, 0)
      (w\<lparr>ram := (ram w)(flash_command pf asid - off_command pf + off_data0 pf := f)\<rparr>))"
proof -
  have "k \<in> set [0..<32]" using assms(3) by simp
  then have "\<not> sint (of_nat k :: u32) < 0 \<and> \<not> 32 \<le> sint (of_nat k :: u32)" by (auto simp: upt_rec)
  then show ?thesis
    using assms(1,2,4)
    by (simp add: readWriteFlashdrive_def getFlashRegister_mutex [of _ m pf] SYSCALL_answered Let_def)
qed

lemma readWriteFlashdrive_answered:
  assumes "mutex_index asid = Some m" "getFlashBlock vpn = of_nat k" "k < USERPGTBLSIZE" "replies w \<noteq> []"
  obtains r where "readWriteFlashdrive pf asid vpn f op w =
    Some (hd (replies w), asked (DOIO, flash_command pf asid, push_bit 8 (of_nat k) OR op, 0) (w\<lparr>ram := r\<rparr>))"
  using readWriteFlashdrive_eq [OF assms] by blast

lemma readWriteFlashdrive_request:
  assumes "mutex_index asid = Some m" "getFlashBlock vpn = of_nat k" "k < USERPGTBLSIZE" "replies w \<noteq> []"
  obtains w' where "readWriteFlashdrive pf asid vpn f op w = Some (hd (replies w), w')"
    "calls w' = calls w @ [(DOIO, flash_command pf asid, push_bit 8 (of_nat k) OR op, 0)]"
    "ram w' = (ram w)(flash_command pf asid - off_command pf + off_data0 pf := f)"
  using readWriteFlashdrive_eq [OF assms] by (simp add: asked_simps)

lemma readWriteFlashdrive_no_block:
  assumes "mutex_index asid = Some m" "\<not> unat (getFlashBlock vpn) < USERPGTBLSIZE"
  shows "readWriteFlashdrive pf asid vpn f op w = Some (- 1, w)"
  using assms(2) signed_range [of 32 "getFlashBlock vpn"]
  by (auto simp: readWriteFlashdrive_def Let_def)

section \<open>Choice, eviction and installation\<close>

lemma choose_frame_simps [vm_simps]:
  "supports (snd (choose_frame w)) = supports w" "swapPool (snd (choose_frame w)) = swapPool w"
  "pte_at q (snd (choose_frame w)) = pte_at q w"
  "holdingSwapMutex (snd (choose_frame w)) = holdingSwapMutex w"
  "replies (snd (choose_frame w)) = replies w" "calls (snd (choose_frame w)) = calls w"
  by (simp_all add: choose_frame_def pte_at_def split: option.splits)

lemma choose_frame_inv:
  assumes "pool_inv A w"
  shows "pool_inv A (snd (choose_frame w))" "fst (choose_frame w) < POOLSIZE"
proof -
  note D = pool_invD [OF assms]
  have "fifoCont (snd (choose_frame w)) < POOLSIZE"
    using D(1) by (simp add: choose_frame_def split: option.splits)
  then show "pool_inv A (snd (choose_frame w))"
    using assms record_ok_frame [of "snd (choose_frame w)" w] by (simp add: pool_inv_def vm_simps)
  show "fst (choose_frame w) < POOLSIZE"
    using D(1) by (auto simp: choose_frame_def find_Some_iff split: option.splits)
qed

lemma find_upt_None: "find P [0..<n] = None \<longleftrightarrow> (\<forall>j<n. \<not> P j)"
  by (auto simp: find_None_iff)

lemma find_upt_Some: "find P [0..<n] = Some j \<Longrightarrow> j < n \<and> P j"
  by (auto simp: find_Some_iff)

lemma choose_frame_chosen:
  "if \<exists>j<POOLSIZE. sw_asid (swapPool w j) = - 1
   then sw_asid (swapPool w (fst (choose_frame w))) = - 1 \<and> fst (choose_frame w) < POOLSIZE
   else fst (choose_frame w) = fifoCont w"
proof (cases "find (\<lambda>j. sw_asid (swapPool w j) = - 1) [0..<POOLSIZE]")
  case None
  then have "fst (choose_frame w) = fifoCont w" by (simp only: choose_frame_def option.case fst_conv)
  then show ?thesis using None unfolding find_upt_None by auto
next
  case (Some j)
  then have "fst (choose_frame w) = j" by (simp only: choose_frame_def option.case fst_conv)
  then show ?thesis using find_upt_Some [OF Some] by auto
qed

text \<open>A frame that is in use is chosen only when none is free, and then in turn.\<close>

lemma choose_frame_occupied:
  "sw_asid (swapPool w (fst (choose_frame w))) \<noteq> - 1 \<Longrightarrow>
    fst (choose_frame w) = fifoCont w \<and> fifoCont (snd (choose_frame w)) = (fifoCont w + 1) mod POOLSIZE \<and>
    (\<forall>j<POOLSIZE. sw_asid (swapPool w j) \<noteq> - 1)"
  by (auto simp: choose_frame_def find_Some_iff find_None_iff split: option.splits)

lemma mutex_index_asid: "mutex_index asid = Some m \<Longrightarrow> asid \<noteq> - 1"
  by (auto simp: mutex_index_def)

lemma record_ok_Some:
  assumes "record_ok A w e" "sw_asid e \<noteq> - 1"
  obtains a k where "sw_pte e = Some (a, k)" "a \<in> A" "k < USERPGTBLSIZE" "sw_asid e = sup_asid (supports w a)"
    "getFlashBlock (sw_pageNo e) = of_nat k"
  using assms by (auto simp: record_ok_def split: option.splits)

lemma evict_free: "sw_asid (swapPool w i) = - 1 \<Longrightarrow> evict pf i w = Some w"
  by (simp add: evict_def)

lemma invalidate_eta: "(\<lambda>e. e\<lparr>pte_entryLO := pte_entryLO e AND NOT VALIDON\<rparr>) = invalidate"
  by (simp add: invalidate_def fun_eq_iff)

text \<open>
  The eviction of the page (a, k): its entry becomes invalid, and the frame is written to
  the block k of the flash device of its process.
\<close>

lemma evict_occupied:
  assumes inv: "pool_inv A w" and i: "i < POOLSIZE" "sw_asid (swapPool w i) \<noteq> - 1" and r: "replies w \<noteq> []"
  obtains a k w' where "sw_pte (swapPool w i) = Some (a, k)" "evict pf i w = Some w'"
    "supports w' = supports (set_pte (a, k) invalidate w)" "swapPool w' = swapPool w" "fifoCont w' = fifoCont w"
    "holdingSwapMutex w' = holdingSwapMutex w" "replies w' = tl (replies w)"
    "calls w' = calls w @ [(DOIO, flash_command pf (sw_asid (swapPool w i)), push_bit 8 (of_nat k) OR FLASHWRITE, 0)]"
proof -
  obtain a k where q: "sw_pte (swapPool w i) = Some (a, k)" "a \<in> A" "k < USERPGTBLSIZE"
    "sw_asid (swapPool w i) = sup_asid (supports w a)" "getFlashBlock (sw_pageNo (swapPool w i)) = of_nat k"
    using record_ok_Some [OF pool_invD(3) [OF inv i(1)] i(2)] .
  obtain m where m: "mutex_index (sw_asid (swapPool w i)) = Some m"
    using pool_invD(2) [OF inv q(2)] q(4) by auto
  let ?w1 = "set_pte (a, k) invalidate (w\<lparr>cpu_status := cpu_status w AND NOT MSTATUS_MIE_MASK\<rparr>)"
  let ?w2 = "(update_tlb pf (a, k) ?w1)\<lparr>cpu_status := cpu_status w\<rparr>"
  have "replies ?w2 \<noteq> []" using r by (simp add: vm_simps)
  from readWriteFlashdrive_answered [OF m q(5,3) this] obtain ra where
    io: "readWriteFlashdrive pf (sw_asid (swapPool w i)) (sw_pageNo (swapPool w i)) (frame_address i) FLASHWRITE ?w2 =
      Some (hd (replies ?w2), asked (DOIO, flash_command pf (sw_asid (swapPool w i)), push_bit 8 (of_nat k) OR FLASHWRITE, 0) (?w2\<lparr>ram := ra\<rparr>))" .
  have "evict pf i w = Some (asked (DOIO, flash_command pf (sw_asid (swapPool w i)), push_bit 8 (of_nat k) OR FLASHWRITE, 0) (?w2\<lparr>ram := ra\<rparr>))"
    using io i(2) q(1) unfolding evict_def invalidate_eta by (simp add: Let_def)
  then show thesis
    by (rule that [OF q(1)]) (simp_all add: vm_simps set_pte_def pte_at_def)
qed

lemma swap_t_complete: "e\<lparr>sw_asid := x, sw_pageNo := y, sw_pte := z\<rparr> = \<lparr>sw_asid = x, sw_pageNo = y, sw_pte = z\<rparr>"
  by (cases e) simp

lemma install_eq:
  assumes "getFlashBlock vpn = of_nat k" "k < USERPGTBLSIZE"
  obtains w' where "install pf i a vpn w = Some w'"
    "swapPool w' = (swapPool w)(i := \<lparr>sw_asid = sup_asid (supports w a), sw_pageNo = vpn, sw_pte = Some (a, k)\<rparr>)"
    "supports w' = supports (set_pte (a, k) (\<lambda>e. e\<lparr>pte_entryLO := resident i\<rparr>) w)" "fifoCont w' = fifoCont w"
    "holdingSwapMutex w' = holdingSwapMutex w" "replies w' = replies w" "calls w' = calls w"
proof -
  have "k \<in> set [0..<32]" using assms(2) by simp
  then have k: "0 \<le> sint (of_nat k :: u32)" "sint (of_nat k :: u32) < 32" "unat (of_nat k :: u32) = k"
    by (auto simp: upt_rec)
  have "\<exists>w'. install pf i a vpn w = Some w' \<and>
    swapPool w' = (swapPool w)(i := \<lparr>sw_asid = sup_asid (supports w a), sw_pageNo = vpn, sw_pte = Some (a, k)\<rparr>) \<and>
    supports w' = supports (set_pte (a, k) (\<lambda>e. e\<lparr>pte_entryLO := resident i\<rparr>) w) \<and> fifoCont w' = fifoCont w \<and>
    holdingSwapMutex w' = holdingSwapMutex w \<and> replies w' = replies w \<and> calls w' = calls w"
    using k by (simp add: install_def Let_def assms(1) vm_simps set_pte_def pte_at_def resident_def swap_t_complete)
  then show thesis using that by blast
qed

section \<open>The release of the frames of a process\<close>

lemmas free_if_owned_eq = free_if_owned_def [unfolded invalidate_eta Let_def]

lemma free_if_owned_simps:
  "swapPool (free_if_owned asid j w) =
    (if sw_asid (swapPool w j) = asid then (swapPool w)(j := free_frame) else swapPool w)"
  "sup_asid (supports (free_if_owned asid j w) a) = sup_asid (supports w a)"
  "sup_exceptState (supports (free_if_owned asid j w) a) = sup_exceptState (supports w a)"
  "pte_at q (free_if_owned asid j w) =
    (if sw_asid (swapPool w j) = asid \<and> sw_pte (swapPool w j) = Some q then invalidate (pte_at q w) else pte_at q w)"
  "fifoCont (free_if_owned asid j w) = fifoCont w"
  "holdingSwapMutex (free_if_owned asid j w) = holdingSwapMutex w"
  "replies (free_if_owned asid j w) = replies w" "calls (free_if_owned asid j w) = calls w"
  by (auto simp: free_if_owned_eq vm_simps split: option.splits)

lemma free_if_owned_inv:
  assumes "pool_inv A w"
  shows "pool_inv A (free_if_owned asid j w)"
proof (cases "sw_asid (swapPool w j) = asid")
  case True
  show ?thesis
  proof (cases "sw_pte (swapPool w j)")
    case None
    then show ?thesis
      using True pool_inv_free [OF assms, of j] by (simp add: free_if_owned_def)
  next
    case (Some q)
    have "pool_inv A (set_pool j (\<lambda>_. free_frame) (set_pte q invalidate w))"
      by (rule pool_inv_free [OF pool_inv_invalidate [OF assms]])
        (use Some invalidate_not_valid in \<open>simp add: vm_simps\<close>)
    then show ?thesis using True Some by (simp add: free_if_owned_eq)
  qed
qed (use assms in \<open>simp add: free_if_owned_def\<close>)

definition free_all :: "u32 \<Rightarrow> nat \<Rightarrow> world \<Rightarrow> world" where
  "free_all asid n w = fold (free_if_owned asid) [0..<n] w"

lemma free_all_Suc: "free_all asid (Suc n) w = free_if_owned asid n (free_all asid n w)"
  by (simp add: free_all_def)

lemma invalidate_idem: "invalidate (invalidate e) = invalidate e"
  by (simp add: invalidate_def flip: and.assoc)

lemma free_all_simps:
  "sup_asid (supports (free_all asid n w) a) = sup_asid (supports w a)"
  "sup_exceptState (supports (free_all asid n w) a) = sup_exceptState (supports w a)"
  "fifoCont (free_all asid n w) = fifoCont w"
  "holdingSwapMutex (free_all asid n w) = holdingSwapMutex w"
  "replies (free_all asid n w) = replies w" "calls (free_all asid n w) = calls w"
  by (induction n) (simp_all add: free_all_Suc free_if_owned_simps, simp_all add: free_all_def)

lemma free_all_pool:
  "swapPool (free_all asid n w) j =
    (if j < n \<and> sw_asid (swapPool w j) = asid then free_frame else swapPool w j)"
proof (induction n)
  case (Suc n)
  then show ?case by (auto simp: free_all_Suc free_if_owned_simps less_Suc_eq)
qed (simp add: free_all_def)

lemma free_all_pte:
  "pte_at q (free_all asid n w) =
    (if \<exists>j<n. sw_asid (swapPool w j) = asid \<and> sw_pte (swapPool w j) = Some q
     then invalidate (pte_at q w) else pte_at q w)"
proof (induction n)
  case (Suc n)
  then show ?case
    by (auto simp: free_all_Suc free_if_owned_simps free_all_pool less_Suc_eq invalidate_idem)
qed (simp add: free_all_def)

lemma free_all_inv: "pool_inv A w \<Longrightarrow> pool_inv A (free_all asid n w)"
  by (induction n) (simp_all add: free_all_Suc free_if_owned_inv, simp add: free_all_def)

text \<open>
  The effect of releasing the frames of an address space: its entries of the Swap Pool are
  free, the pages they named are not valid, and nothing else of the pool and of the page
  tables changes.
\<close>

definition owned :: "u32 \<Rightarrow> world \<Rightarrow> u32 \<times> nat \<Rightarrow> bool" where
  "owned asid w q \<longleftrightarrow> (\<exists>j<POOLSIZE. sw_asid (swapPool w j) = asid \<and> sw_pte (swapPool w j) = Some q)"

definition freed :: "u32 \<Rightarrow> world \<Rightarrow> world \<Rightarrow> bool" where
  "freed asid w w' \<longleftrightarrow>
    (\<forall>j. swapPool w' j = (if j < POOLSIZE \<and> sw_asid (swapPool w j) = asid then free_frame else swapPool w j)) \<and>
    (\<forall>a k. pte_at (a, k) w' = (if owned asid w (a, k) then invalidate (pte_at (a, k) w) else pte_at (a, k) w)) \<and>
    (\<forall>a. sup_asid (supports w' a) = sup_asid (supports w a)) \<and>
    (\<forall>a. sup_exceptState (supports w' a) = sup_exceptState (supports w a)) \<and>
    fifoCont w' = fifoCont w"

lemma freed_pte:
  "freed asid w w' \<Longrightarrow> pte_at q w' = (if owned asid w q then invalidate (pte_at q w) else pte_at q w)"
  by (cases q) (simp add: freed_def)

lemma invalidate_entryHI: "pte_entryHI (invalidate e) = pte_entryHI e"
  by (simp add: invalidate_def)

lemma freed_entryHI: "freed asid w w' \<Longrightarrow> pte_entryHI (pte_at q w') = pte_entryHI (pte_at q w)"
  by (simp add: freed_pte invalidate_entryHI)

lemma owned_frame: "swapPool w' = swapPool w \<Longrightarrow> owned asid w' q = owned asid w q"
  by (simp add: owned_def)

lemma free_all_owned:
  "pte_at q (free_all asid POOLSIZE w) = (if owned asid w q then invalidate (pte_at q w) else pte_at q w)"
  unfolding owned_def by (rule free_all_pte)

lemma freed_inv:
  assumes "pool_inv A w" "freed asid w w'"
  shows "pool_inv A w'"
proof -
  have pool: "swapPool w' = swapPool (free_all asid POOLSIZE w)"
    using assms(2) by (simp add: freed_def free_all_pool fun_eq_iff)
  have "pool_inv A w' = pool_inv A (free_all asid POOLSIZE w)"
    by (rule pool_inv_frame [OF pool])
      (use assms(2) freed_pte [OF assms(2)] in \<open>simp_all add: freed_def free_all_simps free_all_owned\<close>)
  then show ?thesis using free_all_inv [OF assms(1)] by simp
qed

lemma freed_frame:
  assumes "freed asid w1 w2" "swapPool w1 = swapPool w" "supports w1 = supports w" "fifoCont w1 = fifoCont w"
  shows "freed asid w w2"
  using assms(1) pte_at_frame [OF assms(3)] owned_frame [OF assms(2)] by (simp add: freed_def assms(2-4))

lemma freeSwapFrames_eq:
  assumes "2 \<le> length (replies w)"
  obtains w' where "freeSwapFrames pf asid w = Some w'" "freed asid w w'" "tlb w' = Map.empty"
    "holdingSwapMutex w' = holdingSwapMutex w" "replies w' = drop 2 (replies w)" "cpu_status w' = cpu_status w"
    "calls w' = calls w @ [(PASSEREN, adr_swapSemaphore pf, 0, 0), (VERHOGEN, adr_swapSemaphore pf, 0, 0)]"
proof -
  obtain r r' rs where r: "replies w = r # r' # rs"
    using assms by (cases "replies w"; cases "tl (replies w)") auto
  let ?w1 = "(asked (PASSEREN, adr_swapSemaphore pf, 0, 0) w)\<lparr>cpu_status := cpu_status w AND NOT MSTATUS_MIE_MASK\<rparr>"
  let ?w2 = "(free_all asid POOLSIZE ?w1)\<lparr>tlb := Map.empty, cpu_status := cpu_status w\<rparr>"
  let ?w3 = "asked (VERHOGEN, adr_swapSemaphore pf, 0, 0) ?w2"
  have "freeSwapFrames pf asid w = Some ?w3"
    using r by (simp add: freeSwapFrames_def SYSCALL_answered vm_simps free_all_simps Let_def flip: free_all_def)
  moreover have "freed asid w ?w3"
    using pte_at_frame [of ?w3 "free_all asid POOLSIZE ?w1"] pte_at_frame [of ?w1 w] owned_frame [of ?w1 w]
    by (simp add: freed_def vm_simps free_all_simps free_all_pool free_all_owned)
  ultimately show thesis
    by (rule that) (simp_all add: vm_simps free_all_simps r)
qed

section \<open>SYS2\<close>

text \<open>The requests with which SYS2 ends a process.\<close>

definition sys2_calls :: "splatform \<Rightarrow> u32 \<Rightarrow> (u32 \<times> u32 \<times> u32 \<times> u32) list" where
  "sys2_calls pf asid =
    [(VERHOGEN, if asid = SHELL_ASID then adr_masterSemaphore pf else adr_shellSemaphore pf, 0, 0),
     (PASSEREN, adr_swapSemaphore pf, 0, 0), (VERHOGEN, adr_swapSemaphore pf, 0, 0), (TERMPROCESS, 0, 0, 0)]"

lemma sys2_eq:
  assumes m: "mutex_index (sup_asid (supports w a)) = Some m"
    and r: "(if holdingSwapMutex w m = 0 then 3 else 4) \<le> length (replies w)"
  obtains w' where "sys2 pf a w = Some (S_TERMINATED, w')" "freed (sup_asid (supports w a)) w w'"
    "tlb w' = Map.empty" "holdingSwapMutex w' = (holdingSwapMutex w)(m := 0)"
    "calls w' = calls w @ (if holdingSwapMutex w m = 0 then [] else [(VERHOGEN, adr_swapSemaphore pf, 0, 0)]) @
       sys2_calls pf (sup_asid (supports w a))"
proof -
  let ?asid = "sup_asid (supports w a)"
  let ?w1 = "if holdingSwapMutex w m = 0 then w
    else asked (VERHOGEN, adr_swapSemaphore pf, 0, 0) (w\<lparr>holdingSwapMutex := (holdingSwapMutex w)(m := 0)\<rparr>)"
  let ?w2 = "asked (VERHOGEN, if ?asid = SHELL_ASID then adr_masterSemaphore pf else adr_shellSemaphore pf, 0, 0) ?w1"
  have len: "2 \<le> length (replies ?w2)" using r by (auto simp: vm_simps)
  then have "replies ?w1 \<noteq> []" "replies w \<noteq> []" using r by (auto simp: vm_simps)
  from freeSwapFrames_eq [OF len, of pf ?asid] obtain w3 where
    w3: "freeSwapFrames pf ?asid ?w2 = Some w3" "freed ?asid ?w2 w3" "tlb w3 = Map.empty"
    "holdingSwapMutex w3 = holdingSwapMutex ?w2"
    "calls w3 = calls ?w2 @ [(PASSEREN, adr_swapSemaphore pf, 0, 0), (VERHOGEN, adr_swapSemaphore pf, 0, 0)]" .
  have "sys2 pf a w = Some (SYSCALL_terminate w3)"
    using m r \<open>replies ?w1 \<noteq> []\<close> \<open>replies w \<noteq> []\<close> w3(1)
    by (cases "holdingSwapMutex w m = 0") (auto simp: sys2_def Let_def SYSCALL_answered vm_simps)
  moreover have "freed ?asid w w3"
    by (rule freed_frame [OF w3(2)]) (simp_all add: vm_simps)
  ultimately show thesis
    using w3(3-5) fun_upd_triv [of "holdingSwapMutex w" m]
    by (intro that [of "snd (SYSCALL_terminate w3)"])
      (auto simp: SYSCALL_terminate_def freed_def pte_at_def vm_simps sys2_calls_def fun_eq_iff)
qed

section \<open>The pager\<close>

text \<open>The write with which the page in the frame \<open>i\<close>, if there is one, is saved.\<close>

definition evict_calls :: "splatform \<Rightarrow> nat \<Rightarrow> world \<Rightarrow> (u32 \<times> u32 \<times> u32 \<times> u32) list" where
  "evict_calls pf i w =
    (case sw_pte (swapPool w i) of
       None \<Rightarrow> []
     | Some q \<Rightarrow> [(DOIO, flash_command pf (sw_asid (swapPool w i)), push_bit 8 (of_nat (snd q)) OR FLASHWRITE, 0)])"

text \<open>The state \<open>w'\<close> is the state \<open>w\<close> with the page of the frame \<open>i\<close>, if any, not valid.\<close>

definition evicted :: "nat \<Rightarrow> world \<Rightarrow> world \<Rightarrow> bool" where
  "evicted i w w' \<longleftrightarrow> swapPool w' = swapPool w \<and> holdingSwapMutex w' = holdingSwapMutex w \<and>
    supports w' = (case sw_pte (swapPool w i) of None \<Rightarrow> supports w | Some q \<Rightarrow> supports (set_pte q invalidate w))"

lemma evictedD:
  assumes "evicted i w w'"
  shows "swapPool w' = swapPool w" "holdingSwapMutex w' = holdingSwapMutex w"
    "sup_asid (supports w' a) = sup_asid (supports w a)"
    "sup_exceptState (supports w' a) = sup_exceptState (supports w a)"
    "pte_at q w' = (if sw_pte (swapPool w i) = Some q then invalidate (pte_at q w) else pte_at q w)"
  using assms pte_at_frame [of w' w] pte_at_frame [of w' "set_pte (the (sw_pte (swapPool w i))) invalidate w"]
  by (auto simp: evicted_def vm_simps split: option.splits)

lemma evict_inv:
  assumes inv: "pool_inv A w" and i: "i < POOLSIZE" and r: "replies w \<noteq> []"
  obtains w' where "evict pf i w = Some w'" "evicted i w w'" "pool_inv A w'" "fifoCont w' = fifoCont w"
    "\<And>q. sw_pte (swapPool w' i) = Some q \<Longrightarrow> \<not> valid_pte (pte_at q w')"
    "calls w' = calls w @ evict_calls pf i w" "replies w' = drop (length (evict_calls pf i w)) (replies w)"
proof (cases "sw_asid (swapPool w i) = - 1")
  case True
  then have "sw_pte (swapPool w i) = None"
    using pool_invD(2,3) [OF inv] i mutex_index_asid by (force simp: record_ok_def split: option.splits)
  then show thesis
    by (intro that [OF evict_free [OF True]]) (use inv in \<open>simp_all add: evicted_def evict_calls_def\<close>)
next
  case False
  obtain a k w' where w': "sw_pte (swapPool w i) = Some (a, k)" "evict pf i w = Some w'"
    "supports w' = supports (set_pte (a, k) invalidate w)" "swapPool w' = swapPool w" "fifoCont w' = fifoCont w"
    "holdingSwapMutex w' = holdingSwapMutex w" "replies w' = tl (replies w)"
    "calls w' = calls w @ [(DOIO, flash_command pf (sw_asid (swapPool w i)), push_bit 8 (of_nat k) OR FLASHWRITE, 0)]"
    using evict_occupied [OF inv i False r] .
  have ev: "evicted i w w'" using w' by (simp add: evicted_def)
  have "pool_inv A w' = pool_inv A (set_pte (a, k) invalidate w)"
    by (rule pool_inv_frame) (simp_all add: w'(3-5) vm_simps pte_at_frame [OF w'(3)])
  then show thesis
    using pool_inv_invalidate [OF inv] w' evictedD(5) [OF ev] invalidate_not_valid
    by (intro that [OF w'(2) ev]) (simp_all add: evict_calls_def drop_Suc)
qed

text \<open>The frame does not depend on the parts of the state that the pager changes before it chooses.\<close>

lemma choose_frame_same:
  "\<lbrakk>swapPool w' = swapPool w; fifoCont w' = fifoCont w\<rbrakk> \<Longrightarrow> fst (choose_frame w') = fst (choose_frame w)"
  by (simp add: choose_frame_def split: option.splits)

text \<open>The state in which the pager holds the Swap Pool, and the rest of its work.\<close>

definition locked :: "splatform \<Rightarrow> nat \<Rightarrow> world \<Rightarrow> world" where
  "locked pf m w = (asked (PASSEREN, adr_swapSemaphore pf, 0, 0) (asked (GETSUPPORTPTR, 0, 0, 0) w))
     \<lparr>holdingSwapMutex := (holdingSwapMutex w)(m := 1)\<rparr>"

lemma locked_simps [vm_simps]:
  "supports (locked pf m w) = supports w" "pte_at q (locked pf m w) = pte_at q w"
  "swapPool (locked pf m w) = swapPool w" "fifoCont (locked pf m w) = fifoCont w"
  "holdingSwapMutex (locked pf m w) = (holdingSwapMutex w)(m := 1)"
  "replies (locked pf m w) = drop 2 (replies w)"
  "calls (locked pf m w) = calls w @ [(GETSUPPORTPTR, 0, 0, 0), (PASSEREN, adr_swapSemaphore pf, 0, 0)]"
  by (simp_all add: locked_def vm_simps pte_at_def drop_Suc numeral_2_eq_2)

definition unlocked :: "splatform \<Rightarrow> nat \<Rightarrow> world \<Rightarrow> world" where
  "unlocked pf m w = asked (VERHOGEN, adr_swapSemaphore pf, 0, 0) (w\<lparr>holdingSwapMutex := (holdingSwapMutex w)(m := 0)\<rparr>)"

lemma unlocked_simps [vm_simps]:
  "supports (unlocked pf m w) = supports w" "pte_at q (unlocked pf m w) = pte_at q w"
  "swapPool (unlocked pf m w) = swapPool w" "fifoCont (unlocked pf m w) = fifoCont w"
  "holdingSwapMutex (unlocked pf m w) = (holdingSwapMutex w)(m := 0)"
  "replies (unlocked pf m w) = tl (replies w)"
  "calls (unlocked pf m w) = calls w @ [(VERHOGEN, adr_swapSemaphore pf, 0, 0)]"
  by (simp_all add: unlocked_def vm_simps pte_at_def)

lemma pager_locked:
  assumes "replies w = a # r # rs" "mutex_index (sup_asid (supports w a)) = Some m"
    and "cause (sup_exceptState (supports w a) PGFAULTEXCEPT) AND CAUSE_EXCCODE_MASK pf \<noteq> EXC_MOD pf"
    and "evict pf (fst (choose_frame (locked pf m w))) (snd (choose_frame (locked pf m w))) = Some w3"
    and "readWriteFlashdrive pf (sup_asid (supports w3 a)) (missing_page (sup_exceptState (supports w a) PGFAULTEXCEPT))
      (frame_address (fst (choose_frame (locked pf m w)))) FLASHREAD w3 = Some (io, w4)"
    and "replies w4 \<noteq> []"
  shows "pager pf w =
    (if io \<noteq> 1 then sys2 pf a (unlocked pf m w4)
     else Option.bind (install pf (fst (choose_frame (locked pf m w))) a
        (missing_page (sup_exceptState (supports w a) PGFAULTEXCEPT)) w4)
        (\<lambda>w. Option.bind (SYSCALL VERHOGEN (adr_swapSemaphore pf) 0 0
            (w\<lparr>holdingSwapMutex := (holdingSwapMutex w)(m := 0)\<rparr>))
          (\<lambda>(_, w). Some (S_LDST (sup_exceptState (supports w a) 0), w))))"
proof -
  have 1: "SYSCALL GETSUPPORTPTR 0 0 0 w = Some (a, asked (GETSUPPORTPTR, 0, 0, 0) w)"
    using assms(1) by (simp add: SYSCALL_answered)
  have 2: "SYSCALL PASSEREN (adr_swapSemaphore pf) 0 0 (asked (GETSUPPORTPTR, 0, 0, 0) w) =
      Some (r, asked (PASSEREN, adr_swapSemaphore pf, 0, 0) (asked (GETSUPPORTPTR, 0, 0, 0) w))"
    using assms(1) by (simp add: SYSCALL_answered vm_simps)
  have 3: "SYSCALL VERHOGEN (adr_swapSemaphore pf) 0 0 (w4\<lparr>holdingSwapMutex := (holdingSwapMutex w4)(m := 0)\<rparr>) =
      Some (hd (replies w4), unlocked pf m w4)"
    using assms(6) by (simp add: SYSCALL_answered unlocked_def)
  show ?thesis
    using assms(2-5) 3
    by (simp add: pager_def 1 2 asked_simps Let_def split_def programTrapHandler_def locked_def [symmetric] locked_simps)
qed

text \<open>What the pager has done when it starts to read the missing page into the frame.\<close>

lemma pager_prepared:
  assumes inv: "pool_inv A w" and r: "replies w = a # r # rs" "rs \<noteq> []"
    and i: "i = fst (choose_frame w)"
  obtains w3 where "evict pf (fst (choose_frame (locked pf m w))) (snd (choose_frame (locked pf m w))) = Some w3"
    "fst (choose_frame (locked pf m w)) = i" "i < POOLSIZE" "evicted i (locked pf m w) w3" "pool_inv A w3"
    "\<And>q. sw_pte (swapPool w3 i) = Some q \<Longrightarrow> \<not> valid_pte (pte_at q w3)"
    "calls w3 = calls w @ [(GETSUPPORTPTR, 0, 0, 0), (PASSEREN, adr_swapSemaphore pf, 0, 0)] @ evict_calls pf i w"
    "replies w3 = drop (length (evict_calls pf i w)) rs"
proof -
  have i': "fst (choose_frame (locked pf m w)) = i"
    unfolding i by (rule choose_frame_same) (simp_all add: vm_simps)
  have "pool_inv A (locked pf m w)"
    using inv pool_inv_frame [of "locked pf m w" w] by (simp add: vm_simps)
  then have *: "pool_inv A (snd (choose_frame (locked pf m w)))" "i < POOLSIZE"
    using choose_frame_inv i' by auto
  have **: "replies (snd (choose_frame (locked pf m w))) \<noteq> []" using r by (simp add: vm_simps)
  have calls: "evict_calls pf i (snd (choose_frame (locked pf m w))) = evict_calls pf i w"
    by (simp only: evict_calls_def choose_frame_simps locked_simps)
  from evict_inv [OF * **, of pf] obtain w3 where w3: "evict pf i (snd (choose_frame (locked pf m w))) = Some w3"
    "evicted i (snd (choose_frame (locked pf m w))) w3" "pool_inv A w3"
    "\<And>q. sw_pte (swapPool w3 i) = Some q \<Longrightarrow> \<not> valid_pte (pte_at q w3)"
    "calls w3 = calls (snd (choose_frame (locked pf m w))) @ evict_calls pf i w"
    "replies w3 = drop (length (evict_calls pf i w)) (replies (snd (choose_frame (locked pf m w))))"
    unfolding calls by blast
  have "evicted i (locked pf m w) w3"
    using w3(2) by (simp add: evicted_def vm_simps set_pte_def pte_at_def split: option.splits)
  then show thesis
    using w3 r by (intro that [of w3]) (simp_all add: i' * vm_simps)
qed

text \<open>The page fault is served: the page is in the frame, its entry is valid, and only the page that was
  in the frame before is lost.\<close>

lemma pager_serves:
  assumes inv: "pool_inv A w" and a: "a \<in> A" and r: "replies w = a # r # rs"
    and c: "cause (sup_exceptState (supports w a) PGFAULTEXCEPT) AND CAUSE_EXCCODE_MASK pf \<noteq> EXC_MOD pf"
    and p: "missing_page (sup_exceptState (supports w a) PGFAULTEXCEPT) = vpn" "getFlashBlock vpn = of_nat k"
      "k < USERPGTBLSIZE"
    and i: "i = fst (choose_frame w)" and es: "es = evict_calls pf i w"
    and m: "mutex_index (sup_asid (supports w a)) = Some m"
    and io: "length es + 2 \<le> length rs" "rs ! length es = 1"
  obtains w' where "pager pf w = Some (S_LDST (sup_exceptState (supports w a) 0), w')" "pool_inv A w'" "i < POOLSIZE"
    "swapPool w' = (swapPool w)(i := \<lparr>sw_asid = sup_asid (supports w a), sw_pageNo = vpn, sw_pte = Some (a, k)\<rparr>)"
    "\<And>q. pte_at q w' = (if q = (a, k) then (pte_at q w)\<lparr>pte_entryLO := resident i\<rparr>
       else if sw_pte (swapPool w i) = Some q then invalidate (pte_at q w) else pte_at q w)"
    "\<And>b. sup_asid (supports w' b) = sup_asid (supports w b)" "holdingSwapMutex w' = (holdingSwapMutex w)(m := 0)"
    "calls w' = calls w @ [(GETSUPPORTPTR, 0, 0, 0), (PASSEREN, adr_swapSemaphore pf, 0, 0)] @ es @
       [(DOIO, flash_command pf (sup_asid (supports w a)), push_bit 8 (of_nat k) OR FLASHREAD, 0),
        (VERHOGEN, adr_swapSemaphore pf, 0, 0)]"
proof -
  have "rs \<noteq> []" using io(1) by auto
  from pager_prepared [OF inv r this i, of pf m] obtain w3 where
    w3: "evict pf (fst (choose_frame (locked pf m w))) (snd (choose_frame (locked pf m w))) = Some w3"
    "fst (choose_frame (locked pf m w)) = i" "i < POOLSIZE" "evicted i (locked pf m w) w3" "pool_inv A w3"
    and clear: "\<And>q. sw_pte (swapPool w3 i) = Some q \<Longrightarrow> \<not> valid_pte (pte_at q w3)"
    and w3': "calls w3 = calls w @ [(GETSUPPORTPTR, 0, 0, 0), (PASSEREN, adr_swapSemaphore pf, 0, 0)] @ es"
    "replies w3 = drop (length es) rs"
    unfolding es by blast
  note ev = evictedD [OF w3(4), unfolded locked_simps]
  have "drop (length es) rs = 1 # drop (Suc (length es)) rs" "drop (Suc (length es)) rs \<noteq> []"
    using io Cons_nth_drop_Suc [of "length es" rs] by auto
  then have r3: "replies w3 \<noteq> []" "hd (replies w3) = 1" "tl (replies w3) \<noteq> []" using w3' by auto
  have m3: "mutex_index (sup_asid (supports w3 a)) = Some m" by (simp add: ev m)
  from readWriteFlashdrive_answered [OF m3 p(2,3) r3(1)] obtain ra where
    io: "readWriteFlashdrive pf (sup_asid (supports w3 a)) vpn (frame_address i) FLASHREAD w3 =
      Some (hd (replies w3), asked (DOIO, flash_command pf (sup_asid (supports w3 a)), push_bit 8 (of_nat k) OR FLASHREAD, 0)
        (w3\<lparr>ram := ra\<rparr>))" (is "_ = Some (_, ?w4)") .
  from install_eq [OF p(2,3), of pf i a ?w4] obtain w5 where
    w5: "install pf i a vpn ?w4 = Some w5"
    "swapPool w5 = (swapPool ?w4)(i := \<lparr>sw_asid = sup_asid (supports ?w4 a), sw_pageNo = vpn, sw_pte = Some (a, k)\<rparr>)"
    "supports w5 = supports (set_pte (a, k) (\<lambda>e. e\<lparr>pte_entryLO := resident i\<rparr>) ?w4)" "fifoCont w5 = fifoCont ?w4"
    "holdingSwapMutex w5 = holdingSwapMutex ?w4" "replies w5 = replies ?w4" "calls w5 = calls ?w4" .
  have "pager pf w = Some (S_LDST (sup_exceptState (supports (unlocked pf m w5) a) 0), unlocked pf m w5)"
    using pager_locked [OF r m c w3(1), unfolded p(1) w3(2), OF io] r3 w5(1,6)
    by (simp add: vm_simps SYSCALL_answered unlocked_def)
  moreover have pte5: "pte_at q w5 = (if q = (a, k) then (pte_at q w3)\<lparr>pte_entryLO := resident i\<rparr> else pte_at q w3)" for q
    using pte_at_frame [OF w5(3), of q] pte_at_frame [of ?w4 w3] by (simp add: vm_simps)
  moreover have "pool_inv A w5"
    by (rule pool_inv_install [OF w3(5) clear a p(3) w3(3) p(2)])
      (simp_all add: w5 vm_simps set_pte_def pte_at_def)
  moreover then have "pool_inv A (unlocked pf m w5)"
    using pool_inv_frame [of "unlocked pf m w5" w5] by (simp add: vm_simps)
  ultimately show thesis
    using w3(3) w3' w5(2,5,7) by (intro that [of "unlocked pf m w5"]) (simp_all add: vm_simps w5(3) ev invalidate_def)
qed

text \<open>
  The page fault cannot be served: there is no such page, or the flash device fails. The
  process ends, after the Swap Pool has been released.
\<close>

text \<open>A read that fails: the device answers with another status, or the block is out of range and no request is made.\<close>

lemma readWriteFlashdrive_failed:
  assumes m: "mutex_index asid = Some m" and r: "replies w \<noteq> []"
    and fail: "unat (getFlashBlock vpn) < USERPGTBLSIZE \<Longrightarrow> hd (replies w) \<noteq> 1"
  obtains io w4 where "readWriteFlashdrive pf asid vpn address FLASHREAD w = Some (io, w4)" "io \<noteq> 1"
    "supports w4 = supports w" "swapPool w4 = swapPool w" "fifoCont w4 = fifoCont w"
    "holdingSwapMutex w4 = holdingSwapMutex w" "length (replies w) \<le> Suc (length (replies w4))"
    "calls w4 = calls w @ (if unat (getFlashBlock vpn) < USERPGTBLSIZE
      then [(DOIO, flash_command pf asid, push_bit 8 (getFlashBlock vpn) OR FLASHREAD, 0)] else [])"
proof (cases "unat (getFlashBlock vpn) < USERPGTBLSIZE")
  case True
  have "getFlashBlock vpn = of_nat (unat (getFlashBlock vpn))" by simp
  from readWriteFlashdrive_answered [OF m this True r] obtain ra where
    "readWriteFlashdrive pf asid vpn address FLASHREAD w =
      Some (hd (replies w), asked (DOIO, flash_command pf asid,
        push_bit 8 (of_nat (unat (getFlashBlock vpn))) OR FLASHREAD, 0) (w\<lparr>ram := ra\<rparr>))" .
  then show thesis
    by (rule that) (use r fail True in \<open>auto simp: vm_simps\<close>)
next
  case False
  show thesis
    by (rule that [OF readWriteFlashdrive_no_block [OF m False]]) (use r False in auto)
qed

lemma pager_fails:
  assumes inv: "pool_inv A w" and a: "a \<in> A" and r: "replies w = a # r # rs" "length (evict_calls pf i w) + 5 \<le> length rs"
    and c: "cause (sup_exceptState (supports w a) PGFAULTEXCEPT) AND CAUSE_EXCCODE_MASK pf \<noteq> EXC_MOD pf"
    and p: "missing_page (sup_exceptState (supports w a) PGFAULTEXCEPT) = vpn"
    and i: "i = fst (choose_frame w)"
    and m: "mutex_index (sup_asid (supports w a)) = Some m"
    and fail: "unat (getFlashBlock vpn) < USERPGTBLSIZE \<Longrightarrow> rs ! length (evict_calls pf i w) \<noteq> 1"
  obtains w3 w' where "pager pf w = Some (S_TERMINATED, w')" "pool_inv A w'" "i < POOLSIZE"
    "evicted i (locked pf m w) w3" "freed (sup_asid (supports w a)) w3 w'"
    "holdingSwapMutex w' = (holdingSwapMutex w)(m := 0)"
    "calls w' = calls w @ [(GETSUPPORTPTR, 0, 0, 0), (PASSEREN, adr_swapSemaphore pf, 0, 0)] @ evict_calls pf i w @
       (if unat (getFlashBlock vpn) < USERPGTBLSIZE
        then [(DOIO, flash_command pf (sup_asid (supports w a)), push_bit 8 (getFlashBlock vpn) OR FLASHREAD, 0)] else []) @
       [(VERHOGEN, adr_swapSemaphore pf, 0, 0)] @ sys2_calls pf (sup_asid (supports w a))"
proof -
  let ?asid = "sup_asid (supports w a)"
  have "rs \<noteq> []" using r(2) by auto
  from pager_prepared [OF inv r(1) this i, of pf m] obtain w3 where
    w3: "evict pf (fst (choose_frame (locked pf m w))) (snd (choose_frame (locked pf m w))) = Some w3"
    "fst (choose_frame (locked pf m w)) = i" "i < POOLSIZE" "evicted i (locked pf m w) w3" "pool_inv A w3"
    and w3': "calls w3 = calls w @ [(GETSUPPORTPTR, 0, 0, 0), (PASSEREN, adr_swapSemaphore pf, 0, 0)] @ evict_calls pf i w"
    "replies w3 = drop (length (evict_calls pf i w)) rs"
    by blast
  note ev = evictedD [OF w3(4), unfolded locked_simps]
  have r3: "replies w3 \<noteq> []" "hd (replies w3) = rs ! length (evict_calls pf i w)" "5 \<le> length (replies w3)"
    using r(2) w3'(2) by (auto simp: hd_drop_conv_nth)
  have m3: "mutex_index (sup_asid (supports w3 a)) = Some m" by (simp add: ev m)
  have "unat (getFlashBlock vpn) < USERPGTBLSIZE \<Longrightarrow> hd (replies w3) \<noteq> 1" using fail r3(2) by simp
  from readWriteFlashdrive_failed [OF m3 r3(1) this, where address = "frame_address i" and pf = pf] obtain io w4 where
    io: "readWriteFlashdrive pf (sup_asid (supports w3 a)) vpn (frame_address i) FLASHREAD w3 = Some (io, w4)" "io \<noteq> 1"
    and w4: "supports w4 = supports w3" "swapPool w4 = swapPool w3" "fifoCont w4 = fifoCont w3"
      "holdingSwapMutex w4 = holdingSwapMutex w3" "length (replies w3) \<le> Suc (length (replies w4))"
      "calls w4 = calls w3 @ (if unat (getFlashBlock vpn) < USERPGTBLSIZE
        then [(DOIO, flash_command pf (sup_asid (supports w3 a)), push_bit 8 (getFlashBlock vpn) OR FLASHREAD, 0)] else [])" .
  have "sup_asid (supports w3 a) = ?asid" by (simp add: ev)
  note w4 = w4(1-5) w4(6) [unfolded this]
  have r4: "replies w4 \<noteq> []" "4 \<le> length (replies w4)" using r3(3) w4(5) by auto
  have s2: "mutex_index (sup_asid (supports (unlocked pf m w4) a)) = Some m"
    "(if holdingSwapMutex (unlocked pf m w4) m = 0 then 3 else 4) \<le> length (replies (unlocked pf m w4))"
    using m3 w4(1) r4(2) by (simp_all add: vm_simps)
  from sys2_eq [OF this, of pf] obtain w' where w': "sys2 pf a (unlocked pf m w4) = Some (S_TERMINATED, w')"
    "freed ?asid (unlocked pf m w4) w'" "holdingSwapMutex w' = (holdingSwapMutex (unlocked pf m w4))(m := 0)"
    "calls w' = calls (unlocked pf m w4) @ sys2_calls pf ?asid"
    by (auto simp: vm_simps w4(1) ev)
  have "pager pf w = Some (S_TERMINATED, w')"
    using pager_locked [OF r(1) m c w3(1), unfolded p w3(2), OF io(1) r4(1)] io(2) w'(1) by simp
  moreover have "freed ?asid w3 w'"
    by (rule freed_frame [OF w'(2)]) (simp_all add: vm_simps w4)
  moreover have "pool_inv A w'" by (rule freed_inv [OF w3(5) calculation(2)])
  ultimately show thesis
    using w3(3,4) w'(3,4) w3'(1) by (intro that) (simp_all add: vm_simps w4 ev)
qed

lemma pager_modified:
  assumes inv: "pool_inv A w" and a: "a \<in> A" and r: "replies w = a # rs" "4 \<le> length rs"
    and c: "cause (sup_exceptState (supports w a) PGFAULTEXCEPT) AND CAUSE_EXCCODE_MASK pf = EXC_MOD pf"
    and m: "mutex_index (sup_asid (supports w a)) = Some m"
  obtains w' where "pager pf w = Some (S_TERMINATED, w')" "pool_inv A w'"
    "\<And>b. sup_asid (supports w' b) = sup_asid (supports w b)"
    "\<And>q. pte_entryHI (pte_at q w') = pte_entryHI (pte_at q w)"
    "holdingSwapMutex w' = (holdingSwapMutex w)(m := 0)"
    "calls w' = calls w @ [(GETSUPPORTPTR, 0, 0, 0)] @
       (if holdingSwapMutex w m = 0 then [] else [(VERHOGEN, adr_swapSemaphore pf, 0, 0)]) @
       sys2_calls pf (sup_asid (supports w a))"
proof -
  let ?w = "asked (GETSUPPORTPTR, 0, 0, 0) w"
  have "pager pf w = sys2 pf a ?w"
    using r(1) c by (simp add: pager_def SYSCALL_answered vm_simps Let_def programTrapHandler_def)
  moreover have "mutex_index (sup_asid (supports ?w a)) = Some m"
    "(if holdingSwapMutex ?w m = 0 then 3 else 4) \<le> length (replies ?w)"
    using m r by (simp_all add: vm_simps)
  from sys2_eq [OF this, of pf] obtain w' where w': "sys2 pf a ?w = Some (S_TERMINATED, w')"
    "freed (sup_asid (supports w a)) ?w w'" "holdingSwapMutex w' = (holdingSwapMutex w)(m := 0)"
    "calls w' = calls w @ [(GETSUPPORTPTR, 0, 0, 0)] @
       (if holdingSwapMutex w m = 0 then [] else [(VERHOGEN, adr_swapSemaphore pf, 0, 0)]) @
       sys2_calls pf (sup_asid (supports w a))"
    by (auto simp: vm_simps)
  moreover have "pool_inv A w'"
    by (rule freed_inv [OF _ w'(2)]) (use inv pool_inv_frame [of ?w w] in \<open>simp add: vm_simps\<close>)
  moreover have "sup_asid (supports w' b) = sup_asid (supports w b)" for b
    using w'(2) by (simp add: freed_def vm_simps)
  moreover have "pte_entryHI (pte_at q w') = pte_entryHI (pte_at q w)" for q
    using freed_entryHI [OF w'(2)] by (simp add: vm_simps)
  ultimately show thesis by (intro that) simp_all
qed

end
