(* ===== verification/Terminal.thy ===== *)
theory Terminal
  imports Pager
begin

text \<open>
  The terminal services of phase3/src/syscalls.c: what writeTerminal sends, what
  readTerminal stores, for every sequence of answers of the device, and which requests
  SYS4 and SYS5 accept.
\<close>

section \<open>Writing\<close>

text \<open>The requests that transmit the characters \<open>i\<close> to \<open>j - 1\<close> of the string at \<open>str\<close>.\<close>

definition transmits :: "splatform \<Rightarrow> u32 \<Rightarrow> u32 \<Rightarrow> nat \<Rightarrow> nat \<Rightarrow> world \<Rightarrow> (u32 \<times> u32 \<times> u32 \<times> u32) list" where
  "transmits pf term str i j w = map (\<lambda>i. (DOIO, term + off_transm_command pf,
     push_bit 8 (ucast (bytes w (str + of_nat i))) OR TRANSMITCHAR, 0)) [i..<j]"

lemma transmits_Cons:
  "i < j \<Longrightarrow> transmits pf term str i j w = (DOIO, term + off_transm_command pf,
     push_bit 8 (ucast (bytes w (str + of_nat i))) OR TRANSMITCHAR, 0) # transmits pf term str (Suc i) j w"
  by (simp add: transmits_def upt_conv_Cons)

text \<open>The state after some requests have been answered.\<close>

definition requested :: "(u32 \<times> u32 \<times> u32 \<times> u32) list \<Rightarrow> world \<Rightarrow> world" where
  "requested cs w = w\<lparr>replies := drop (length cs) (replies w), calls := calls w @ cs\<rparr>"

lemma requested_Nil [simp]: "requested [] w = w"
  by (simp add: requested_def)

lemma requested_asked: "requested cs (asked c w) = requested (c # cs) w"
  by (simp add: requested_def asked_def drop_Suc)

lemma asked_requested: "asked c (requested cs w) = requested (cs @ [c]) w"
  by (simp add: requested_def asked_def tl_drop drop_Suc)

lemma requested_simps [vm_simps]:
  "supports (requested cs w) = supports w" "bytes (requested cs w) = bytes w"
  "swapPool (requested cs w) = swapPool w" "fifoCont (requested cs w) = fifoCont w"
  "holdingSwapMutex (requested cs w) = holdingSwapMutex w"
  "replies (requested cs w) = drop (length cs) (replies w)" "calls (requested cs w) = calls w @ cs"
  by (simp_all add: requested_def)

lemma transmits_frame [vm_simps]: "transmits pf term str i j (asked c w) = transmits pf term str i j w"
  by (simp add: transmits_def vm_simps)

definition transmitted_ok :: "u32 \<Rightarrow> bool" where
  "transmitted_ok s \<longleftrightarrow> s AND 0xFF = OKCHARTRANS"

lemma writeTerminal_loop_ok:
  assumes "n \<le> length (replies w)" "\<forall>s\<in>set (take n (replies w)). transmitted_ok s"
  shows "writeTerminal_loop pf term str (of_nat i) n w =
    Some (of_nat (i + n), requested (transmits pf term str i (i + n) w) w)"
  using assms
proof (induction n arbitrary: i w)
  case 0
  then show ?case by (simp add: transmits_def)
next
  case (Suc n)
  let ?c = "(DOIO, term + off_transm_command pf, push_bit 8 (ucast (bytes w (str + of_nat i))) OR TRANSMITCHAR, 0)"
  have r: "replies w \<noteq> []" "transmitted_ok (hd (replies w))" "n \<le> length (tl (replies w))"
    "\<forall>s\<in>set (take n (tl (replies w))). transmitted_ok s"
    using Suc.prems by (cases "replies w"; auto)+
  have "writeTerminal_loop pf term str (of_nat (Suc i)) n (asked ?c w) =
      Some (of_nat (Suc i + n), requested (transmits pf term str (Suc i) (Suc i + n) (asked ?c w)) (asked ?c w))"
    by (rule Suc.IH) (use r in \<open>simp_all add: vm_simps\<close>)
  then show ?case
    using r(1,2) by (simp add: SYSCALL_answered transmitted_ok_def requested_asked transmits_Cons vm_simps add.commute)
qed

lemma writeTerminal_loop_fail:
  assumes "j < n" "j < length (replies w)" "\<forall>s\<in>set (take j (replies w)). transmitted_ok s"
    "\<not> transmitted_ok (replies w ! j)"
  shows "writeTerminal_loop pf term str (of_nat i) n w =
    Some (- (replies w ! j AND 0xFF), requested (transmits pf term str i (i + Suc j) w) w)"
  using assms
proof (induction n arbitrary: i j w)
  case (Suc n)
  let ?c = "(DOIO, term + off_transm_command pf, push_bit 8 (ucast (bytes w (str + of_nat i))) OR TRANSMITCHAR, 0)"
  have r: "replies w \<noteq> []" using Suc.prems(2) by auto
  show ?case
  proof (cases j)
    case 0
    then show ?thesis
      using r Suc.prems(4)
      by (simp add: SYSCALL_answered transmitted_ok_def hd_conv_nth transmits_def requested_asked [of "[]", simplified])
  next
    case j: (Suc j')
    have r': "transmitted_ok (hd (replies w))" "j' < length (tl (replies w))"
      "\<forall>s\<in>set (take j' (tl (replies w))). transmitted_ok s" "tl (replies w) ! j' = replies w ! j"
      using Suc.prems j by (cases "replies w"; auto)+
    have "writeTerminal_loop pf term str (of_nat (Suc i)) n (asked ?c w) =
        Some (- (replies (asked ?c w) ! j' AND 0xFF),
          requested (transmits pf term str (Suc i) (Suc i + Suc j') (asked ?c w)) (asked ?c w))"
      by (rule Suc.IH) (use r' Suc.prems(1,4) j in \<open>simp_all add: vm_simps\<close>)
    then show ?thesis
      using r r' j by (simp add: SYSCALL_answered transmitted_ok_def requested_asked transmits_Cons vm_simps add.commute)
  qed
qed simp

definition term0 :: "splatform \<Rightarrow> u32" where
  "term0 pf = DEV_REG_ADDR pf IL_TERMINAL 0"

abbreviation lock_write :: "splatform \<Rightarrow> u32 \<times> u32 \<times> u32 \<times> u32" where
  "lock_write pf \<equiv> (PASSEREN, adr_termWriteSemaphore pf, 0, 0)"

abbreviation unlock_write :: "splatform \<Rightarrow> u32 \<times> u32 \<times> u32 \<times> u32" where
  "unlock_write pf \<equiv> (VERHOGEN, adr_termWriteSemaphore pf, 0, 0)"

text \<open>Every character is accepted: all are sent, in order, between the P and the V of the terminal.\<close>

lemma writeTerminal_ok:
  assumes r: "replies w = r # os @ v # rs" "\<forall>s\<in>set os. transmitted_ok s" "nat (sint len) = length os"
  shows "writeTerminal pf str len w = Some (of_nat (length os),
    requested (lock_write pf # transmits pf (term0 pf) str 0 (length os) w @ [unlock_write pf]) w)"
proof -
  let ?w = "asked (lock_write pf) w"
  have "writeTerminal_loop pf (term0 pf) str (of_nat 0) (length os) ?w =
      Some (of_nat (0 + length os), requested (transmits pf (term0 pf) str 0 (0 + length os) ?w) ?w)"
    by (rule writeTerminal_loop_ok) (use r in \<open>simp_all add: vm_simps\<close>)
  then show ?thesis
    using r
    by (simp add: writeTerminal_def term0_def SYSCALL_answered vm_simps asked_requested requested_asked transmits_def)
qed

text \<open>A character is refused: the ones before it are sent, the terminal is released and the result is the status, negative.\<close>

lemma writeTerminal_fail:
  assumes r: "replies w = r # os @ s # v # rs" "\<forall>s\<in>set os. transmitted_ok s" "\<not> transmitted_ok s"
    "length os < nat (sint len)"
  shows "writeTerminal pf str len w = Some (- (s AND 0xFF),
    requested (lock_write pf # transmits pf (term0 pf) str 0 (Suc (length os)) w @ [unlock_write pf]) w)"
proof -
  let ?w = "asked (lock_write pf) w"
  have "writeTerminal_loop pf (term0 pf) str (of_nat 0) (nat (sint len)) ?w =
      Some (- (replies ?w ! length os AND 0xFF), requested (transmits pf (term0 pf) str 0 (0 + Suc (length os)) ?w) ?w)"
    by (rule writeTerminal_loop_fail) (use r in \<open>simp_all add: vm_simps nth_append\<close>)
  then show ?thesis
    using r
    by (simp add: writeTerminal_def term0_def SYSCALL_answered vm_simps asked_requested requested_asked transmits_def
        nth_append)
qed

section \<open>Reading\<close>

text \<open>The character in an answer of the receiver.\<close>

definition recv_char :: "u32 \<Rightarrow> 8 word" where
  "recv_char s = ucast (drop_bit 8 s AND 0xFF)"

definition received_ok :: "u32 \<Rightarrow> bool" where
  "received_ok s \<longleftrightarrow> s AND 0xFF = CHARRECV"

text \<open>The memory after the characters \<open>cs\<close> have come, when \<open>n\<close> were stored before.\<close>

primrec store_line :: "u32 \<Rightarrow> nat \<Rightarrow> 8 word list \<Rightarrow> (u32 \<Rightarrow> 8 word) \<Rightarrow> u32 \<Rightarrow> 8 word" where
  "store_line buf n [] m = m"
| "store_line buf n (c # cs) m =
    (if n < MAXSTRLENG then store_line buf (Suc n) cs (m(buf + of_nat n := c)) else store_line buf n cs m)"

lemma store_line_full: "MAXSTRLENG \<le> n \<Longrightarrow> store_line buf n cs m = m"
  by (induction cs) auto

lemma of_nat_u32_inject: "\<lbrakk>i < 2 ^ 32; j < 2 ^ 32\<rbrakk> \<Longrightarrow> (of_nat i :: u32) = of_nat j \<longleftrightarrow> i = j"
  by (metis unat_of_nat_u32)

lemma store_line_at:
  "a < MAXSTRLENG \<Longrightarrow> store_line buf n cs m (buf + of_nat a) =
    (if n \<le> a \<and> a < n + length cs then cs ! (a - n) else m (buf + of_nat a))"
proof (induction cs arbitrary: n m)
  case (Cons c cs)
  then show ?case
    by (cases "n < MAXSTRLENG") (auto simp: of_nat_u32_inject nth_Cons' store_line_full)
qed auto

lemma store_line_frame:
  "(\<And>a. a < MAXSTRLENG \<Longrightarrow> x \<noteq> buf + of_nat a) \<Longrightarrow> store_line buf n cs m x = m x"
  by (induction cs arbitrary: n m) auto

abbreviation receives :: "splatform \<Rightarrow> u32 \<Rightarrow> u32 \<times> u32 \<times> u32 \<times> u32" where
  "receives pf term \<equiv> (DOIO, term + off_recv_command pf, RECEIVECHAR, 0)"

lemma readTerminal_loop_line:
  assumes "replies w = ss @ s # rs" "\<forall>s\<in>set ss. received_ok s \<and> recv_char s \<noteq> 10" "received_ok s" "recv_char s = 10"
  shows "readTerminal_loop pf term buf n w = Some (of_nat (max n (min MAXSTRLENG (n + Suc (length ss)))),
    requested (replicate (Suc (length ss)) (receives pf term))
      (w\<lparr>bytes := store_line buf n (map recv_char (ss @ [s])) (bytes w)\<rparr>))"
  using assms
proof (induction ss arbitrary: n w)
  case Nil
  then show ?case
    by (subst readTerminal_loop.simps)
      (auto simp: SYSCALL_answered received_ok_def recv_char_def Let_def vm_simps asked_def requested_def)
next
  case (Cons t ss)
  have t: "received_ok t" "recv_char t \<noteq> 10" "replies w \<noteq> []" "hd (replies w) = t" using Cons.prems by auto
  let ?w = "asked (receives pf term) w"
  let ?w' = "if n < MAXSTRLENG then ?w\<lparr>bytes := (bytes ?w)(buf + of_nat n := recv_char t)\<rparr> else ?w"
  let ?n = "if n < MAXSTRLENG then n + 1 else n"
  have "readTerminal_loop pf term buf n w = readTerminal_loop pf term buf ?n ?w'"
    using t by (subst readTerminal_loop.simps) (simp add: SYSCALL_answered received_ok_def recv_char_def Let_def)
  also have "\<dots> = Some (of_nat (max ?n (min MAXSTRLENG (?n + Suc (length ss)))),
    requested (replicate (Suc (length ss)) (receives pf term))
      (?w'\<lparr>bytes := store_line buf ?n (map recv_char (ss @ [s])) (bytes ?w')\<rparr>))"
    by (rule Cons.IH) (use Cons.prems in \<open>auto simp: vm_simps\<close>)
  finally show ?case
    by (auto simp: requested_def asked_def drop_Suc split: if_splits)
qed

text \<open>
  readTerminal reads up to and including the newline, stores at most the first 128
  characters of the line and returns their number.
\<close>

lemma readTerminal_line:
  assumes r: "replies w = p # ss @ s # v # rs" "\<forall>s\<in>set ss. received_ok s \<and> recv_char s \<noteq> 10"
    "received_ok s" "recv_char s = 10"
  obtains w' where "readTerminal pf buf w = Some (of_nat (min MAXSTRLENG (Suc (length ss))), w')"
    "bytes w' = store_line buf 0 (map recv_char (ss @ [s])) (bytes w)" "supports w' = supports w"
    "swapPool w' = swapPool w" "fifoCont w' = fifoCont w" "holdingSwapMutex w' = holdingSwapMutex w"
    "replies w' = rs"
    "calls w' = calls w @ (PASSEREN, adr_termReadSemaphore pf, 0, 0) #
       replicate (Suc (length ss)) (receives pf (term0 pf)) @ [(VERHOGEN, adr_termReadSemaphore pf, 0, 0)]"
proof -
  let ?w = "asked (PASSEREN, adr_termReadSemaphore pf, 0, 0) w"
  have "readTerminal_loop pf (term0 pf) buf 0 ?w = Some (of_nat (max 0 (min MAXSTRLENG (0 + Suc (length ss)))),
    requested (replicate (Suc (length ss)) (receives pf (term0 pf)))
      (?w\<lparr>bytes := store_line buf 0 (map recv_char (ss @ [s])) (bytes ?w)\<rparr>))"
    by (rule readTerminal_loop_line) (use r in \<open>simp_all add: vm_simps\<close>)
  then show thesis
    using r
    by (intro that [of "asked (VERHOGEN, adr_termReadSemaphore pf, 0, 0) (requested (replicate (Suc (length ss)) (receives pf (term0 pf)))
      (?w\<lparr>bytes := store_line buf 0 (map recv_char (ss @ [s])) (bytes ?w)\<rparr>))"])
      (simp_all add: readTerminal_def term0_def SYSCALL_answered vm_simps tl_drop [symmetric] drop_Suc)
qed

lemma readTerminal_loop_fail:
  assumes "replies w = ss @ s # rs" "\<forall>s\<in>set ss. received_ok s \<and> recv_char s \<noteq> 10" "\<not> received_ok s"
  shows "\<exists>w'. readTerminal_loop pf term buf n w = Some (- (s AND 0xFF), w') \<and> replies w' = rs"
  using assms
proof (induction ss arbitrary: n w)
  case Nil
  then show ?case
    by (subst readTerminal_loop.simps) (simp add: SYSCALL_answered received_ok_def Let_def vm_simps)
next
  case (Cons t ss)
  have t: "received_ok t" "recv_char t \<noteq> 10" "replies w \<noteq> []" "hd (replies w) = t" using Cons.prems by auto
  then show ?case
    using Cons.prems
    by (subst readTerminal_loop.simps)
      (auto simp: SYSCALL_answered received_ok_def recv_char_def Let_def vm_simps intro!: Cons.IH)
qed

section \<open>Reading a line and writing it back\<close>

lemma transmits_bytes:
  "(\<And>i. i < n \<Longrightarrow> bytes w (str + of_nat i) = cs ! i) \<Longrightarrow> n = length cs \<Longrightarrow>
    transmits pf term str 0 n w = map (\<lambda>c. (DOIO, term + off_transm_command pf, push_bit 8 (ucast c) OR TRANSMITCHAR, 0)) cs"
  by (rule nth_equalityI) (simp_all add: transmits_def)

lemma echo_line:
  assumes r: "replies w = p # ss @ s # v # p' # os @ v' # rs" "\<forall>s\<in>set ss. received_ok s \<and> recv_char s \<noteq> 10"
    "received_ok s" "recv_char s = 10"
    and o: "\<forall>s\<in>set os. transmitted_ok s" "length os = min MAXSTRLENG (Suc (length ss))"
  obtains w1 w2 where "readTerminal pf buf w = Some (of_nat (length os), w1)"
    "writeTerminal pf buf (of_nat (length os)) w1 = Some (of_nat (length os), w2)"
    "calls w2 = calls w1 @ lock_write pf # map (\<lambda>c. (DOIO, term0 pf + off_transm_command pf, push_bit 8 (ucast c) OR TRANSMITCHAR, 0))
       (take MAXSTRLENG (map recv_char (ss @ [s]))) @ [unlock_write pf]"
proof -
  from readTerminal_line [OF r, of pf buf] obtain w1 where
    w1: "readTerminal pf buf w = Some (of_nat (length os), w1)"
    "bytes w1 = store_line buf 0 (map recv_char (ss @ [s])) (bytes w)" "replies w1 = p' # os @ v' # rs"
    unfolding o(2) by metis
  have len: "length os \<le> 128" using o(2) by simp
  then have n: "nat (sint (of_nat (length os) :: u32)) = length os"
    by (simp add: sint_of_nat_small)
  have "transmits pf (term0 pf) buf 0 (length os) w1 = map (\<lambda>c. (DOIO, term0 pf + off_transm_command pf, push_bit 8 (ucast c) OR TRANSMITCHAR, 0))
       (take MAXSTRLENG (map recv_char (ss @ [s])))"
    by (rule transmits_bytes) (use o len in \<open>auto simp: w1(2) store_line_at nth_append\<close>)
  then show thesis
    by (intro that [OF w1(1) writeTerminal_ok [OF w1(3) o(1) n]]) (simp add: vm_simps)
qed

section \<open>The strings SYS4 accepts\<close>

lemma string_range:
  fixes str len :: u32
  shows "\<not> (str < KUSEG \<or> USERSTACKTOP < str + len) \<and> \<not> (sint len < 0 \<or> int MAXSTRLENG < sint len) \<longleftrightarrow>
    2 ^ 31 \<le> unat str \<and> unat len \<le> 128 \<and> (unat str + unat len \<le> 0xC0000000 \<or> 2 ^ 32 \<le> unat str + unat len)"
proof -
  have len: "\<not> (sint len < 0 \<or> int MAXSTRLENG < sint len) \<longleftrightarrow> unat len \<le> 128"
    using signed_range [of 129 len] by auto
  have sum: "unat (str + len) = (unat str + unat len) mod 2 ^ 32" by (simp add: unat_word_ariths)
  have "unat str < 2 ^ 32" using unsigned_less [of str, where ?'a = nat] by simp
  then have "unat len \<le> 128 \<Longrightarrow> unat (str + len) \<le> 0xC0000000 \<longleftrightarrow>
      unat str + unat len \<le> 0xC0000000 \<or> 2 ^ 32 \<le> unat str + unat len"
    unfolding sum by (cases "unat str + unat len < 2 ^ 32") (auto simp: mod_if)
  then show ?thesis unfolding len by (auto simp: word_less_nat_alt not_less)
qed

end
