(* ===== verification/Support_Level.thy ===== *)
theory Support_Level
  imports Terminal Interfaces
begin

text \<open>
  The support level as a whole: the creation of user processes, the services, and the
  transition system they form with the pager. The state of the Swap Pool and of the page
  tables is invariant under all of them.
\<close>

section \<open>User processes\<close>

text \<open>The support structures in use: those whose address space is the one of their place in the pool.\<close>

definition uprocs :: "splatform \<Rightarrow> world \<Rightarrow> u32 set" where
  "uprocs pf w = {a. mutex_index (sup_asid (supports w a)) \<noteq> None \<and> a = support_address pf (sup_asid (supports w a))}"

text \<open>The addresses of the support structures are different.\<close>

definition splatform_ok :: "splatform \<Rightarrow> bool" where
  "splatform_ok pf \<longleftrightarrow> adr_procState pf \<noteq> NULL \<and>
    distinct (map (\<lambda>n. support_address pf (of_nat n + 1)) [0..<UPROCMAX]) \<and>
    (\<forall>n\<in>set [0..<UPROCMAX]. support_address pf (of_nat n + 1) \<noteq> NULL)"

lemma support_address_inject:
  assumes "splatform_ok pf" "mutex_index x = Some m" "mutex_index y = Some n"
  shows "support_address pf x = support_address pf y \<longleftrightarrow> x = y"
proof -
  have "distinct (map (\<lambda>n. support_address pf (of_nat n + 1)) [0..<UPROCMAX])"
    using assms(1) by (simp add: splatform_ok_def)
  then have "inj_on (\<lambda>n. support_address pf (of_nat n + 1)) {0..<UPROCMAX}"
    by (simp only: distinct_map set_upt)
  then show ?thesis
    using assms(2,3) by (auto simp: mutex_index_register dest: inj_onD)
qed

lemma asid_in_range:
  "\<not> (sint asid \<le> 0 \<or> int UPROCMAX < sint asid) \<longleftrightarrow> (\<exists>m. mutex_index asid = Some m)"
proof
  assume a: "\<not> (sint asid \<le> 0 \<or> int UPROCMAX < sint asid)"
  then have "unat asid < 9" "asid \<noteq> 0" using signed_range [of 9 asid] by auto
  then have "unat (asid - 1) < 8" by (simp add: unat_minus_one)
  then show "\<exists>m. mutex_index asid = Some m"
    by (intro exI [of _ "unat (asid - 1)"]) (simp add: mutex_index_register)
next
  assume "\<exists>m. mutex_index asid = Some m"
  then obtain m where "m \<in> set [0..<8]" "asid = of_nat m + 1" by (auto simp: mutex_index_register)
  then show "\<not> (sint asid \<le> 0 \<or> int UPROCMAX < sint asid)" by (auto simp: upt_rec)
qed

text \<open>The support structure that initUProc prepares.\<close>

definition uproc_support :: "splatform \<Rightarrow> u32 \<Rightarrow> u32 \<Rightarrow> support_t \<Rightarrow> support_t" where
  "uproc_support pf asid a spt =
    initPageTable asid (initGeneralExceptionContext pf a (initPageFaultContext pf a (spt\<lparr>sup_asid := asid\<rparr>)))"

lemma set_pgtbl_simps:
  "sup_asid (set_pgtbl i e spt) = sup_asid spt" "sup_exceptState (set_pgtbl i e spt) = sup_exceptState spt"
  "sup_exceptContext (set_pgtbl i e spt) = sup_exceptContext spt"
  by (simp_all add: set_pgtbl_def)

lemma fold_set_pgtbl_frame:
  "sup_asid (fold (\<lambda>i. set_pgtbl i (f i)) is spt) = sup_asid spt"
  "sup_exceptState (fold (\<lambda>i. set_pgtbl i (f i)) is spt) = sup_exceptState spt"
  "sup_exceptContext (fold (\<lambda>i. set_pgtbl i (f i)) is spt) = sup_exceptContext spt"
  by (induction "is" arbitrary: spt) (simp_all add: set_pgtbl_simps)

lemma uproc_support_simps:
  "sup_asid (uproc_support pf asid a spt) = asid"
  "sup_exceptState (uproc_support pf asid a spt) = sup_exceptState spt"
  "sup_exceptContext (uproc_support pf asid a spt) PGFAULTEXCEPT =
     \<lparr>ctx_stackPtr = a + off_stackTLB pf + 4 * 499, ctx_status = SUPPORT_STATUS, ctx_pc = adr_pager pf\<rparr>"
  "sup_exceptContext (uproc_support pf asid a spt) GENERALEXCEPT =
     \<lparr>ctx_stackPtr = a + off_stackGen pf + 4 * 499, ctx_status = SUPPORT_STATUS, ctx_pc = adr_generalExceptionHandler pf\<rparr>"
  by (simp_all add: uproc_support_def initPageTable_def Let_def set_pgtbl_simps fold_set_pgtbl_frame
      initGeneralExceptionContext_def initPageFaultContext_def set_context_def)

text \<open>Entry \<open>k\<close> of a fresh page table maps the page \<open>k\<close> of the process and is not valid.\<close>

lemma uproc_support_pte:
  assumes "k < USERPGTBLSIZE"
  shows "sup_privatePgTbl (uproc_support pf asid a spt) k =
    \<lparr>pte_entryHI = push_bit VPNSHIFT (page_number k) OR push_bit ASIDSHIFT asid, pte_entryLO = DIRTYON\<rparr>"
proof (cases "k = 31")
  case True
  then show ?thesis
    by (simp add: uproc_support_def initPageTable_entry initPageTableEntry_def makePrivateEntryHI_def page_number_def
        flip: or.assoc)
next
  case False
  then have k: "k < 31" using assms by simp
  then have "k \<in> set [0..<31]" by simp
  then have "KUSEG + push_bit VPNSHIFT (of_nat k :: u32) = push_bit VPNSHIFT (page_number k)"
    by (auto simp: upt_rec page_number_def)
  then show ?thesis
    using user_page_address [OF k] k
    by (simp add: uproc_support_def initPageTable_entry initPageTableEntry_def makePrivateEntryHI_def flip: or.assoc)
qed

lemma initUProc_eq:
  assumes "mutex_index asid = Some m" "st \<noteq> NULL" "a \<noteq> NULL"
  shows "initUProc pf asid st a w =
    Some (w\<lparr>states := (states w)(st := initInitialProcessorState pf asid (states w st)),
      supports := (supports w)(a := uproc_support pf asid a (supports w a))\<rparr>)"
  using assms asid_in_range [of asid] by (simp add: initUProc_def Let_def uproc_support_def)

lemma splatform_nonnull:
  "splatform_ok pf \<Longrightarrow> mutex_index asid = Some m \<Longrightarrow> support_address pf asid \<noteq> NULL \<and> adr_procState pf \<noteq> NULL"
  by (auto simp: splatform_ok_def mutex_index_register)

lemma createUProc_eq:
  assumes ok: "splatform_ok pf" and m: "mutex_index asid = Some m" and r: "replies w \<noteq> []"
    and a: "a = support_address pf asid"
  shows "createUProc pf asid w = Some (Some (hd (replies w)),
    asked (CREATEPROCESS, adr_procState pf, PROCESS_PRIO_LOW, a)
      (w\<lparr>states := (states w)(adr_procState pf := initInitialProcessorState pf asid (states w (adr_procState pf))),
         supports := (supports w)(a := uproc_support pf asid a (supports w a))\<rparr>))"
proof -
  have "support_address pf asid \<noteq> NULL" "adr_procState pf \<noteq> NULL"
    using splatform_nonnull [OF ok m] by simp_all
  then show ?thesis
    using asid_in_range [of asid] m r unfolding a
    by (simp add: createUProc_def initUProc_eq [OF m] SYSCALL_answered Let_def)
qed

section \<open>The invariant of the support level\<close>

text \<open>The pages that the entries of the page tables map never change.\<close>

definition page_entryHI :: "nat \<Rightarrow> u32 \<Rightarrow> u32" where
  "page_entryHI k asid = push_bit VPNSHIFT (page_number k) OR push_bit ASIDSHIFT asid"

text \<open>The page number of an entry, and the index the refill handler computes from it.\<close>

lemma page_entryHI_vpn:
  assumes "k < USERPGTBLSIZE" "mutex_index asid = Some m"
  shows "drop_bit VPNSHIFT (page_entryHI k asid) = page_number k"
proof -
  have "k \<in> set [0..<32]" "m \<in> set [0..<8]" "asid = of_nat m + 1" using assms by (auto simp: mutex_index_register)
  then have "drop_bit VPNSHIFT (push_bit VPNSHIFT (page_number k)) = page_number k" "drop_bit VPNSHIFT (push_bit ASIDSHIFT asid) = 0"
    by (auto simp: upt_rec page_number_def)
  then show ?thesis by (simp add: page_entryHI_def)
qed

lemma refill_index:
  assumes "j < USERPGTBLSIZE" "drop_bit VPNSHIFT hi = page_number j"
  shows "unat (drop_bit VPNSHIFT (hi AND GETPAGENO) mod MAXPAGES) = j"
proof -
  have "drop_bit VPNSHIFT (hi AND GETPAGENO) = page_number j AND 0x3FFFF"
    by (simp add: assms(2))
  moreover have "j \<in> set [0..<32]" using assms(1) by simp
  then have "unat ((page_number j AND 0x3FFFF) mod MAXPAGES) = j"
    by (auto simp: upt_rec page_number_def)
  ultimately show ?thesis by simp
qed

definition tables_inv :: "u32 set \<Rightarrow> world \<Rightarrow> bool" where
  "tables_inv A w \<longleftrightarrow>
    (\<forall>a\<in>A. \<forall>k<USERPGTBLSIZE. pte_entryHI (pte_at (a, k) w) = page_entryHI k (sup_asid (supports w a)))"

lemma tables_inv_frame:
  assumes "\<And>q. pte_entryHI (pte_at q w') = pte_entryHI (pte_at q w)" "\<And>a. sup_asid (supports w' a) = sup_asid (supports w a)"
  shows "tables_inv A w' = tables_inv A w"
  by (simp add: tables_inv_def assms)

text \<open>Between two handlers nobody holds the Swap Pool, and the pool and the page tables have their invariants.\<close>

definition support_inv :: "splatform \<Rightarrow> world \<Rightarrow> bool" where
  "support_inv pf w \<longleftrightarrow> pool_inv (uprocs pf w) w \<and> tables_inv (uprocs pf w) w \<and> (\<forall>m. holdingSwapMutex w m = 0)"

lemma uprocs_frame:
  "(\<And>a. sup_asid (supports w' a) = sup_asid (supports w a)) \<Longrightarrow> uprocs pf w' = uprocs pf w"
  by (simp add: uprocs_def)

text \<open>
  What the nucleus, the user processes and the devices may change: everything but the pool,
  the address spaces, the page tables and the record of who holds the pool.
\<close>

definition same_vm :: "world \<Rightarrow> world \<Rightarrow> bool" where
  "same_vm w w' \<longleftrightarrow> swapPool w' = swapPool w \<and> fifoCont w' = fifoCont w \<and>
    holdingSwapMutex w' = holdingSwapMutex w \<and>
    (\<forall>a. sup_asid (supports w' a) = sup_asid (supports w a) \<and>
         sup_privatePgTbl (supports w' a) = sup_privatePgTbl (supports w a))"

lemma same_vmI:
  "\<lbrakk>swapPool w' = swapPool w; fifoCont w' = fifoCont w; holdingSwapMutex w' = holdingSwapMutex w;
    supports w' = supports w\<rbrakk> \<Longrightarrow> same_vm w w'"
  by (simp add: same_vm_def)

lemma same_vm_trans: "same_vm w w' \<Longrightarrow> same_vm w' w'' \<Longrightarrow> same_vm w w''"
  by (simp add: same_vm_def)

lemma same_vm_inv:
  assumes "same_vm w w'"
  shows "support_inv pf w' = support_inv pf w" "uprocs pf w' = uprocs pf w"
proof -
  show u: "uprocs pf w' = uprocs pf w" using assms by (intro uprocs_frame) (simp add: same_vm_def)
  have "pool_inv (uprocs pf w) w' = pool_inv (uprocs pf w) w"
    by (rule pool_inv_frame) (use assms in \<open>simp_all add: same_vm_def pte_at_def\<close>)
  moreover have "tables_inv (uprocs pf w) w' = tables_inv (uprocs pf w) w"
    by (rule tables_inv_frame) (use assms in \<open>simp_all add: same_vm_def pte_at_def\<close>)
  ultimately show "support_inv pf w' = support_inv pf w" using assms u by (simp add: support_inv_def same_vm_def)
qed

lemma same_vm_asked: "same_vm w (asked c w)" and same_vm_requested: "same_vm w (requested cs w)"
  by (simp_all add: same_vm_def vm_simps)

text \<open>The creation of a process.\<close>

lemma uprocs_create:
  assumes ok: "splatform_ok pf" and m: "mutex_index asid = Some m" and a: "a = support_address pf asid"
    and w': "supports w' = (supports w)(a := uproc_support pf asid a (supports w a))"
  shows "uprocs pf w' = insert a (uprocs pf w)"
  using m a by (auto simp: uprocs_def w' uproc_support_simps)

lemma pool_inv_create:
  assumes inv: "pool_inv A w" and m: "mutex_index asid = Some m"
    and old: "a \<in> A \<Longrightarrow> sup_asid (supports w a) = asid"
    and w': "swapPool w' = swapPool w" "fifoCont w' = fifoCont w"
      "supports w' = (supports w)(a := uproc_support pf asid a (supports w a))"
  shows "pool_inv (insert a A) w'"
proof -
  note D = pool_invD [OF inv]
  have "record_ok (insert a A) w' (swapPool w' i)" if "i < POOLSIZE" for i
    using D(3) [OF that] old by (auto simp: record_ok_def w' uproc_support_simps split: option.splits)
  moreover have "\<exists>i<POOLSIZE. sw_pte (swapPool w i) = Some (b, k) \<and> pte_entryLO (pte_at (b, k) w') = resident i"
    if b: "b \<in> insert a A" "k < USERPGTBLSIZE" "valid_pte (pte_at (b, k) w')" for b k
  proof -
    have "b \<noteq> a" using b(2,3) by (auto simp: pte_at_def w' uproc_support_pte valid_pte_def)
    then have "pte_at (b, k) w' = pte_at (b, k) w" by (simp add: pte_at_def w')
    then show ?thesis using b D(4) [of b k] \<open>b \<noteq> a\<close> by auto
  qed
  ultimately show ?thesis
    unfolding pool_inv_def using D m by (auto simp: w' uproc_support_simps)
qed

lemma createUProc_inv:
  assumes ok: "splatform_ok pf" and inv: "support_inv pf w" and m: "mutex_index asid = Some m" and r: "replies w \<noteq> []"
  obtains w' where "createUProc pf asid w = Some (Some (hd (replies w)), w')" "support_inv pf w'"
    "uprocs pf w' = insert (support_address pf asid) (uprocs pf w)" "replies w' = tl (replies w)"
    "\<And>k. k < USERPGTBLSIZE \<Longrightarrow> \<not> valid_pte (pte_at (support_address pf asid, k) w')"
proof -
  let ?a = "support_address pf asid"
  obtain w' where w': "createUProc pf asid w = Some (Some (hd (replies w)), w')" "swapPool w' = swapPool w"
    "fifoCont w' = fifoCont w" "supports w' = (supports w)(?a := uproc_support pf asid ?a (supports w ?a))"
    "holdingSwapMutex w' = holdingSwapMutex w" "replies w' = tl (replies w)"
    using createUProc_eq [OF ok m r refl] by (simp add: vm_simps)
  have u: "uprocs pf w' = insert ?a (uprocs pf w)" by (rule uprocs_create [OF ok m refl w'(4)])
  have "sup_asid (supports w ?a) = asid" if a: "?a \<in> uprocs pf w"
    using a support_address_inject [OF ok m, of "sup_asid (supports w ?a)"] by (auto simp: uprocs_def)
  then have "pool_inv (insert ?a (uprocs pf w)) w'"
    using inv by (intro pool_inv_create [OF _ m _ w'(2-4)]) (auto simp: support_inv_def)
  moreover have "tables_inv (insert ?a (uprocs pf w)) w'"
    using inv by (auto simp: support_inv_def tables_inv_def pte_at_def w'(4) uproc_support_pte uproc_support_simps page_entryHI_def)
  ultimately show thesis
    using inv u w' by (intro that [OF w'(1)])
      (auto simp: support_inv_def pte_at_def uproc_support_pte valid_pte_def)
qed

section \<open>Every handler keeps the invariant\<close>

lemma uprocs_mutex: "a \<in> uprocs pf w \<Longrightarrow> \<exists>m. mutex_index (sup_asid (supports w a)) = Some m"
  by (auto simp: uprocs_def)

lemma freed_uprocs: "freed asid w w' \<Longrightarrow> uprocs pf w' = uprocs pf w"
  by (rule uprocs_frame) (simp add: freed_def)

lemma sys2_inv:
  assumes inv: "support_inv pf w" and a: "a \<in> uprocs pf w" and r: "3 \<le> length (replies w)"
  obtains w' where "sys2 pf a w = Some (S_TERMINATED, w')" "support_inv pf w'" "uprocs pf w' = uprocs pf w"
    "freed (sup_asid (supports w a)) w w'" "calls w' = calls w @ sys2_calls pf (sup_asid (supports w a))"
    "tlb w' = Map.empty"
proof -
  obtain m where m: "mutex_index (sup_asid (supports w a)) = Some m" using uprocs_mutex [OF a] by blast
  have h: "holdingSwapMutex w m = 0" using inv by (simp add: support_inv_def)
  obtain w' where w': "sys2 pf a w = Some (S_TERMINATED, w')" "freed (sup_asid (supports w a)) w w'"
    "tlb w' = Map.empty" "holdingSwapMutex w' = (holdingSwapMutex w)(m := 0)"
    "calls w' = calls w @ sys2_calls pf (sup_asid (supports w a))"
    using sys2_eq [OF m, of pf] r h by auto
  moreover have "support_inv pf w'"
    using inv freed_inv [OF _ w'(2)] freed_uprocs [OF w'(2)] w'(4) tables_inv_frame [OF freed_entryHI [OF w'(2)]] w'(2)
    by (simp add: support_inv_def freed_def)
  ultimately show thesis using that freed_uprocs by blast
qed

text \<open>The frames of an address space hold pages of its process, and all of its valid pages.\<close>

lemma pool_inv_owned:
  assumes "pool_inv A w" "a \<in> A" "k < USERPGTBLSIZE" "valid_pte (pte_at (a, k) w)"
  shows "owned (sup_asid (supports w a)) w (a, k)"
proof -
  obtain i where i: "i < POOLSIZE" "sw_pte (swapPool w i) = Some (a, k)" using pool_invD(4) [OF assms] by blast
  then have "sw_asid (swapPool w i) = sup_asid (supports w a)"
    using pool_invD(3) [OF assms(1) i(1)] by (simp add: record_ok_def)
  then show ?thesis using i unfolding owned_def by blast
qed

lemma owned_uprocs:
  assumes "pool_inv (uprocs pf w) w" "a \<in> uprocs pf w" "owned (sup_asid (supports w a)) w (b, k)"
  shows "b = a"
proof -
  obtain j where j: "j < POOLSIZE" "sw_asid (swapPool w j) = sup_asid (supports w a)" "sw_pte (swapPool w j) = Some (b, k)"
    using assms(3) unfolding owned_def by blast
  then have "b \<in> uprocs pf w" "sup_asid (supports w b) = sup_asid (supports w a)"
    using pool_invD(3) [OF assms(1) j(1)] by (simp_all add: record_ok_def)
  then show ?thesis using assms(2) by (simp add: uprocs_def)
qed

text \<open>The requests that take and give back the Swap Pool.\<close>

definition balanced :: "splatform \<Rightarrow> (u32 \<times> u32 \<times> u32 \<times> u32) list \<Rightarrow> bool" where
  "balanced pf cs \<longleftrightarrow> length (filter (\<lambda>c. c = (PASSEREN, adr_swapSemaphore pf, 0, 0)) cs) =
    length (filter (\<lambda>c. c = (VERHOGEN, adr_swapSemaphore pf, 0, 0)) cs)"

lemma balanced_sys2:
  "adr_swapSemaphore pf \<noteq> adr_masterSemaphore pf \<Longrightarrow> adr_swapSemaphore pf \<noteq> adr_shellSemaphore pf \<Longrightarrow>
    balanced pf (sys2_calls pf asid)"
  by (simp add: balanced_def sys2_calls_def)

lemma balanced_evict: "balanced pf (evict_calls pf i w)"
  by (simp add: balanced_def evict_calls_def split: option.splits)

lemma balanced_append: "balanced pf xs \<Longrightarrow> balanced pf ys \<Longrightarrow> balanced pf (xs @ ys)"
  by (simp add: balanced_def)

lemma balanced_section:
  "balanced pf xs \<Longrightarrow> balanced pf ([(GETSUPPORTPTR, 0, 0, 0), (PASSEREN, adr_swapSemaphore pf, 0, 0)] @ xs @
     [(VERHOGEN, adr_swapSemaphore pf, 0, 0)])"
  by (simp add: balanced_def)

lemma balanced_DOIO: "balanced pf [(DOIO, x, y, z)]"
  and balanced_SUPPORT: "balanced pf [(GETSUPPORTPTR, x, y, z)]" and balanced_Nil: "balanced pf []"
  by (simp_all add: balanced_def)

definition semaphores_ok :: "splatform \<Rightarrow> bool" where
  "semaphores_ok pf \<longleftrightarrow> adr_swapSemaphore pf \<noteq> adr_masterSemaphore pf \<and> adr_swapSemaphore pf \<noteq> adr_shellSemaphore pf"

text \<open>The end of the pager, in each of its cases.\<close>

definition pager_ends :: "splatform \<Rightarrow> nat \<Rightarrow> world \<Rightarrow> bool" where
  "pager_ends pf m w \<longleftrightarrow> (\<exists>x w' cs. pager pf w = Some (x, w') \<and> pool_inv (uprocs pf w) w' \<and>
     holdingSwapMutex w' = (holdingSwapMutex w)(m := 0) \<and>
     (\<forall>b. sup_asid (supports w' b) = sup_asid (supports w b)) \<and>
     (\<forall>a k. pte_entryHI (pte_at (a, k) w') = pte_entryHI (pte_at (a, k) w)) \<and>
     x \<noteq> S_PANIC \<and> calls w' = calls w @ cs \<and> (semaphores_ok pf \<longrightarrow> balanced pf cs))"

lemma pager_endsI:
  assumes "pager pf w = Some (x, w')" "pool_inv (uprocs pf w) w'" "holdingSwapMutex w' = (holdingSwapMutex w)(m := 0)"
    "\<And>b. sup_asid (supports w' b) = sup_asid (supports w b)" "\<And>q. pte_entryHI (pte_at q w') = pte_entryHI (pte_at q w)"
    "x \<noteq> S_PANIC" "calls w' = calls w @ cs" "semaphores_ok pf \<Longrightarrow> balanced pf cs"
  shows "pager_ends pf m w"
  using assms unfolding pager_ends_def by blast

lemma pager_modified_ends:
  assumes P: "pool_inv (uprocs pf w) w" and a: "a \<in> uprocs pf w" and r: "replies w = a # rs" "4 \<le> length rs"
    and c: "cause (sup_exceptState (supports w a) PGFAULTEXCEPT) AND CAUSE_EXCCODE_MASK pf = EXC_MOD pf"
    and m: "mutex_index (sup_asid (supports w a)) = Some m" and h: "holdingSwapMutex w m = 0"
  shows "pager_ends pf m w"
proof -
  from pager_modified [OF P a r c m] obtain w' where w': "pager pf w = Some (S_TERMINATED, w')"
    "pool_inv (uprocs pf w) w'" "\<And>b. sup_asid (supports w' b) = sup_asid (supports w b)"
    "\<And>q. pte_entryHI (pte_at q w') = pte_entryHI (pte_at q w)"
    "holdingSwapMutex w' = (holdingSwapMutex w)(m := 0)"
    "calls w' = calls w @ [(GETSUPPORTPTR, 0, 0, 0)] @ sys2_calls pf (sup_asid (supports w a))"
    using h by auto
  show ?thesis
    by (rule pager_endsI [OF w'(1,2,5,3,4) _ w'(6)])
      (use balanced_append [OF balanced_SUPPORT balanced_sys2] in \<open>auto simp: semaphores_ok_def\<close>)
qed

lemma pager_serves_ends:
  assumes P: "pool_inv (uprocs pf w) w" and a: "a \<in> uprocs pf w" and r: "replies w = a # r # rs"
    and c: "cause (sup_exceptState (supports w a) PGFAULTEXCEPT) AND CAUSE_EXCCODE_MASK pf \<noteq> EXC_MOD pf"
    and p: "missing_page (sup_exceptState (supports w a) PGFAULTEXCEPT) = vpn" "getFlashBlock vpn = of_nat k"
      "k < USERPGTBLSIZE"
    and i: "i = fst (choose_frame w)" and es: "es = evict_calls pf i w"
    and m: "mutex_index (sup_asid (supports w a)) = Some m"
    and io: "length es + 2 \<le> length rs" "rs ! length es = 1"
  shows "pager_ends pf m w"
proof -
  let ?cs = "es @ [(DOIO, flash_command pf (sup_asid (supports w a)), push_bit 8 (of_nat k) OR FLASHREAD, 0)]"
  obtain w' where
    w': "pager pf w = Some (S_LDST (sup_exceptState (supports w a) 0), w')" "pool_inv (uprocs pf w) w'" "i < POOLSIZE"
    "swapPool w' = (swapPool w)(i := \<lparr>sw_asid = sup_asid (supports w a), sw_pageNo = vpn, sw_pte = Some (a, k)\<rparr>)"
    "\<And>q. pte_at q w' = (if q = (a, k) then (pte_at q w)\<lparr>pte_entryLO := resident i\<rparr>
       else if sw_pte (swapPool w i) = Some q then invalidate (pte_at q w) else pte_at q w)"
    "\<And>b. sup_asid (supports w' b) = sup_asid (supports w b)" "holdingSwapMutex w' = (holdingSwapMutex w)(m := 0)"
    "calls w' = calls w @ [(GETSUPPORTPTR, 0, 0, 0), (PASSEREN, adr_swapSemaphore pf, 0, 0)] @ es @
      [(DOIO, flash_command pf (sup_asid (supports w a)), push_bit 8 (of_nat k) OR FLASHREAD, 0),
       (VERHOGEN, adr_swapSemaphore pf, 0, 0)]"
    by (rule pager_serves [OF P a r c p i es m io]; rule that; assumption?)
  from w'(8) have c: "calls w' = calls w @ [(GETSUPPORTPTR, 0, 0, 0), (PASSEREN, adr_swapSemaphore pf, 0, 0)] @ ?cs @
      [(VERHOGEN, adr_swapSemaphore pf, 0, 0)]" by simp
  show ?thesis
    by (rule pager_endsI [OF w'(1,2,7,6) _ _ c balanced_section])
      (auto simp: es w'(5) invalidate_entryHI intro: balanced_append balanced_evict balanced_DOIO)
qed

lemma pager_fails_ends:
  assumes P: "pool_inv (uprocs pf w) w" and a: "a \<in> uprocs pf w"
    and r: "replies w = a # r # rs" "length (evict_calls pf i w) + 5 \<le> length rs"
    and c: "cause (sup_exceptState (supports w a) PGFAULTEXCEPT) AND CAUSE_EXCCODE_MASK pf \<noteq> EXC_MOD pf"
    and p: "missing_page (sup_exceptState (supports w a) PGFAULTEXCEPT) = vpn"
    and i: "i = fst (choose_frame w)" and m: "mutex_index (sup_asid (supports w a)) = Some m"
    and f: "unat (getFlashBlock vpn) < USERPGTBLSIZE \<Longrightarrow> rs ! length (evict_calls pf i w) \<noteq> 1"
  shows "pager_ends pf m w"
proof -
  let ?cs = "evict_calls pf i w @ (if unat (getFlashBlock vpn) < USERPGTBLSIZE
    then [(DOIO, flash_command pf (sup_asid (supports w a)), push_bit 8 (getFlashBlock vpn) OR FLASHREAD, 0)] else [])"
  obtain w3 w' where
    w': "pager pf w = Some (S_TERMINATED, w')" "pool_inv (uprocs pf w) w'" "evicted i (locked pf m w) w3"
    "freed (sup_asid (supports w a)) w3 w'" "holdingSwapMutex w' = (holdingSwapMutex w)(m := 0)"
    "calls w' = calls w @ ([(GETSUPPORTPTR, 0, 0, 0), (PASSEREN, adr_swapSemaphore pf, 0, 0)] @ ?cs @
      [(VERHOGEN, adr_swapSemaphore pf, 0, 0)]) @ sys2_calls pf (sup_asid (supports w a))"
    by (rule pager_fails [OF P a r c p i m], erule f, rule that) simp_all
  have "balanced pf ?cs" by (auto intro: balanced_append balanced_evict balanced_DOIO balanced_Nil)
  moreover have "sup_asid (supports w' b) = sup_asid (supports w b)" for b
    using evictedD(3) [OF w'(3)] w'(4) by (simp add: freed_def vm_simps)
  moreover have "pte_entryHI (pte_at q w') = pte_entryHI (pte_at q w)" for q
    using freed_entryHI [OF w'(4)] evictedD(5) [OF w'(3)] by (simp add: invalidate_entryHI vm_simps)
  moreover have "balanced pf (([(GETSUPPORTPTR, 0, 0, 0), (PASSEREN, adr_swapSemaphore pf, 0, 0)] @ ?cs @
      [(VERHOGEN, adr_swapSemaphore pf, 0, 0)]) @ sys2_calls pf (sup_asid (supports w a)))" if "semaphores_ok pf"
    by (rule balanced_append [OF balanced_section [OF calculation(1)] balanced_sys2])
      (use that in \<open>simp_all add: semaphores_ok_def\<close>)
  ultimately show ?thesis
    by (intro pager_endsI [OF w'(1,2,5) _ _ _ w'(6)]) simp_all
qed

lemma pager_inv:
  assumes inv: "support_inv pf w" and a: "hd (replies w) \<in> uprocs pf w" and r: "8 \<le> length (replies w)"
  shows "\<exists>x w' cs. pager pf w = Some (x, w') \<and> support_inv pf w' \<and> uprocs pf w' = uprocs pf w \<and> x \<noteq> S_PANIC \<and>
    calls w' = calls w @ cs \<and> (semaphores_ok pf \<longrightarrow> balanced pf cs)"
proof -
  obtain a s rs where rs: "replies w = a # s # rs" "6 \<le> length rs"
    using r by (cases "replies w"; cases "tl (replies w)") auto
  have au: "a \<in> uprocs pf w" using a rs by simp
  then obtain m where m: "mutex_index (sup_asid (supports w a)) = Some m" using uprocs_mutex by blast
  have P: "pool_inv (uprocs pf w) w" and h: "\<And>m. holdingSwapMutex w m = 0" using inv by (simp_all add: support_inv_def)
  define i vpn where "i = fst (choose_frame w)" and "vpn = missing_page (sup_exceptState (supports w a) PGFAULTEXCEPT)"
  let ?es = "evict_calls pf i w" and ?c = "cause (sup_exceptState (supports w a) PGFAULTEXCEPT) AND CAUSE_EXCCODE_MASK pf"
  have "length ?es \<le> 1" by (simp add: evict_calls_def split: option.splits)
  then have len: "length ?es + 5 \<le> length rs" using rs(2) by simp
  consider "?c = EXC_MOD pf" | "?c \<noteq> EXC_MOD pf" "unat (getFlashBlock vpn) < USERPGTBLSIZE" "rs ! length ?es = 1"
    | "?c \<noteq> EXC_MOD pf" "unat (getFlashBlock vpn) < USERPGTBLSIZE \<longrightarrow> rs ! length ?es \<noteq> 1"
    by blast
  then have "pager_ends pf m w"
  proof cases
    case 1
    then show ?thesis using pager_modified_ends [OF P au, of "s # rs"] rs m h by simp
  next
    case 2
    then show ?thesis
      using pager_serves_ends [OF P au rs(1) _ vpn_def [symmetric] _ _ i_def refl m, of "unat (getFlashBlock vpn)"] len by simp
  next
    case 3
    then show ?thesis using pager_fails_ends [OF P au rs(1) len _ vpn_def [symmetric] i_def m] by simp
  qed
  then obtain x w' cs where w': "pager pf w = Some (x, w')" "pool_inv (uprocs pf w) w'"
    "holdingSwapMutex w' = (holdingSwapMutex w)(m := 0)" "\<And>b. sup_asid (supports w' b) = sup_asid (supports w b)"
    "\<And>a k. pte_entryHI (pte_at (a, k) w') = pte_entryHI (pte_at (a, k) w)" "x \<noteq> S_PANIC" "calls w' = calls w @ cs"
    "semaphores_ok pf \<longrightarrow> balanced pf cs"
    unfolding pager_ends_def by blast
  have "tables_inv (uprocs pf w) w' = tables_inv (uprocs pf w) w" by (simp add: tables_inv_def w'(4,5))
  then show ?thesis using w' inv h uprocs_frame [OF w'(4), of pf] by (simp add: support_inv_def)
qed

text \<open>
  A read that fails after the eviction of a page of another process leaves the Swap Pool
  entry of the frame as it was: it still names the evicted page, whose entry is not valid.
\<close>

lemma pager_failed_read_stale:
  assumes P: "pool_inv A w" and a: "a \<in> A"
    and r: "replies w = a # r # rs" "length (evict_calls pf i w) + 5 \<le> length rs"
    and c: "cause (sup_exceptState (supports w a) PGFAULTEXCEPT) AND CAUSE_EXCCODE_MASK pf \<noteq> EXC_MOD pf"
    and i: "i = fst (choose_frame w)" and m: "mutex_index (sup_asid (supports w a)) = Some m"
    and f: "rs ! length (evict_calls pf i w) \<noteq> 1"
    and q: "sw_pte (swapPool w i) = Some q" "sw_asid (swapPool w i) \<noteq> sup_asid (supports w a)"
  shows "\<exists>w'. pager pf w = Some (S_TERMINATED, w') \<and> swapPool w' i = swapPool w i \<and> \<not> valid_pte (pte_at q w')"
proof -
  obtain w3 w' where w': "pager pf w = Some (S_TERMINATED, w')" "evicted i (locked pf m w) w3"
    "freed (sup_asid (supports w a)) w3 w'"
    by (rule pager_fails [OF P a r c refl i m f]) blast
  note e = evictedD [OF w'(2), unfolded locked_simps]
  have "swapPool w' i = swapPool w i" using w'(3) q(2) by (simp add: freed_def e(1))
  moreover have "\<not> valid_pte (pte_at q w')"
    using q(1) invalidate_not_valid by (simp add: freed_pte [OF w'(3)] e(5))
  ultimately show ?thesis using w'(1) by blast
qed

text \<open>The terminal services leave the virtual memory alone, whatever the device answers.\<close>

lemma SYSCALL_SomeD: "SYSCALL n x y z w = Some (r, w') \<Longrightarrow> w' = asked (n, x, y, z) w"
  by (auto simp: SYSCALL_def asked_def split: list.splits)

lemma writeTerminal_loop_vm: "writeTerminal_loop pf term str i n w = Some (r, w') \<Longrightarrow> same_vm w w'"
proof (induction n arbitrary: i w)
  case (Suc n)
  then show ?case
    by (auto simp: bind_eq_Some_conv' split: if_splits dest!: SYSCALL_SomeD
        intro: same_vm_asked same_vm_trans [OF same_vm_asked])
qed (simp add: same_vm_def)

lemma readTerminal_loop_vm:
  assumes "readTerminal_loop pf t buf n w = Some x"
  shows "same_vm w (snd x)"
  using _ assms
proof (rule readTerminal_loop.raw_induct [where P = "\<lambda>_ _ _ _ w x. same_vm w (snd x)"])
  fix f pf t buf n w x
  assume IH: "\<And>pf t buf n w x. f pf t buf n w = Some x \<Longrightarrow> same_vm w (snd x)"
    and *: "Option.bind (SYSCALL DOIO (t + off_recv_command pf) RECEIVECHAR 0 w) (\<lambda>r.
      (let status = fst r; w = snd r
       in if status AND 0xFF \<noteq> CHARRECV then Some (- (status AND 0xFF), w)
          else
            (let c = (ucast (drop_bit 8 status AND 0xFF) :: 8 word);
                 store = n < MAXSTRLENG;
                 w = (if store then w\<lparr>bytes := (bytes w)(buf + of_nat n := c)\<rparr> else w);
                 received = (if store then n + 1 else n)
             in if c = 10 then Some (of_nat received, w)
                else f pf t buf received w))) = Some x"
  from * obtain r w1 where w1: "SYSCALL DOIO (t + off_recv_command pf) RECEIVECHAR 0 w = Some (r, w1)"
    by (auto simp: bind_eq_Some_conv')
  have vm: "same_vm w w1" "\<And>b. same_vm w (w1\<lparr>bytes := b\<rparr>)"
    using SYSCALL_SomeD [OF w1] by (simp_all add: same_vm_def vm_simps)
  show "same_vm w (snd x)"
  proof (cases "r AND 0xFF \<noteq> CHARRECV \<or> (ucast (drop_bit 8 r AND 0xFF) :: 8 word) = 10")
    case True
    then show ?thesis using * w1 vm by (auto simp: Let_def split: if_splits)
  next
    case False
    then have "\<exists>b. f pf t buf (if n < MAXSTRLENG then n + 1 else n) (w1\<lparr>bytes := b\<rparr>) = Some x"
      using * w1 by (cases "n < MAXSTRLENG") (auto simp: Let_def intro: exI [of _ "bytes w1"])
    then show ?thesis using IH vm(2) same_vm_trans by blast
  qed
qed

lemma writeTerminal_vm: "writeTerminal pf str len w = Some (r, w') \<Longrightarrow> same_vm w w'"
  by (auto simp: writeTerminal_def Let_def bind_eq_Some_conv' dest!: SYSCALL_SomeD writeTerminal_loop_vm
      intro: same_vm_trans [OF same_vm_asked] same_vm_trans [OF _ same_vm_asked])

lemma readTerminal_vm: "readTerminal pf buf w = Some (r, w') \<Longrightarrow> same_vm w w'"
  by (auto simp: readTerminal_def Let_def bind_eq_Some_conv' dest!: SYSCALL_SomeD readTerminal_loop_vm)
    (simp add: same_vm_def vm_simps)

lemma same_vm_general: "same_vm w (upd_general_state a f w)"
  by (simp add: same_vm_def upd_general_state_def)

text \<open>What a handler keeps: the invariant, and the user processes there are.\<close>

definition keeps :: "splatform \<Rightarrow> world \<Rightarrow> (sexit \<times> world) option \<Rightarrow> bool" where
  "keeps pf w m \<longleftrightarrow> (\<forall>x w'. m = Some (x, w') \<longrightarrow> support_inv pf w' \<and> uprocs pf w \<subseteq> uprocs pf w')"

lemma keeps_same_vm: "same_vm w w' \<Longrightarrow> support_inv pf w \<Longrightarrow> keeps pf w (Some (x, w'))"
  using same_vm_inv [of w w' pf] by (simp add: keeps_def)

lemma keeps_from: "same_vm w w1 \<Longrightarrow> keeps pf w1 m \<Longrightarrow> keeps pf w m"
  using same_vm_inv(2) [of w w1 pf] by (simp add: keeps_def)

lemma keeps_bind:
  "(\<And>r w1. m = Some (r, w1) \<Longrightarrow> keeps pf w (f r w1)) \<Longrightarrow> keeps pf w (Option.bind m (\<lambda>(r, w1). f r w1))"
  by (cases m) (auto simp: keeps_def)

lemma keeps_sys2:
  "\<lbrakk>support_inv pf w; a \<in> uprocs pf w; 3 \<le> length (replies w)\<rbrakk> \<Longrightarrow> keeps pf w (sys2 pf a w)"
  by (rule sys2_inv [of pf w a]) (auto simp: keeps_def)

lemma keeps_sys4:
  assumes "support_inv pf w" "a \<in> uprocs pf w" "3 \<le> length (replies w)"
  shows "keeps pf w (sys4 pf a w)"
proof -
  have *: "keeps pf w (Some (S_LDST (general_state a (upd_general_state a f w1)), upd_general_state a f w1))"
    if "writeTerminal pf str len w = Some (r, w1)" for str len r w1 f
    using keeps_same_vm [OF same_vm_trans [OF writeTerminal_vm [OF that] same_vm_general] assms(1)] .
  show ?thesis
    using keeps_sys2 [OF assms] unfolding sys4_def Let_def by (auto intro!: keeps_bind *)
qed

lemma keeps_sys5:
  assumes "support_inv pf w" "a \<in> uprocs pf w" "3 \<le> length (replies w)"
  shows "keeps pf w (sys5 pf a w)"
proof -
  have *: "keeps pf w (Some (S_LDST (general_state a (upd_general_state a f w1)), upd_general_state a f w1))"
    if "readTerminal pf buf w = Some (r, w1)" for buf r w1 f
    using keeps_same_vm [OF same_vm_trans [OF readTerminal_vm [OF that] same_vm_general] assms(1)] .
  show ?thesis
    using keeps_sys2 [OF assms] unfolding sys5_def Let_def by (auto intro!: keeps_bind *)
qed

lemma keeps_sys6:
  assumes ok: "splatform_ok pf" and inv: "support_inv pf w" and a: "a \<in> uprocs pf w" and r: "4 \<le> length (replies w)"
  shows "keeps pf w (sys6 pf a w)"
proof -
  have s2: "keeps pf w (sys2 pf a w)" by (rule keeps_sys2) (use assms in auto)
  let ?asid = "gpr (general_state a w) (gpr_a1 pf)"
  show ?thesis
  proof (cases "sup_asid (supports w a) \<noteq> SHELL_ASID \<or> sint ?asid \<le> 0 \<or> int UPROCMAX < sint ?asid \<or> ?asid = SHELL_ASID")
    case True
    then show ?thesis using s2 by (auto simp: sys6_def Let_def)
  next
    case False
    then obtain m where m: "mutex_index ?asid = Some m" using asid_in_range by blast
    from createUProc_inv [OF ok inv m] r obtain w1 where w1: "createUProc pf ?asid w = Some (Some (hd (replies w)), w1)"
      "support_inv pf w1" "uprocs pf w1 = insert (support_address pf ?asid) (uprocs pf w)" "replies w1 = tl (replies w)"
      by (metis list.size(3) not_numeral_le_zero)
    have r1: "3 \<le> length (replies w1)" using r w1(4) by simp
    then have r2: "replies w1 \<noteq> []" by auto
    let ?c = "(PASSEREN, adr_shellSemaphore pf, 0, 0)"
    have "keeps pf w1 (sys2 pf a w1)" by (rule keeps_sys2 [OF w1(2) _ r1]) (use a w1(3) in simp)
    moreover have "keeps pf w1 (Some (S_LDST (general_state a (asked ?c w1)), asked ?c w1))"
      by (rule keeps_same_vm [OF same_vm_asked w1(2)])
    moreover have "sys6 pf a w = (if hd (replies w) = NOPROC then sys2 pf a w1
        else Some (S_LDST (general_state a (asked ?c w1)), asked ?c w1))"
      using False w1(1) r2 by (simp add: sys6_def Let_def SYSCALL_answered)
    ultimately show ?thesis using w1(3) by (auto simp: keeps_def)
  qed
qed

lemma generalExceptionHandler_inv:
  assumes ok: "splatform_ok pf" and inv: "support_inv pf w" and a: "hd (replies w) \<in> uprocs pf w"
    and r: "8 \<le> length (replies w)"
  shows "keeps pf w (generalExceptionHandler pf w)"
proof -
  let ?a = "hd (replies w)" and ?w = "asked (GETSUPPORTPTR, 0, 0, 0) w"
  let ?w' = "upd_general_state ?a (\<lambda>st. st\<lparr>pc_epc := pc_epc st + WORDLEN\<rparr>) ?w"
  have vm: "same_vm w ?w" "same_vm ?w ?w'" by (rule same_vm_asked, rule same_vm_general)
  have A: "support_inv pf ?w" "?a \<in> uprocs pf ?w" "4 \<le> length (replies ?w)"
    using same_vm_inv [OF vm(1), of pf] inv a r by (simp_all add: vm_simps)
  have B: "support_inv pf ?w'" "?a \<in> uprocs pf ?w'" "4 \<le> length (replies ?w')"
    using same_vm_inv [OF vm(2), of pf] A by (simp_all add: upd_general_state_def)
  have "keeps pf ?w' (sys2 pf ?a ?w')" "keeps pf ?w' (sys4 pf ?a ?w')" "keeps pf ?w' (sys5 pf ?a ?w')"
    "keeps pf ?w' (sys6 pf ?a ?w')"
    using keeps_sys2 [OF B(1,2)] keeps_sys4 [OF B(1,2)] keeps_sys5 [OF B(1,2)] keeps_sys6 [OF ok B] B(3) by simp_all
  then have "keeps pf ?w (pos_syscallHandler pf ?a ?w)"
    using keeps_from [OF vm(2)] by (simp add: pos_syscallHandler_def Let_def)
  moreover have "keeps pf ?w (programTrapHandler pf ?a ?w)"
    unfolding programTrapHandler_def by (rule keeps_sys2 [OF A(1,2)]) (use A(3) in simp)
  moreover have "replies w \<noteq> []" using r by auto
  ultimately show ?thesis
    using keeps_from [OF vm(1)] by (simp add: generalExceptionHandler_def SYSCALL_answered Let_def)
qed

section \<open>The support level as a transition system\<close>

text \<open>
  A run of the support level starts when initSwapPool has run. The shell is created, page
  faults and services of user processes are handled, and between two handlers everything
  else of the system may change. The handlers are taken as a whole; the nucleus answers
  the first requests of a handler, and GETSUPPORTPTR with the structure of a user process.
\<close>

definition support_init :: "splatform \<Rightarrow> world \<Rightarrow> bool" where
  "support_init pf w \<longleftrightarrow> splatform_ok pf \<and>
    (\<exists>w0. fifoCont w0 = 0 \<and> (\<forall>m. holdingSwapMutex w0 m = 0) \<and> (\<forall>a. sup_asid (supports w0 a) = 0) \<and>
      initSwapPool pf w0 = Some w)"

definition from_user :: "splatform \<Rightarrow> world \<Rightarrow> bool" where
  "from_user pf w \<longleftrightarrow> splatform_ok pf \<and> hd (replies w) \<in> uprocs pf w \<and> 8 \<le> length (replies w)"

inductive sstep :: "splatform \<Rightarrow> world \<Rightarrow> world \<Rightarrow> bool" for pf where
  s_shell: "splatform_ok pf \<Longrightarrow> createUProc pf SHELL_ASID w = Some (x, w') \<Longrightarrow> sstep pf w w'"
| s_fault: "from_user pf w \<Longrightarrow> pager pf w = Some (x, w') \<Longrightarrow> sstep pf w w'"
| s_service: "from_user pf w \<Longrightarrow> generalExceptionHandler pf w = Some (x, w') \<Longrightarrow> sstep pf w w'"
| s_other: "same_vm w w' \<Longrightarrow> sstep pf w w'"

lemma fold_free_frames:
  "swapPool (fold (\<lambda>i. set_pool i (\<lambda>_. free_frame)) [0..<n] w) j = (if j < n then free_frame else swapPool w j)"
  "supports (fold (\<lambda>i. set_pool i (\<lambda>_. free_frame)) [0..<n] w) = supports w"
  "fifoCont (fold (\<lambda>i. set_pool i (\<lambda>_. free_frame)) [0..<n] w) = fifoCont w"
  "holdingSwapMutex (fold (\<lambda>i. set_pool i (\<lambda>_. free_frame)) [0..<n] w) = holdingSwapMutex w"
  "replies (fold (\<lambda>i. set_pool i (\<lambda>_. free_frame)) [0..<n] w) = replies w"
  by (induction n) (simp_all add: vm_simps less_Suc_eq)

lemma support_init_inv:
  assumes "support_init pf w"
  shows "support_inv pf w" "uprocs pf w = {}"
proof -
  obtain w0 where w0: "fifoCont w0 = 0" "\<And>m. holdingSwapMutex w0 m = 0" "\<And>a. sup_asid (supports w0 a) = 0"
    "initSwapPool pf w0 = Some w" using assms by (auto simp: support_init_def)
  then have w: "swapPool w j = (if j < POOLSIZE then free_frame else swapPool w0 j)" "supports w = supports w0"
    "fifoCont w = 0" "holdingSwapMutex w m = 0" for j m
    by (auto simp: initSwapPool_def Let_def bind_eq_Some_conv' fold_free_frames vm_simps simp del: upt.simps upt_rec_numeral dest!: SYSCALL_SomeD)
  show u: "uprocs pf w = {}" by (simp add: uprocs_def w w0(3) mutex_index_def)
  show "support_inv pf w"
    unfolding support_inv_def pool_inv_def tables_inv_def u by (simp add: w record_ok_def free_frame_def)
qed

lemma sstep_inv:
  assumes "support_inv pf w" "sstep pf w w'"
  shows "support_inv pf w'"
  using assms(2)
proof cases
  case (s_shell x)
  have m: "mutex_index SHELL_ASID = Some 0" by (simp add: mutex_index_def)
  from splatform_nonnull [OF s_shell(1) m] have r: "replies w \<noteq> []"
    using s_shell(2)
    by (auto simp: createUProc_def initUProc_def Let_def SYSCALL_def split: if_splits list.splits)
  show ?thesis
    by (rule createUProc_inv [OF s_shell(1) assms(1) m r]) (use s_shell(2) in simp)
next
  case (s_fault x)
  then show ?thesis using pager_inv [OF assms(1)] by (auto simp: from_user_def)
next
  case (s_service x)
  then show ?thesis using generalExceptionHandler_inv [OF _ assms(1)] by (auto simp: from_user_def keeps_def)
next
  case s_other
  then show ?thesis using same_vm_inv(1) assms(1) by blast
qed

interpretation supp: responsive_system "support_init pf" "sstep pf" "support_inv pf" "from_user pf" "pager pf"
  for pf
proof unfold_locales
  fix w w'
  show "support_init pf w \<Longrightarrow> support_inv pf w" by (rule support_init_inv)
  show "support_inv pf w \<Longrightarrow> sstep pf w w' \<Longrightarrow> support_inv pf w'" by (rule sstep_inv)
  assume "support_inv pf w" "from_user pf w"
  then show "\<exists>e w'. pager pf w = Some (e, w') \<and> sstep pf w w'"
    using pager_inv [of pf w] sstep.s_fault [of pf w] by (metis from_user_def)
qed

end
