(* ===== verification/Support_Samples.thy ===== *)
theory Support_Samples
  imports Support_Level Samples
begin

text \<open>
  Concrete states of the support level: the state after initSwapPool, the shell created,
  and a page fault of the shell.
\<close>

definition sample_spf :: splatform where
  "sample_spf = \<lparr>STATE_GPR_LEN = 32, gpr_sp = 1, gpr_a0 = 9, gpr_a1 = 10, gpr_a2 = 11, gpr_a3 = 12,
     CAUSE_IS_INT = (\<lambda>c. c AND 0x80000000 \<noteq> 0), CAUSE_EXCCODE_MASK = 0x7FFFFFFF, ACK = 1,
     DEVPERINT = 8, DEVREGSIZE = 16, PRID = 0, adr_device_semaphores = 0x20005000,
     adr_test = 0x20002000, adr_uTLB_RefillHandler = 0x20002100, adr_exceptionHandler = 0x20002200,
     EXC_MOD = 24, DEV_REG_ADDR = (\<lambda>line dev. 0x10000254 + dev * 0x10),
     off_command = 4, off_data0 = 8, off_recv_command = 4, off_transm_command = 12,
     off_stackTLB = 0x120, off_stackGen = 0x8F0, sizeof_support_t = 0x1200, adr_supportPool = 0x20010000,
     adr_swapSemaphore = 0x20009000, adr_masterSemaphore = 0x20009004, adr_shellSemaphore = 0x20009008,
     adr_termWriteSemaphore = 0x2000900C, adr_termReadSemaphore = 0x20009010,
     adr_pager = 0x20003000, adr_generalExceptionHandler = 0x20004000, adr_procState = 0x20060000,
     TLBP_index = (\<lambda>t hi. if \<exists>i\<in>set [0..<16]. \<exists>lo. t i = Some (hi, lo) then 0 else 0x80000000),
     tlb_slot = unat\<rparr>"

text \<open>The support structure of the shell.\<close>

definition shell_support :: u32 where
  "shell_support = 0x20010000"

definition idle_world :: world where
  "idle_world = kernel.extend (zero_kernel\<lparr>currProc := Some 0, pcbs := (\<lambda>_. zero_pcb\<lparr>p_supportStruct := shell_support\<rparr>)\<rparr>)
     (world.fields (\<lambda>_. free_frame) (\<lambda>_. 0) 0 (\<lambda>_. 0) Map.empty [] [0])"

lemma idle_world_simps:
  "swapPool idle_world = (\<lambda>_. free_frame)" "holdingSwapMutex idle_world = (\<lambda>_. 0)" "fifoCont idle_world = 0"
  "calls idle_world = []" "replies idle_world = [0]" "supports idle_world = (\<lambda>_. zero_support)"
  "bytes idle_world = (\<lambda>_. 0)" "states idle_world = (\<lambda>_. zero_st)" "currProc idle_world = Some 0"
  "pcbs idle_world = (\<lambda>_. zero_pcb\<lparr>p_supportStruct := shell_support\<rparr>)" "tlb_written idle_world = []"
  by (simp_all add: idle_world_def zero_kernel_def kernel.defs world.defs)

lemma sample_spf_ok: "splatform_ok sample_spf" "semaphores_ok sample_spf"
  by (simp_all add: splatform_ok_def semaphores_ok_def support_address_def sample_spf_def upt_rec)

lemma shell_support_address: "support_address sample_spf SHELL_ASID = shell_support"
  by (simp add: support_address_def sample_spf_def shell_support_def)

text \<open>The answers of the nucleus from now on.\<close>

definition answering :: "u32 list \<Rightarrow> world \<Rightarrow> world" where
  "answering rs w = w\<lparr>replies := rs\<rparr>"

lemma answering_simps [vm_simps]:
  "swapPool (answering rs w) = swapPool w" "holdingSwapMutex (answering rs w) = holdingSwapMutex w"
  "fifoCont (answering rs w) = fifoCont w" "calls (answering rs w) = calls w" "replies (answering rs w) = rs"
  "supports (answering rs w) = supports w" "pte_at q (answering rs w) = pte_at q w" "bytes (answering rs w) = bytes w"
  by (simp_all add: answering_def pte_at_def)

lemma same_vm_answering: "same_vm w (answering rs w)"
  by (simp add: same_vm_def vm_simps)

definition pool_world :: world where
  "pool_world = asked (VERHOGEN, adr_swapSemaphore sample_spf, 0, 0) idle_world"

lemma set_pool_free: "swapPool w = (\<lambda>_. free_frame) \<Longrightarrow> set_pool i (\<lambda>_. free_frame) w = w"
  using fun_upd_triv [of "\<lambda>_. free_frame" i] by (cases w) (simp add: set_pool_def)

lemma pool_world_init: "support_init sample_spf pool_world"
proof -
  have "fold (\<lambda>i. set_pool i (\<lambda>_. free_frame)) is idle_world = idle_world" for "is"
    by (induction "is") (simp_all add: set_pool_free idle_world_simps)
  then have "initSwapPool sample_spf idle_world = Some pool_world"
    by (simp add: initSwapPool_def Let_def SYSCALL_answered idle_world_simps pool_world_def del: upt_rec_numeral)
  then show ?thesis
    unfolding support_init_def by (auto simp: sample_spf_ok idle_world_simps zero_support_def intro!: exI [of _ idle_world])
qed

definition shell_world :: world where
  "shell_world = asked (CREATEPROCESS, adr_procState sample_spf, PROCESS_PRIO_LOW, shell_support)
     (let w = answering [2] pool_world in
      w\<lparr>states := (states w)(adr_procState sample_spf := initInitialProcessorState sample_spf SHELL_ASID (states w (adr_procState sample_spf))),
        supports := (supports w)(shell_support := uproc_support sample_spf SHELL_ASID shell_support (supports w shell_support))\<rparr>)"

lemma shell_world_created: "createUProc sample_spf SHELL_ASID (answering [2] pool_world) = Some (Some 2, shell_world)"
  using createUProc_eq [OF sample_spf_ok(1), of SHELL_ASID 0 "answering [2] pool_world" shell_support]
  by (simp add: vm_simps shell_support_address mutex_index_def shell_world_def Let_def)

lemma shell_world_simps:
  "swapPool shell_world = (\<lambda>_. free_frame)" "fifoCont shell_world = 0" "holdingSwapMutex shell_world = (\<lambda>_. 0)"
  "supports shell_world = (\<lambda>_. zero_support)(shell_support := uproc_support sample_spf SHELL_ASID shell_support zero_support)"
  by (simp_all add: shell_world_def pool_world_def vm_simps idle_world_simps Let_def)

lemma shell_world_uprocs: "uprocs sample_spf shell_world = {shell_support}"
  by (auto simp: uprocs_def shell_world_simps uproc_support_simps mutex_index_def shell_support_address
      zero_support_def split: if_splits)

lemma reach_other:
  "reach (support_init pf) (sstep pf) w \<Longrightarrow> same_vm w w' \<Longrightarrow> reach (support_init pf) (sstep pf) w'"
  by (erule reach_step) (rule s_other)

lemma shell_world_reach: "reach (support_init sample_spf) (sstep sample_spf) shell_world"
proof -
  have "reach (support_init sample_spf) (sstep sample_spf) pool_world"
    by (rule reach_init) (rule pool_world_init)
  from reach_other [OF this same_vm_answering] show ?thesis
    by (rule reach_step) (rule s_shell [OF sample_spf_ok(1) shell_world_created])
qed

text \<open>The shell touches its first page; the nucleus and the flash device will answer.\<close>

definition fault_state :: state_t where
  "fault_state = zero_st\<lparr>entry_hi := 0x80000040, cause := 25\<rparr>"

definition fault_world :: world where
  "fault_world = answering [shell_support, 0, 1, 0, 0, 0, 0, 0] (shell_world\<lparr>supports := (supports shell_world)
     (shell_support := (supports shell_world shell_support)\<lparr>sup_exceptState := (\<lambda>_. fault_state)\<rparr>)\<rparr>)"

lemma fault_world_vm: "same_vm shell_world fault_world"
  by (simp add: same_vm_def fault_world_def vm_simps)

lemma fault_world_reach: "reach (support_init sample_spf) (sstep sample_spf) fault_world"
  by (rule reach_other [OF shell_world_reach fault_world_vm])

lemma fault_world_simps:
  "swapPool fault_world = (\<lambda>_. free_frame)" "fifoCont fault_world = 0" "holdingSwapMutex fault_world = (\<lambda>_. 0)"
  "replies fault_world = [shell_support, 0, 1, 0, 0, 0, 0, 0]"
  "sup_asid (supports fault_world shell_support) = 1"
  "sup_exceptState (supports fault_world shell_support) = (\<lambda>_. fault_state)"
  "uprocs sample_spf fault_world = {shell_support}"
  using same_vm_inv(2) [OF fault_world_vm, of sample_spf]
  by (simp_all add: fault_world_def vm_simps shell_world_simps uproc_support_simps shell_world_uprocs)

lemma fault_world_user: "from_user sample_spf fault_world"
  by (simp add: from_user_def sample_spf_ok fault_world_simps)

lemma fault_world_page:
  "missing_page fault_state = page_number 0" "cause fault_state AND CAUSE_EXCCODE_MASK sample_spf \<noteq> EXC_MOD sample_spf"
  "fst (choose_frame fault_world) = 0" "evict_calls sample_spf 0 fault_world = []"
  by (simp_all add: missing_page_def page_number_def fault_state_def sample_spf_def choose_frame_def fault_world_simps
      free_frame_def evict_calls_def upt_rec)

text \<open>The page fault is served.\<close>

definition served_world :: world where
  "served_world = snd (the (pager sample_spf fault_world))"

lemma fault_world_inv: "pool_inv (uprocs sample_spf fault_world) fault_world"
  using supp.reach_inv [OF fault_world_reach] by (simp add: support_inv_def)

lemma served_world_eq:
  "pager sample_spf fault_world = Some (S_LDST fault_state, served_world)"
  "pte_entryLO (pte_at (shell_support, 0) served_world) = resident 0"
  "\<And>a. sup_asid (supports served_world a) = sup_asid (supports fault_world a)"
proof -
  have c: "cause (sup_exceptState (supports fault_world shell_support) PGFAULTEXCEPT) AND CAUSE_EXCCODE_MASK sample_spf \<noteq> EXC_MOD sample_spf"
    and p: "missing_page (sup_exceptState (supports fault_world shell_support) PGFAULTEXCEPT) = page_number 0"
    using fault_world_page by (simp_all add: fault_world_simps)
  have m: "mutex_index (sup_asid (supports fault_world shell_support)) = Some 0"
    by (simp add: fault_world_simps mutex_index_def)
  obtain w' where w': "pager sample_spf fault_world = Some (S_LDST fault_state, w')"
    "pte_at (shell_support, 0) w' = (pte_at (shell_support, 0) fault_world)\<lparr>pte_entryLO := resident 0\<rparr>"
    "\<And>a. sup_asid (supports w' a) = sup_asid (supports fault_world a)"
    by (rule pager_serves [OF fault_world_inv _ fault_world_simps(4) c p _ _ fault_world_page(3) [symmetric]
          fault_world_page(4) [symmetric] m, of 0])
      (simp_all add: fault_world_simps getFlashBlock_page_number [of 0, simplified])
  moreover have "served_world = w'" using w'(1) by (simp add: served_world_def)
  ultimately show "pager sample_spf fault_world = Some (S_LDST fault_state, served_world)"
    "pte_entryLO (pte_at (shell_support, 0) served_world) = resident 0"
    "\<And>a. sup_asid (supports served_world a) = sup_asid (supports fault_world a)" by simp_all
qed

lemma served_world_reach: "reach (support_init sample_spf) (sstep sample_spf) served_world"
  by (rule reach_step [OF fault_world_reach]) (rule s_fault [OF fault_world_user served_world_eq(1)])

lemma served_world_uprocs: "uprocs sample_spf served_world = {shell_support}"
  using uprocs_frame [OF served_world_eq(3), of sample_spf] by (simp add: fault_world_simps)

lemma served_world_valid: "valid_pte (pte_at (shell_support, 0) served_world)"
  using resident_valid [of 0] by (simp add: valid_pte_def served_world_eq(2))

text \<open>The state in which the refill handler runs for the shell.\<close>

definition miss_world :: world where
  "miss_world = fault_world\<lparr>states := (\<lambda>_. fault_state)\<rparr>"

lemma miss_world_simps:
  "currProc miss_world = Some 0" "p_supportStruct (pcbs miss_world 0) = shell_support" "tlb_written miss_world = []"
  "states miss_world = (\<lambda>_. fault_state)"
  by (simp_all add: miss_world_def fault_world_def shell_world_def pool_world_def answering_def asked_def Let_def
      idle_world_simps)

lemma miss_world_vm: "same_vm fault_world miss_world"
  by (simp add: miss_world_def same_vm_def)

lemma miss_world_reach: "reach (support_init sample_spf) (sstep sample_spf) miss_world"
  by (rule reach_other [OF fault_world_reach miss_world_vm])

lemma miss_world_uprocs: "uprocs sample_spf miss_world = {shell_support}"
  using same_vm_inv(2) [OF miss_world_vm, of sample_spf] by (simp add: fault_world_simps)

end
