(* ===== verification/Klog.thy ===== *)
theory Klog
  imports Prelude
begin

text \<open>
  The kernel log of klog.c: a circular buffer of 64 lines of 42 characters. A write outside
  the buffer is undefined (\<open>None\<close>).
\<close>

section \<open>The model\<close>

abbreviation (input) KLOG_LINES :: u32 where
  "KLOG_LINES \<equiv> 64"

abbreviation (input) KLOG_LINE_SIZE :: u32 where
  "KLOG_LINE_SIZE \<equiv> 42"

record klog =
  klog_line_index :: u32
  klog_char_index :: u32
  klog_buffer :: "nat \<Rightarrow> nat \<Rightarrow> char"

text \<open>The assignment to the current cell of the buffer.\<close>

definition put :: "char \<Rightarrow> klog \<Rightarrow> klog option" where
  "put c k =
    (if klog_line_index k < KLOG_LINES \<and> klog_char_index k < KLOG_LINE_SIZE
     then Some (k\<lparr>klog_buffer := (klog_buffer k)(unat (klog_line_index k) :=
       (klog_buffer k (unat (klog_line_index k)))(unat (klog_char_index k) := c))\<rparr>)
     else None)"

text \<open>The line index after the remainder is in range, so that the loop that clears the line is.\<close>

definition next_line :: "klog \<Rightarrow> klog" where
  "next_line k =
    (let k = k\<lparr>klog_line_index := (klog_line_index k + 1) mod KLOG_LINES\<rparr>;
         k = k\<lparr>klog_char_index := 0\<rparr>;
         l = unat (klog_line_index k)
     in k\<lparr>klog_buffer := (klog_buffer k)(l :=
          fold (\<lambda>i line. line(i := CHR '' '')) [0..<unat KLOG_LINE_SIZE] (klog_buffer k l))\<rparr>)"

definition next_char :: "klog \<Rightarrow> klog" where
  "next_char k =
    (let k = k\<lparr>klog_char_index := klog_char_index k + 1\<rparr>
     in if KLOG_LINE_SIZE \<le> klog_char_index k then next_line (k\<lparr>klog_char_index := 0\<rparr>) else k)"

text \<open>A string is the list of its characters before the terminator.\<close>

primrec klog_print :: "string \<Rightarrow> klog \<Rightarrow> klog option" where
  "klog_print [] k = Some k"
| "klog_print (c # str) k =
    (if c = CHR 0x0A then klog_print str (next_line k)
     else do { k \<leftarrow> put c k; klog_print str (next_char k) })"

definition dec_digit :: "u32 \<Rightarrow> char" where
  "dec_digit d = ''0123456789'' ! unat d"

definition hex_digit :: "u32 \<Rightarrow> char" where
  "hex_digit d = ''0123456789ABCDEF'' ! unat d"

lemma word_div_less:
  assumes "1 < unat b" "0 < n div (b :: u32)"
  shows "unat (n div b) < unat n"
proof (cases "n = 0")
  case False
  then have "0 < unat n" by (simp add: unat_gt_0)
  then show ?thesis using assms(1) by (simp add: unat_div)
qed (use assms in simp)

function klog_dec_loop :: "u32 \<Rightarrow> klog \<Rightarrow> klog option" where
  "klog_dec_loop num k = do {
     k \<leftarrow> put (dec_digit (num mod 10)) k;
     let num = num div 10;
     let k = next_char k;
     if 0 < num then klog_dec_loop num k else Some k
   }"
  by auto
termination
  by (relation "measure (unat \<circ> fst)") (use word_div_less [of 10] in auto)

definition klog_print_dec :: "u32 \<Rightarrow> klog \<Rightarrow> klog option" where
  "klog_print_dec num k =
    (if 10 \<le> num then klog_dec_loop num k
     else do {
       let buff = num mod 10;
       let num = num div 10;
       k \<leftarrow> put (dec_digit (num mod 10)) k;
       let k = next_char k;
       k \<leftarrow> put (dec_digit buff) k;
       Some (next_char k)
     })"

function klog_print_hex :: "u32 \<Rightarrow> klog \<Rightarrow> klog option" where
  "klog_print_hex num k = do {
     k \<leftarrow> put (hex_digit (num mod 16)) k;
     let num = num div 16;
     let k = next_char k;
     if 0 < num then klog_print_hex num k else Some k
   }"
  by auto
termination
  by (relation "measure (unat \<circ> fst)") (use word_div_less [of 16] in auto)

declare klog_dec_loop.simps [simp del] klog_print_hex.simps [simp del]

section \<open>The indices stay in range\<close>

definition klog_ok :: "klog \<Rightarrow> bool" where
  "klog_ok k \<longleftrightarrow> klog_line_index k < KLOG_LINES \<and> klog_char_index k < KLOG_LINE_SIZE"

text \<open>The place of the next character in the buffer read line by line.\<close>

definition position :: "klog \<Rightarrow> nat" where
  "position k = unat (klog_line_index k) * 42 + unat (klog_char_index k)"

lemma put_ok:
  assumes "klog_ok k"
  obtains k' where "put c k = Some k'" "klog_ok k'" "position k' = position k"
    "klog_line_index k' = klog_line_index k" "klog_char_index k' = klog_char_index k"
    "klog_buffer k' (unat (klog_line_index k)) (unat (klog_char_index k)) = c"
    "\<And>l i. (l, i) \<noteq> (unat (klog_line_index k), unat (klog_char_index k)) \<Longrightarrow> klog_buffer k' l i = klog_buffer k l i"
  using assms by (auto simp: put_def klog_ok_def position_def)

lemma fold_blank: "fold (\<lambda>i line. line(i := c)) [0..<n] line = (\<lambda>i. if i < n then c else line i)"
  by (induction n) (auto simp: fun_eq_iff less_Suc_eq)

lemma next_line_simps:
  "klog_line_index (next_line k) = (klog_line_index k + 1) mod 64" "klog_char_index (next_line k) = 0"
  "klog_ok (next_line k)"
  by (simp_all add: next_line_def Let_def klog_ok_def word_mod_less_divisor)

text \<open>The new line is blank and the others are untouched.\<close>

lemma next_line_buffer:
  "klog_buffer (next_line k) l i =
    (if l = unat (klog_line_index (next_line k)) \<and> i < 42 then CHR '' '' else klog_buffer k l i)"
  by (simp add: next_line_def Let_def fold_blank)

lemma unat_mod_64: "unat ((x + 1 :: u32) mod 64) = (unat x + 1) mod 64" if "x < 64"
proof -
  have "unat x + 1 < 2 ^ 32" using that by (simp add: word_less_nat_alt)
  then show ?thesis by (simp add: unat_mod unat_word_ariths)
qed

lemma next_char_inside:
  assumes "klog_char_index k < 41"
  shows "next_char k = k\<lparr>klog_char_index := klog_char_index k + 1\<rparr>" "unat (klog_char_index k + 1) = unat (klog_char_index k) + 1"
proof -
  show *: "unat (klog_char_index k + 1) = unat (klog_char_index k) + 1"
    using assms by (simp add: word_less_nat_alt unat_word_ariths)
  then show "next_char k = k\<lparr>klog_char_index := klog_char_index k + 1\<rparr>"
    using assms by (simp add: next_char_def Let_def word_le_nat_alt word_less_nat_alt)
qed

lemma next_char_end:
  "klog_char_index k = 41 \<Longrightarrow> next_char k = next_line (k\<lparr>klog_char_index := 0\<rparr>)"
  by (simp add: next_char_def)

lemma next_char_ok:
  assumes "klog_ok k"
  shows "klog_ok (next_char k) \<and> position (next_char k) = (position k + 1) mod (64 * 42)"
proof (cases "klog_char_index k < 41")
  case True
  have "unat (klog_line_index k) < 64" "unat (klog_char_index k) < 41"
    using assms True by (simp_all add: klog_ok_def word_less_nat_alt)
  then show ?thesis
    using assms next_char_inside [OF True] by (simp add: klog_ok_def position_def word_less_nat_alt)
next
  case False
  then have "unat (klog_char_index k) = 41" using assms by (simp add: klog_ok_def word_less_nat_alt)
  then have c: "klog_char_index k = 41" by (simp add: word_unat_eq_iff)
  have "(unat (klog_line_index k) + 1) mod 64 * 42 = (42 + unat (klog_line_index k) * 42) mod (64 * 42)"
    using mod_mult_mult2 [of "unat (klog_line_index k) + 1" 42 64] by simp
  then have "position (next_char k) = (position k + 1) mod (64 * 42)"
    using assms c next_char_end [OF c] unat_mod_64 [of "klog_line_index k"]
    by (simp add: klog_ok_def position_def next_line_simps)
  then show ?thesis by (simp add: next_char_end [OF c] next_line_simps)
qed

section \<open>What is printed\<close>

lemma klog_print_append: "klog_print (xs @ ys) k = Option.bind (klog_print xs k) (klog_print ys)"
  by (induction xs arbitrary: k) auto

text \<open>A string with no newline takes as many cells as it has characters.\<close>

lemma klog_print_advance:
  assumes "klog_ok k" "CHR 0x0A \<notin> set s"
  shows "\<exists>k'. klog_print s k = Some k' \<and> klog_ok k' \<and> position k' = (position k + length s) mod (64 * 42)"
  using assms
proof (induction s arbitrary: k)
  case Nil
  have "position k < 64 * 42" using Nil(1) by (simp add: klog_ok_def position_def word_less_nat_alt)
  then show ?case using Nil by simp
next
  case (Cons c s)
  obtain k1 where k1: "put c k = Some k1" "klog_ok k1" "position k1 = position k"
    using put_ok [OF Cons.prems(1)] by blast
  from Cons.IH [of "next_char k1"] next_char_ok [OF k1(2)] Cons.prems(2) obtain k' where
    "klog_print s (next_char k1) = Some k'" "klog_ok k'" "position k' = ((position k + 1) mod (64 * 42) + length s) mod (64 * 42)"
    using k1(3) by auto
  then show ?case using k1(1) Cons.prems(2) by (auto simp: mod_add_left_eq)
qed

text \<open>A string that fits in the rest of the line is stored there, and nothing else changes.\<close>

lemma klog_print_inline:
  assumes "klog_ok k" "CHR 0x0A \<notin> set s" "unat (klog_char_index k) + length s < 42"
  shows "\<exists>k'. klog_print s k = Some k' \<and> klog_line_index k' = klog_line_index k \<and>
    unat (klog_char_index k') = unat (klog_char_index k) + length s \<and>
    (\<forall>l i. klog_buffer k' l i =
      (if l = unat (klog_line_index k) \<and> unat (klog_char_index k) \<le> i \<and> i < unat (klog_char_index k) + length s
       then s ! (i - unat (klog_char_index k)) else klog_buffer k l i))"
  using assms
proof (induction s arbitrary: k)
  case Nil
  then show ?case by auto
next
  case (Cons c s)
  obtain k1 where k1: "put c k = Some k1" "klog_ok k1" "klog_line_index k1 = klog_line_index k"
    "klog_char_index k1 = klog_char_index k"
    "klog_buffer k1 (unat (klog_line_index k)) (unat (klog_char_index k)) = c"
    "\<And>l i. (l, i) \<noteq> (unat (klog_line_index k), unat (klog_char_index k)) \<Longrightarrow> klog_buffer k1 l i = klog_buffer k l i"
    using put_ok [OF Cons.prems(1)] by metis
  have "klog_char_index k1 < 41" using Cons.prems(3) k1(4) by (simp add: word_less_nat_alt)
  note n = next_char_inside [OF this]
  from Cons.IH [of "next_char k1"] next_char_ok [OF k1(2)] Cons.prems(2,3) obtain k' where
    "klog_print s (next_char k1) = Some k'" "klog_line_index k' = klog_line_index k"
    "unat (klog_char_index k') = unat (klog_char_index k) + Suc (length s)"
    "\<And>l i. klog_buffer k' l i =
      (if l = unat (klog_line_index k) \<and> Suc (unat (klog_char_index k)) \<le> i \<and> i < unat (klog_char_index k) + Suc (length s)
       then s ! (i - Suc (unat (klog_char_index k))) else klog_buffer k1 l i)"
    using k1(3,4) n by auto
  then show ?case
    using k1(1,5,6) Cons.prems(2) by (intro exI [of _ k']) (auto simp: nth_Cons')
qed

lemma klog_print_total: "klog_ok k \<Longrightarrow> \<exists>k'. klog_print s k = Some k' \<and> klog_ok k'"
proof (induction s arbitrary: k)
  case (Cons c s)
  obtain k1 where "put c k = Some k1" "klog_ok k1" using put_ok [OF Cons.prems] by blast
  then show ?case
    using Cons.IH [of "next_char k1"] Cons.IH [of "next_line k"] next_char_ok next_line_simps(3) by auto
qed simp

section \<open>Numbers\<close>

text \<open>The numeral of a number in base \<open>b\<close>, most significant digit first.\<close>

function show_base :: "nat \<Rightarrow> nat \<Rightarrow> string" where
  "show_base b n = (if b \<le> 1 \<or> n < b then [''0123456789ABCDEF'' ! n]
    else show_base b (n div b) @ [''0123456789ABCDEF'' ! (n mod b)])"
  by auto
termination
  by (relation "measure snd") auto

declare show_base.simps [simp del]

lemma digit_not_newline: "d < 16 \<Longrightarrow> ''0123456789ABCDEF'' ! d \<noteq> CHR 0x0A"
proof -
  assume "d < 16"
  then have "d \<in> set [0..<16]" by simp
  then show ?thesis by (auto simp: upt_rec)
qed

lemma klog_print_digit:
  "d < 16 \<Longrightarrow> klog_print (''0123456789ABCDEF'' ! d # s) k =
    Option.bind (put (''0123456789ABCDEF'' ! d) k) (\<lambda>k. klog_print s (next_char k))"
  using digit_not_newline by simp

lemma dec_digit_nth: "d < 10 \<Longrightarrow> dec_digit d = ''0123456789ABCDEF'' ! unat d"
proof -
  assume "d < 10"
  then have "unat d \<in> set [0..<10]" by (simp add: word_less_nat_alt)
  then show ?thesis by (auto simp: upt_rec dec_digit_def)
qed

lemma div_positive: "0 < unat b \<Longrightarrow> 0 < n div b \<longleftrightarrow> unat b \<le> unat n" for n b :: u32
  by (simp add: word_less_nat_alt unat_div div_greater_zero_iff)

lemma show_base_step: "1 < b \<Longrightarrow> rev (show_base b n) =
    ''0123456789ABCDEF'' ! (n mod b) # (if b \<le> n then rev (show_base b (n div b)) else [])"
  by (subst show_base.simps) simp

text \<open>Both loops print the digits of the number in the reverse order.\<close>

lemma klog_print_hex_rev: "klog_print_hex num k = klog_print (rev (show_base 16 (unat num))) k"
proof (induction num k rule: klog_print_hex.induct)
  case (1 num k)
  have d: "hex_digit (num mod 16) = ''0123456789ABCDEF'' ! (unat num mod 16)" by (simp add: hex_digit_def unat_mod)
  have "klog_print (rev (show_base 16 (unat num))) k =
      Option.bind (put (''0123456789ABCDEF'' ! (unat num mod 16)) k)
        (\<lambda>k. klog_print (if 16 \<le> unat num then rev (show_base 16 (unat num div 16)) else []) (next_char k))"
    by (subst show_base_step, simp, rule klog_print_digit, simp)
  then show ?case
    using 1 div_positive [of 16 num]
    by (subst klog_print_hex.simps, cases "put (''0123456789ABCDEF'' ! (unat num mod 16)) k") (auto simp: d unat_div Let_def)
qed

lemma klog_dec_loop_rev: "klog_dec_loop num k = klog_print (rev (show_base 10 (unat num))) k"
proof (induction num k rule: klog_dec_loop.induct)
  case (1 num k)
  have d: "dec_digit (num mod 10) = ''0123456789ABCDEF'' ! (unat num mod 10)"
    by (subst dec_digit_nth) (simp_all add: unat_mod word_mod_less_divisor)
  have "klog_print (rev (show_base 10 (unat num))) k =
      Option.bind (put (''0123456789ABCDEF'' ! (unat num mod 10)) k)
        (\<lambda>k. klog_print (if 10 \<le> unat num then rev (show_base 10 (unat num div 10)) else []) (next_char k))"
    by (subst show_base_step, simp, rule klog_print_digit, simp add: less_trans [OF mod_less_divisor])
  then show ?case
    using 1 div_positive [of 10 num]
    by (subst klog_dec_loop.simps, cases "put (''0123456789ABCDEF'' ! (unat num mod 10)) k") (auto simp: d unat_div Let_def)
qed

lemma klog_print_dec_eq:
  "klog_print_dec num k =
    klog_print (if num < 10 then ''0'' @ show_base 10 (unat num) else rev (show_base 10 (unat num))) k"
proof (cases "num < 10")
  case True
  then have n: "unat num < 10" "\<not> 10 \<le> num" by (simp_all add: word_less_nat_alt word_le_nat_alt)
  then have "num mod 10 = num" "num div 10 = 0" by (simp_all add: word_arith_nat_mod word_arith_nat_div)
  then show ?thesis
    using True n dec_digit_nth [OF True] digit_not_newline [of "unat num"]
    by (simp add: klog_print_dec_def show_base.simps dec_digit_def [of 0])
next
  case False
  then show ?thesis unfolding klog_print_dec_def klog_dec_loop_rev by (auto simp: not_less not_le)
qed

end
