(* ===== verification/Props_Support.thy ===== *)
theory Props_Support
  imports Support_Samples Klog
begin

text \<open>
  The properties of the support level and of the kernel log, each with an instance on a
  concrete state.
\<close>

section \<open>Virtual memory\<close>

text \<open>
  C30: User processes are isolated. In every state of the support level that is reachable
  from the initialisation of the Swap Pool, after any sequence of page faults (served or
  failed), services and process creations, two different valid pages, of the same or of
  different user processes, never lie in the same frame, and each lies in one of the 16
  frames of the pool.
\<close>

theorem frames_isolated:
  assumes "reach (support_init pf) (sstep pf) w"
  shows "inj_on (\<lambda>(a, k). frame_of (pte_at (a, k) w))
      {(a, k). a \<in> uprocs pf w \<and> k < USERPGTBLSIZE \<and> valid_pte (pte_at (a, k) w)} \<and>
    (\<forall>a\<in>uprocs pf w. \<forall>k<USERPGTBLSIZE. valid_pte (pte_at (a, k) w) \<longrightarrow>
      (\<exists>i<POOLSIZE. frame_of (pte_at (a, k) w) = frame_address i))"
proof -
  have inv: "pool_inv (uprocs pf w) w" using supp.reach_inv [OF assms] by (simp add: support_inv_def)
  have "\<exists>i<POOLSIZE. frame_of (pte_at (a, k) w) = frame_address i"
    if "a \<in> uprocs pf w" "k < USERPGTBLSIZE" "valid_pte (pte_at (a, k) w)" for a k
    using pool_invD(4) [OF inv that] resident_frame by (metis frame_of_def)
  moreover have "inj_on (\<lambda>(a, k). frame_of (pte_at (a, k) w))
      {(a, k). a \<in> uprocs pf w \<and> k < USERPGTBLSIZE \<and> valid_pte (pte_at (a, k) w)}"
    using pool_inv_isolated [OF inv] by (auto intro!: inj_onI)
  ultimately show ?thesis by blast
qed

theorem frames_isolated_witness:
  "inj_on (\<lambda>(a, k). frame_of (pte_at (a, k) served_world))
      {(a, k). a \<in> uprocs sample_spf served_world \<and> k < USERPGTBLSIZE \<and> valid_pte (pte_at (a, k) served_world)} \<and>
    shell_support \<in> uprocs sample_spf served_world \<and> valid_pte (pte_at (shell_support, 0) served_world) \<and>
    (\<exists>i<POOLSIZE. frame_of (pte_at (shell_support, 0) served_world) = frame_address i)"
  using frames_isolated [OF served_world_reach] served_world_valid by (simp add: served_world_uprocs)

text \<open>
  C31: A page fault is served. When the process with support structure a faults on its page
  k, and the flash device answers the read with READY, the pager resumes the process with
  the page in frame i: the first free frame, or the next one in turn when none is free. The
  Swap Pool records the page, its entry of the page table becomes valid and names the frame,
  the page that was in the frame (if any) is no longer valid, and no other entry of any page
  table changes. The requests to the nucleus are, in this order: P on the pool, the write of
  the old page to the device of its owner (if there was one), the read of block k, V.
\<close>

theorem page_fault_served:
  assumes "reach (support_init pf) (sstep pf) w" "a \<in> uprocs pf w" "replies w = a # r # rs"
    and "cause (sup_exceptState (supports w a) PGFAULTEXCEPT) AND CAUSE_EXCCODE_MASK pf \<noteq> EXC_MOD pf"
    and "missing_page (sup_exceptState (supports w a) PGFAULTEXCEPT) = page_number k" "k < USERPGTBLSIZE"
    and "i = fst (choose_frame w)" "es = evict_calls pf i w" "length es + 2 \<le> length rs" "rs ! length es = 1"
  shows "\<exists>w'. pager pf w = Some (S_LDST (sup_exceptState (supports w a) PGFAULTEXCEPT), w') \<and>
    (if \<exists>j<POOLSIZE. sw_asid (swapPool w j) = - 1 then sw_asid (swapPool w i) = - 1 \<and> i < POOLSIZE else i = fifoCont w) \<and>
    swapPool w' = (swapPool w)(i := \<lparr>sw_asid = sup_asid (supports w a), sw_pageNo = page_number k, sw_pte = Some (a, k)\<rparr>) \<and>
    (\<forall>b l. pte_at (b, l) w' = (if (b, l) = (a, k) then (pte_at (b, l) w)\<lparr>pte_entryLO := frame_address i OR DIRTYON OR VALIDON\<rparr>
       else if sw_pte (swapPool w i) = Some (b, l) then (pte_at (b, l) w)\<lparr>pte_entryLO := pte_entryLO (pte_at (b, l) w) AND NOT VALIDON\<rparr>
       else pte_at (b, l) w)) \<and>
    calls w' = calls w @ [(GETSUPPORTPTR, 0, 0, 0), (PASSEREN, adr_swapSemaphore pf, 0, 0)] @ es @
       [(DOIO, flash_command pf (sup_asid (supports w a)), push_bit 8 (of_nat k) OR FLASHREAD, 0),
        (VERHOGEN, adr_swapSemaphore pf, 0, 0)]"
proof -
  have inv: "pool_inv (uprocs pf w) w" using supp.reach_inv [OF assms(1)] by (simp add: support_inv_def)
  obtain m where m: "mutex_index (sup_asid (supports w a)) = Some m" using uprocs_mutex [OF assms(2)] by blast
  have c: "if \<exists>j<POOLSIZE. sw_asid (swapPool w j) = - 1 then sw_asid (swapPool w i) = - 1 \<and> i < POOLSIZE else i = fifoCont w"
    unfolding assms(7) by (rule choose_frame_chosen)
  obtain w' where w': "pager pf w = Some (S_LDST (sup_exceptState (supports w a) 0), w')"
    "swapPool w' = (swapPool w)(i := \<lparr>sw_asid = sup_asid (supports w a), sw_pageNo = page_number k, sw_pte = Some (a, k)\<rparr>)"
    "\<And>q. pte_at q w' = (if q = (a, k) then (pte_at q w)\<lparr>pte_entryLO := resident i\<rparr>
       else if sw_pte (swapPool w i) = Some q then invalidate (pte_at q w) else pte_at q w)"
    "calls w' = calls w @ [(GETSUPPORTPTR, 0, 0, 0), (PASSEREN, adr_swapSemaphore pf, 0, 0)] @ es @
       [(DOIO, flash_command pf (sup_asid (supports w a)), push_bit 8 (of_nat k) OR FLASHREAD, 0),
        (VERHOGEN, adr_swapSemaphore pf, 0, 0)]"
    by (rule pager_serves [OF inv assms(2-5) getFlashBlock_page_number [OF assms(6)] assms(6-8) m assms(9,10)];
        rule that; assumption?)
  show ?thesis
    by (intro exI [of _ w'] conjI allI w'(1,2,4) c) (simp only: w'(3) resident_def invalidate_def)
qed

theorem page_fault_served_witness:
  "\<exists>w'. pager sample_spf fault_world = Some (S_LDST fault_state, w') \<and>
    pte_entryLO (pte_at (shell_support, 0) w') = 0x20020600 \<and> sw_pte (swapPool w' 0) = Some (shell_support, 0) \<and>
    calls w' = calls fault_world @ [(GETSUPPORTPTR, 0, 0, 0), (PASSEREN, 0x20009000, 0, 0),
      (DOIO, 0x100000D8, 2, 0), (VERHOGEN, 0x20009000, 0, 0)]"
proof -
  have "\<exists>w'. pager sample_spf fault_world = Some (S_LDST (sup_exceptState (supports fault_world shell_support) PGFAULTEXCEPT), w') \<and>
    (if \<exists>j<POOLSIZE. sw_asid (swapPool fault_world j) = - 1 then sw_asid (swapPool fault_world 0) = - 1 \<and> 0 < POOLSIZE else 0 = fifoCont fault_world) \<and>
    swapPool w' = (swapPool fault_world)(0 := \<lparr>sw_asid = sup_asid (supports fault_world shell_support), sw_pageNo = page_number 0, sw_pte = Some (shell_support, 0)\<rparr>) \<and>
    (\<forall>b l. pte_at (b, l) w' = (if (b, l) = (shell_support, 0) then (pte_at (b, l) fault_world)\<lparr>pte_entryLO := frame_address 0 OR DIRTYON OR VALIDON\<rparr>
       else if sw_pte (swapPool fault_world 0) = Some (b, l) then (pte_at (b, l) fault_world)\<lparr>pte_entryLO := pte_entryLO (pte_at (b, l) fault_world) AND NOT VALIDON\<rparr>
       else pte_at (b, l) fault_world)) \<and>
    calls w' = calls fault_world @ [(GETSUPPORTPTR, 0, 0, 0), (PASSEREN, adr_swapSemaphore sample_spf, 0, 0)] @ [] @
       [(DOIO, flash_command sample_spf (sup_asid (supports fault_world shell_support)), push_bit 8 (of_nat 0) OR FLASHREAD, 0),
        (VERHOGEN, adr_swapSemaphore sample_spf, 0, 0)]"
    by (rule page_fault_served [OF fault_world_reach _ fault_world_simps(4)])
      (use fault_world_page in \<open>simp_all add: fault_world_simps\<close>)
  then show ?thesis
    by (auto simp: fault_world_simps frame_address_def flash_command_def sample_spf_def)
qed

text \<open>
  C32: The TLB refill handler and the page tables agree exactly on the pages of the process.
  In every reachable state, when the current process has the support structure a and misses
  on the page vpn, the handler loads the entry vpn mod 32 of its page table and retries; the
  entry is for the page that was missed if and only if vpn is one of the 32 pages of the
  process. For any other page (an address outside text, data and stack) the entry loaded is
  for a different page, so that the retry misses again and the pager is never asked.
\<close>

theorem refill_hits_own_pages:
  assumes "reach (support_init pf) (sstep pf) w" "a \<in> uprocs pf w" "a \<noteq> NULL"
    and "currProc w = Some p" "p_supportStruct (pcbs w p) = a"
    and "drop_bit VPNSHIFT (entry_hi (states w BIOSDATAPAGE)) = vpn"
  shows "\<exists>s' k. uTLB_RefillHandler (kernel.truncate w) = Some (LDST (states w BIOSDATAPAGE), s') \<and> k < USERPGTBLSIZE \<and>
    tlb_written s' = tlb_written w @ [(pte_entryHI (pte_at (a, k) w), pte_entryLO (pte_at (a, k) w))] \<and>
    drop_bit VPNSHIFT (pte_entryHI (pte_at (a, k) w)) = page_number k \<and>
    (page_number k = vpn \<longleftrightarrow> (\<exists>j<USERPGTBLSIZE. vpn = page_number j))"
proof -
  have inv: "tables_inv (uprocs pf w) w" using supp.reach_inv [OF assms(1)] by (simp add: support_inv_def)
  let ?k = "unat (drop_bit VPNSHIFT (entry_hi (states w BIOSDATAPAGE) AND GETPAGENO) mod MAXPAGES)"
  have k: "?k < USERPGTBLSIZE" by (simp add: unat_mod)
  have hi: "drop_bit VPNSHIFT (pte_entryHI (pte_at (a, ?k) w)) = page_number ?k"
    using inv assms(2) k page_entryHI_vpn uprocs_mutex [OF assms(2)] by (auto simp: tables_inv_def)
  have "page_number ?k = vpn" if "vpn = page_number j" "j < USERPGTBLSIZE" for j
    using refill_index [OF that(2)] that(1) assms(6) by simp
  then have "page_number ?k = vpn \<longleftrightarrow> (\<exists>j<USERPGTBLSIZE. vpn = page_number j)" using k by blast
  moreover have "\<exists>s'. uTLB_RefillHandler (kernel.truncate w) = Some (LDST (states w BIOSDATAPAGE), s') \<and>
      tlb_written s' = tlb_written w @ [(pte_entryHI (pte_at (a, ?k) w), pte_entryLO (pte_at (a, ?k) w))]"
    using assms(3-5) by (simp add: uTLB_RefillHandler_def kernel.defs pte_at_def Let_def)
  ultimately show ?thesis using k hi by blast
qed

theorem refill_hits_own_pages_witness:
  "\<exists>s' k. uTLB_RefillHandler (kernel.truncate miss_world) = Some (LDST fault_state, s') \<and> page_number k = 0x80000 \<and>
    tlb_written s' = [(pte_entryHI (pte_at (shell_support, k) miss_world), pte_entryLO (pte_at (shell_support, k) miss_world))]"
proof -
  have "drop_bit VPNSHIFT (entry_hi (states miss_world BIOSDATAPAGE)) = page_number 0" "shell_support \<noteq> NULL"
    by (simp_all add: miss_world_simps fault_state_def page_number_def shell_support_def)
  moreover have "page_number 0 = 0x80000" by (simp add: page_number_def)
  ultimately show ?thesis
    using refill_hits_own_pages [OF miss_world_reach, of shell_support 0 "page_number 0"]
    by (fastforce simp: miss_world_simps miss_world_uprocs)
qed

text \<open>
  C33: The pager always ends and always gives the Swap Pool back. In every reachable state,
  for a page fault of a user process, whatever the cause, the page and the answers of the
  flash devices (with 8 answers available, one for each request the pager can make), the
  pager either resumes or terminates the process, without a NULL dereference and without
  panicking; the resulting state is reachable; and it performs V on the semaphore of the
  pool exactly as often as P.
\<close>

theorem pager_always_ends:
  assumes "reach (support_init pf) (sstep pf) w" "splatform_ok pf" "semaphores_ok pf"
    and "hd (replies w) \<in> uprocs pf w" "8 \<le> length (replies w)"
  shows "\<exists>x w' cs. pager pf w = Some (x, w') \<and> x \<noteq> S_PANIC \<and> reach (support_init pf) (sstep pf) w' \<and>
    calls w' = calls w @ cs \<and>
    length (filter (\<lambda>c. c = (PASSEREN, adr_swapSemaphore pf, 0, 0)) cs) =
    length (filter (\<lambda>c. c = (VERHOGEN, adr_swapSemaphore pf, 0, 0)) cs)"
proof -
  obtain x w' cs where w': "pager pf w = Some (x, w')" "x \<noteq> S_PANIC" "calls w' = calls w @ cs" "balanced pf cs"
    using pager_inv [OF supp.reach_inv [OF assms(1)] assms(4,5)] assms(3) by blast
  have "sstep pf w w'"
    by (rule s_fault [OF _ w'(1)]) (use assms in \<open>simp add: from_user_def\<close>)
  then have "reach (support_init pf) (sstep pf) w'" by (rule reach_step [OF assms(1)])
  then show ?thesis using w' by (auto simp: balanced_def)
qed

theorem pager_always_ends_witness:
  "\<exists>x w' cs. pager sample_spf fault_world = Some (x, w') \<and> x \<noteq> S_PANIC \<and> calls w' = calls fault_world @ cs \<and>
    length (filter (\<lambda>c. c = (PASSEREN, adr_swapSemaphore sample_spf, 0, 0)) cs) =
    length (filter (\<lambda>c. c = (VERHOGEN, adr_swapSemaphore sample_spf, 0, 0)) cs)"
  using pager_always_ends [OF fault_world_reach sample_spf_ok] by (simp add: fault_world_simps) blast

text \<open>
  C34: SYS2 ends a user process and releases all it holds. In every reachable state the frames
  of its address space become free and those of the others stay as they are; none of its
  pages stays valid, and no page of another process is touched; the TLB is emptied; the
  instantiator is woken if the process is the shell and the shell otherwise, and then, with
  the Swap Pool taken and given back in between, the nucleus is asked to terminate it.
\<close>

theorem sys2_releases:
  assumes "reach (support_init pf) (sstep pf) w" "a \<in> uprocs pf w" "3 \<le> length (replies w)"
  shows "\<exists>w'. sys2 pf a w = Some (S_TERMINATED, w') \<and>
    (\<forall>j<POOLSIZE. swapPool w' j = (if sw_asid (swapPool w j) = sup_asid (supports w a)
       then \<lparr>sw_asid = - 1, sw_pageNo = - 1, sw_pte = None\<rparr> else swapPool w j)) \<and>
    (\<forall>k<USERPGTBLSIZE. \<not> valid_pte (pte_at (a, k) w')) \<and>
    (\<forall>b k. b \<noteq> a \<longrightarrow> pte_at (b, k) w' = pte_at (b, k) w) \<and> tlb w' = Map.empty \<and>
    calls w' = calls w @
      [(VERHOGEN, if sup_asid (supports w a) = SHELL_ASID then adr_masterSemaphore pf else adr_shellSemaphore pf, 0, 0),
       (PASSEREN, adr_swapSemaphore pf, 0, 0), (VERHOGEN, adr_swapSemaphore pf, 0, 0), (TERMPROCESS, 0, 0, 0)]"
proof -
  have inv: "support_inv pf w" "pool_inv (uprocs pf w) w"
    using supp.reach_inv [OF assms(1)] by (simp_all add: support_inv_def)
  obtain w' where w': "sys2 pf a w = Some (S_TERMINATED, w')" "freed (sup_asid (supports w a)) w w'"
    "calls w' = calls w @ sys2_calls pf (sup_asid (supports w a))" "tlb w' = Map.empty"
    by (rule sys2_inv [OF inv(1) assms(2,3)])
  have "\<not> valid_pte (pte_at (a, k) w')" if "k < USERPGTBLSIZE" for k
    using pool_inv_owned [OF inv(2) assms(2) that] invalidate_not_valid by (auto simp: freed_pte [OF w'(2)])
  moreover have "pte_at (b, k) w' = pte_at (b, k) w" if "b \<noteq> a" for b k
    using owned_uprocs [OF inv(2) assms(2)] that by (auto simp: freed_pte [OF w'(2)])
  ultimately show ?thesis
    using w' by (intro exI [of _ w']) (simp add: freed_def sys2_calls_def free_frame_def)
qed

theorem sys2_releases_witness:
  "valid_pte (pte_at (shell_support, 0) (answering [0, 0, 0] served_world)) \<and>
   (\<exists>w'. sys2 sample_spf shell_support (answering [0, 0, 0] served_world) = Some (S_TERMINATED, w') \<and>
      \<not> valid_pte (pte_at (shell_support, 0) w'))"
proof -
  have r: "reach (support_init sample_spf) (sstep sample_spf) (answering [0, 0, 0] served_world)"
    by (rule reach_other [OF served_world_reach same_vm_answering])
  have "shell_support \<in> uprocs sample_spf (answering [0, 0, 0] served_world)"
    using same_vm_inv(2) [OF same_vm_answering, of sample_spf] by (simp add: served_world_uprocs)
  from sys2_releases [OF r this] show ?thesis using served_world_valid by (force simp: vm_simps)
qed

section \<open>User processes\<close>

text \<open>
  C35: The page table that initUProc builds page by page with initPageTable (helpers.c) is
  the one that initPagetable (vmSupport.c) builds by shifting page numbers, for every
  address space and whatever the table held.
\<close>

theorem page_tables_equal:
  "sup_privatePgTbl (initPageTable asid spt) = initPagetable (sup_privatePgTbl spt) asid"
  by (rule initPageTable_initPagetable)

text \<open>
  C36: SYS6 of the shell starts a program. For an address space from 2 to 8 and when the
  nucleus has a process to give, the nucleus is asked to create the process with the state
  and the support structure that were prepared, and the shell is blocked until the program
  ends; then the shell goes on. The state starts the program in user mode at its first
  instruction with an empty stack and its address space; page faults go to the pager and the
  other exceptions to the general handler; its 32 pages are mapped and none is present; the
  Swap Pool and the page tables of the other processes do not change.
\<close>

theorem sys6_executes:
  assumes "reach (support_init pf) (sstep pf) w" "splatform_ok pf" "a \<in> uprocs pf w"
    and "sup_asid (supports w a) = SHELL_ASID" "gpr (general_state a w) (gpr_a1 pf) = asid"
    and "mutex_index asid = Some m" "asid \<noteq> SHELL_ASID"
    and "replies w = pid # r # rs" "pid \<noteq> NOPROC" "b = support_address pf asid"
  shows "\<exists>w'. sys6 pf a w = Some (S_LDST (general_state a w), w') \<and>
    calls w' = calls w @ [(CREATEPROCESS, adr_procState pf, PROCESS_PRIO_LOW, b), (PASSEREN, adr_shellSemaphore pf, 0, 0)] \<and>
    (let st = states w' (adr_procState pf) in pc_epc st = UPROCSTARTADDR \<and> gpr st (gpr_sp pf) = USERSTACKTOP \<and>
       status st = MSTATUS_MPP_U OR MSTATUS_MIE_MASK \<and> mie st = MIE_ALL \<and> entry_hi st = push_bit ASIDSHIFT asid) \<and>
    (let spt = supports w' b in sup_asid spt = asid \<and> ctx_pc (sup_exceptContext spt PGFAULTEXCEPT) = adr_pager pf \<and>
       ctx_pc (sup_exceptContext spt GENERALEXCEPT) = adr_generalExceptionHandler pf \<and>
       (\<forall>k<USERPGTBLSIZE. sup_privatePgTbl spt k =
          \<lparr>pte_entryHI = push_bit VPNSHIFT (page_number k) OR push_bit ASIDSHIFT asid, pte_entryLO = DIRTYON\<rparr>)) \<and>
    swapPool w' = swapPool w \<and> (\<forall>c. c \<noteq> b \<longrightarrow> supports w' c = supports w c)"
proof -
  let ?w1 = "asked (CREATEPROCESS, adr_procState pf, PROCESS_PRIO_LOW, b)
      (w\<lparr>states := (states w)(adr_procState pf := initInitialProcessorState pf asid (states w (adr_procState pf))),
         supports := (supports w)(b := uproc_support pf asid b (supports w b))\<rparr>)"
  let ?w2 = "asked (PASSEREN, adr_shellSemaphore pf, 0, 0) ?w1"
  have c: "createUProc pf asid w = Some (Some pid, ?w1)"
    using createUProc_eq [OF assms(2,6) _ assms(10)] assms(8) by simp
  have "a = support_address pf SHELL_ASID" using assms(3,4) by (simp add: uprocs_def)
  moreover have "mutex_index SHELL_ASID = Some 0" by (simp add: mutex_index_def)
  ultimately have ab: "a \<noteq> b" using support_address_inject [OF assms(2) _ assms(6)] assms(7,10) by blast
  have range: "\<not> (sint asid \<le> 0 \<or> int UPROCMAX < sint asid)" using assms(6) asid_in_range by blast
  have "SYSCALL PASSEREN (adr_shellSemaphore pf) 0 0 ?w1 = Some (r, ?w2)"
    using assms(8) by (simp add: SYSCALL_answered vm_simps)
  then have "sys6 pf a w = Some (S_LDST (general_state a ?w2), ?w2)"
    using assms(4,7,9) range c by (simp add: sys6_def assms(5))
  moreover have "general_state a ?w2 = general_state a w" using ab by (simp add: general_state_def vm_simps)
  ultimately show ?thesis
    by (intro exI [of _ ?w2])
      (simp add: vm_simps initInitialProcessorState_def Let_def uproc_support_simps uproc_support_simps(4) [simplified]
        uproc_support_pte, simp add: asked_def)
qed

text \<open>The shell asks for the program of address space 2.\<close>

theorem sys6_executes_witness:
  "\<exists>w'. sys6 sample_spf shell_support (answering [3, 0] (shell_world\<lparr>supports := (supports shell_world)(shell_support :=
      (supports shell_world shell_support)\<lparr>sup_exceptState := (\<lambda>_. zero_st\<lparr>gpr := (\<lambda>_. 2)\<rparr>)\<rparr>)\<rparr>)) =
    Some (S_LDST (zero_st\<lparr>gpr := (\<lambda>_. 2)\<rparr>), w') \<and> sup_asid (supports w' 0x20011200) = 2"
proof -
  let ?w = "answering [3, 0] (shell_world\<lparr>supports := (supports shell_world)(shell_support :=
      (supports shell_world shell_support)\<lparr>sup_exceptState := (\<lambda>_. zero_st\<lparr>gpr := (\<lambda>_. 2)\<rparr>)\<rparr>)\<rparr>)"
  have vm: "same_vm shell_world ?w" by (simp add: same_vm_def vm_simps)
  have r: "reach (support_init sample_spf) (sstep sample_spf) ?w"
    by (rule reach_other [OF shell_world_reach vm])
  have u: "shell_support \<in> uprocs sample_spf ?w" using same_vm_inv(2) [OF vm] by (simp add: shell_world_uprocs)
  have g: "general_state shell_support ?w = zero_st\<lparr>gpr := (\<lambda>_. 2)\<rparr>" "sup_asid (supports ?w shell_support) = SHELL_ASID"
    by (simp_all add: general_state_def vm_simps shell_world_simps uproc_support_simps)
  have "support_address sample_spf 2 = 0x20011200" "mutex_index 2 = Some 1"
    by (simp_all add: support_address_def sample_spf_def mutex_index_def)
  then show ?thesis
    using sys6_executes [OF r sample_spf_ok(1) u g(2) refl, of 1 3 0 "[]" "0x20011200"]
    by (auto simp: g(1) vm_simps Let_def)
qed

section \<open>Terminal services\<close>

text \<open>
  C37: What SYS5 reads, SYS4 writes back. When the receiver delivers the characters of a line
  up to its newline and the transmitter accepts all characters, readTerminal stores the line
  in the buffer (at most its first 128 characters) and returns the number of characters
  stored, and writeTerminal of that many characters from the buffer transmits exactly these
  characters, in order, within one P and V on the terminal.
\<close>

theorem terminal_echo:
  assumes "replies w = p # ss @ s # v # p' # os @ v' # rs"
    and "\<forall>s\<in>set ss. s AND 0xFF = CHARRECV \<and> recv_char s \<noteq> 10" "s AND 0xFF = CHARRECV" "recv_char s = 10"
    and "\<forall>t\<in>set os. t AND 0xFF = OKCHARTRANS" "length os = min 128 (Suc (length ss))"
  shows "\<exists>w1 w2. readTerminal pf buf w = Some (of_nat (length os), w1) \<and>
    writeTerminal pf buf (of_nat (length os)) w1 = Some (of_nat (length os), w2) \<and>
    calls w2 = calls w1 @ (PASSEREN, adr_termWriteSemaphore pf, 0, 0) #
      map (\<lambda>c. (DOIO, DEV_REG_ADDR pf IL_TERMINAL 0 + off_transm_command pf, push_bit 8 (ucast c) OR TRANSMITCHAR, 0))
        (take 128 (map recv_char (ss @ [s]))) @ [(VERHOGEN, adr_termWriteSemaphore pf, 0, 0)]"
  by (rule echo_line [of w p ss s v p' os v' rs pf buf])
    (use assms in \<open>auto simp: received_ok_def transmitted_ok_def term0_def\<close>)

theorem terminal_echo_witness:
  "\<exists>w1 w2. readTerminal sample_spf 0x80001000 (answering [0, 0x4105, 0x0A05, 0, 0, 5, 5, 0] shell_world) = Some (2, w1) \<and>
    writeTerminal sample_spf 0x80001000 2 w1 = Some (2, w2) \<and>
    calls w2 = calls w1 @ [(PASSEREN, 0x2000900C, 0, 0), (DOIO, 0x10000260, 0x4102, 0), (DOIO, 0x10000260, 0x0A02, 0),
      (VERHOGEN, 0x2000900C, 0, 0)]"
  using terminal_echo [of "answering [0, 0x4105, 0x0A05, 0, 0, 5, 5, 0] shell_world" 0 "[0x4105]" "0x0A05" 0 0 "[5, 5]" 0 "[]"
      sample_spf "0x80001000"]
  by (simp add: vm_simps recv_char_def sample_spf_def)

text \<open>
  C38: The requests that SYS4 accepts. SYS4 writes the string if and only if it starts at or
  above the user segment, has at most 128 characters, and either ends at or below the top of
  the user stack or runs past the end of the address space (the sum of address and length
  wraps around and passes the comparison); in all other cases the process is terminated.
\<close>

theorem sys4_accepts:
  "sys4 pf a w =
    (let str = gpr (general_state a w) (gpr_a1 pf); len = gpr (general_state a w) (gpr_a2 pf) in
     if 2 ^ 31 \<le> unat str \<and> unat len \<le> 128 \<and>
        (unat str + unat len \<le> 0xC0000000 \<or> 2 ^ 32 \<le> unat str + unat len)
     then Option.bind (writeTerminal pf str len w) (\<lambda>(r, w).
       (let w = upd_general_state a (\<lambda>st. st\<lparr>gpr := (gpr st)(gpr_a0 pf := r)\<rparr>) w
        in Some (S_LDST (general_state a w), w)))
     else sys2 pf a w)"
proof -
  let ?str = "gpr (general_state a w) (gpr_a1 pf)" and ?len = "gpr (general_state a w) (gpr_a2 pf)"
  have "\<not> (?str < KUSEG \<or> USERSTACKTOP < ?str + ?len) \<and> \<not> (sint ?len < 0 \<or> int MAXSTRLENG < sint ?len) \<longleftrightarrow>
    2 ^ 31 \<le> unat ?str \<and> unat ?len \<le> 128 \<and> (unat ?str + unat ?len \<le> 0xC0000000 \<or> 2 ^ 32 \<le> unat ?str + unat ?len)"
    by (rule string_range)
  then show ?thesis unfolding sys4_def Let_def by (auto split: prod.splits)
qed

section \<open>From the support level to the nucleus\<close>

text \<open>
  C39: The operations of the pager reach the right device of the nucleus. For a page k of the
  address space asid, readWriteFlashdrive stores the address of the frame in the DATA0 field
  of flash device asid - 1 and asks for one DoIO, with block k and the operation in the
  command; and the nucleus serves such a DoIO by writing the command to the device and
  blocking the caller on the semaphore of that device, number 8 + (asid - 1), which is the
  one its interrupt handler signals.
\<close>

theorem flash_request_served:
  assumes "platform_ok (platform.truncate pf)" "off_command pf = 4" "mutex_index asid = Some m" "k < USERPGTBLSIZE"
    and "replies w = r # rs" "nucleus_inv s a" "currProc s = Some p"
  shows "\<exists>w' command v. readWriteFlashdrive pf asid (page_number k) frame op w = Some (r, w') \<and>
    calls w' = calls w @ [(DOIO, command, v, 0)] \<and> v = push_bit 8 (of_nat k) OR op \<and>
    command = device_address 4 (asid - 1) + 4 \<and>
    ram w' = (ram w)(device_address 4 (asid - 1) + off_data0 pf := frame) \<and>
    (\<exists>e s' a'. nsys5 (platform.truncate pf) command v excState s = Some (e, s') \<and> nucleus_inv s' a' \<and>
      waiting s' a' = (waiting s a)(device_semaphore (platform.truncate pf) (8 + of_nat m) :=
        waiting s a (device_semaphore (platform.truncate pf) (8 + of_nat m)) @ [p]) \<and>
      ram s' = (ram s)(command := v))"
proof -
  let ?pf = "platform.truncate pf"
  have m: "m < 8" "asid - 1 = of_nat m" using assms(3) by (simp_all add: mutex_index_register)
  then have N: "(of_nat m :: u32) \<in> {0, 1, 2, 3, 4, 5, 6, 7}" by (auto simp: less_Suc_eq numeral_nat)
  have d: "DEVPERINT ?pf = 8" using assms(1) by (simp add: platform_ok_def)
  have "nsys5_index ?pf (device_address 4 (of_nat m) + 4) = uint (8 + of_nat m :: u32)"
    using nsys5_index_command [OF assms(1) _ N, of 4] by (simp add: d)
  moreover have "8 + of_nat m < (of_nat NSUPPSEM :: u32)" using N by auto
  ultimately have sem: "device_sem_at ?pf (nsys5_index ?pf (device_address 4 (of_nat m) + 4)) =
      Some (device_semaphore ?pf (8 + of_nat m))" by (rule device_sem_at_index)
  obtain w' where w': "readWriteFlashdrive pf asid (page_number k) frame op w = Some (r, w')"
    "calls w' = calls w @ [(DOIO, device_address 4 (asid - 1) + 4, push_bit 8 (of_nat k) OR op, 0)]"
    "ram w' = (ram w)(device_address 4 (asid - 1) + off_data0 pf := frame)"
    by (rule readWriteFlashdrive_request [OF assms(3) getFlashBlock_page_number [OF assms(4)] assms(4), of w pf frame op])
      (use assms(2,5) in \<open>auto simp: flash_command_def device_address_def\<close>)
  show ?thesis
    using w' nsys5_blocks [OF assms(6,7) sem, of "push_bit 8 (of_nat k) OR op" excState]
    by (auto simp: m(2) blocked_on_def)
qed

theorem flash_request_served_witness:
  "\<exists>w' e s' a'. readWriteFlashdrive sample_spf 1 0x80000 0x20020000 FLASHREAD fault_world = Some (shell_support, w') \<and>
    calls w' = calls fault_world @ [(DOIO, 0x100000D8, 2, 0)] \<and>
    nsys5 sample_platform 0x100000D8 2 0 forked = Some (e, s') \<and>
    waiting s' a' (device_semaphore sample_platform 8) = [19]"
proof -
  have t: "platform.truncate sample_spf = sample_platform"
    by (simp add: sample_spf_def sample_platform_def platform.defs)
  have "platform_ok (platform.truncate sample_spf)" using sample_platform_ok by (simp add: t)
  moreover have "off_command sample_spf = 4" "mutex_index 1 = Some 0" "0 < USERPGTBLSIZE" "page_number 0 = 0x80000"
    by (simp_all add: sample_spf_def mutex_index_def page_number_def)
  ultimately obtain w' e s' a' where
    "readWriteFlashdrive sample_spf 1 (page_number 0) 0x20020000 FLASHREAD fault_world = Some (shell_support, w')"
    "calls w' = calls fault_world @ [(DOIO, device_address 4 (1 - 1) + 4, push_bit 8 (of_nat 0) OR FLASHREAD, 0)]"
    "nsys5 (platform.truncate sample_spf) (device_address 4 (1 - 1) + 4) (push_bit 8 (of_nat 0) OR FLASHREAD) 0 forked = Some (e, s')"
    "waiting s' a' = (waiting forked forked_phase1)(device_semaphore (platform.truncate sample_spf) (8 + of_nat 0) :=
      waiting forked forked_phase1 (device_semaphore (platform.truncate sample_spf) (8 + of_nat 0)) @ [19])"
    using flash_request_served [of sample_spf 1 0 0 fault_world shell_support _ forked forked_phase1 19 "0x20020000" FLASHREAD 0,
        OF _ _ _ _ fault_world_simps(4) forked_inv(2,3)] by blast
  then show ?thesis
    by (intro exI [of _ w'] exI [of _ e] exI [of _ s'] exI [of _ a']) (simp add: t device_address_def page_number_def)
qed

section \<open>The kernel log\<close>

text \<open>
  C40: The kernel log is written in range, and numbers are printed backwards. From a state
  whose indices are in range, every print ends with indices in range and without a write
  outside the buffer. klog_print_hex prints the hexadecimal numeral of its argument with
  the digits reversed; klog_print_dec prints the decimal numeral of an argument of at least
  10 with the digits reversed, and a smaller one correctly, with a leading 0. What is printed
  within a line is found in the cells of that line, and nothing else of the buffer changes.
\<close>

theorem klog_numbers_reversed:
  assumes "klog_ok k"
  shows "(\<exists>k'. klog_print s k = Some k' \<and> klog_ok k') \<and>
    klog_print_hex n k = klog_print (rev (show_base 16 (unat n))) k \<and>
    klog_print_dec n k = klog_print (if n < 10 then ''0'' @ show_base 10 (unat n) else rev (show_base 10 (unat n))) k \<and>
    (CHR 0x0A \<notin> set s \<and> unat (klog_char_index k) + length s < 42 \<longrightarrow>
      (\<exists>k'. klog_print s k = Some k' \<and>
        (\<forall>l i. klog_buffer k' l i =
          (if l = unat (klog_line_index k) \<and> unat (klog_char_index k) \<le> i \<and> i < unat (klog_char_index k) + length s
           then s ! (i - unat (klog_char_index k)) else klog_buffer k l i))))"
  using klog_print_total [OF assms] klog_print_hex_rev klog_print_dec_eq klog_print_inline [OF assms, of s] by blast

theorem klog_numbers_reversed_witness:
  "\<exists>k'. klog_print_dec 12 \<lparr>klog_line_index = 0, klog_char_index = 0, klog_buffer = (\<lambda>_ _. CHR 0x00)\<rparr> = Some k' \<and>
    klog_buffer k' 0 0 = CHR ''2'' \<and> klog_buffer k' 0 1 = CHR ''1''"
proof -
  let ?k = "\<lparr>klog_line_index = 0, klog_char_index = 0, klog_buffer = (\<lambda>_ _. CHR 0x00)\<rparr>"
  have "klog_ok ?k" by (simp add: klog_ok_def)
  moreover have "rev (show_base 10 12) = ''21''" by (simp add: show_base.simps)
  ultimately show ?thesis
    using klog_numbers_reversed [of ?k "''21''" 12] by fastforce
qed

end
