(* ===== verification/Programs.thy ===== *)
theory Programs
  imports Prelude
begin

text \<open>
  The user programs of testers/: the shell, the calculator, echo, the Fibonacci programs and
  those that print a text. A program sees the system through the positive services. Its
  requests are recorded in order; the results of the write requests and the lines the terminal
  delivers are given. An array is a list; an index outside it is undefined (\<open>None\<close>).
\<close>

section \<open>The services as a program sees them\<close>

abbreviation (input) NUL :: char where
  "NUL \<equiv> CHR 0x00"

abbreviation (input) NL :: char where
  "NL \<equiv> CHR 0x0A"

text \<open>A write request has the memory from its address on and the length.\<close>

datatype uevent =
    Write string nat
  | Read
  | Execute int
  | Terminate

record uenv =
  events :: "uevent list"
  statuses :: "int list"
  input :: "(int \<times> string) list"

definition request :: "uevent \<Rightarrow> uenv \<Rightarrow> uenv" where
  "request v e = e\<lparr>events := events e @ [v]\<rparr>"

definition u_write :: "string \<Rightarrow> nat \<Rightarrow> uenv \<Rightarrow> (int \<times> uenv) option" where
  "u_write s len e =
    (case statuses e of
       [] \<Rightarrow> None
     | r # rs \<Rightarrow> Some (r, request (Write s len) (e\<lparr>statuses := rs\<rparr>)))"

text \<open>A read stores the characters at the start of the buffer.\<close>

definition u_read :: "string \<Rightarrow> uenv \<Rightarrow> (int \<times> string \<times> uenv) option" where
  "u_read buf e =
    (case input e of
       [] \<Rightarrow> None
     | (n, cs) # rest \<Rightarrow>
         (if length cs \<le> length buf then Some (n, cs @ drop (length cs) buf, request Read (e\<lparr>input := rest\<rparr>))
          else None))"

definition load :: "string \<Rightarrow> int \<Rightarrow> char option" where
  "load s i = (if 0 \<le> i \<and> nat i < length s then Some (s ! nat i) else None)"

definition store :: "string \<Rightarrow> int \<Rightarrow> char \<Rightarrow> string option" where
  "store s i c = (if 0 \<le> i \<and> nat i < length s then Some (s[nat i := c]) else None)"

section \<open>shell.c\<close>

definition arr :: "(string \<times> int) list" where
  "arr = [(''fibEight'', 2), (''echo'', 3), (''fibEleven'', 4), (''uname'', 5), (''date'', 6), (''sl'', 7), (''calc'', 8)]"

function skip_spaces :: "string \<Rightarrow> nat \<Rightarrow> nat option" where
  "skip_spaces s start = do {
     c \<leftarrow> load s (int start);
     if c = CHR '' '' then skip_spaces s (Suc start) else Some start
   }"
  by auto
termination
  by (relation "measure (\<lambda>(s, start). length s - start)") (auto simp: load_def split: if_splits)

lemma store_length: "store s i c = Some s' \<Longrightarrow> length s' = length s"
  by (auto simp: store_def split: if_splits)

function shift :: "string \<Rightarrow> nat \<Rightarrow> nat \<Rightarrow> (string \<times> nat) option" where
  "shift s start write = do {
     c \<leftarrow> load s (int start);
     if c \<noteq> NUL then do {
       s \<leftarrow> store s (int write) c;
       shift s (Suc start) (Suc write)
     } else Some (s, write)
   }"
  by auto
termination
  by (relation "measure (\<lambda>(s, start, _). length s - start)")
    (auto simp: load_def dest!: store_length split: if_splits)

function find_end :: "string \<Rightarrow> nat \<Rightarrow> nat option" where
  "find_end s i = do {
     c \<leftarrow> load s (int i);
     if c \<noteq> NUL then find_end s (Suc i) else Some i
   }"
  by auto
termination
  by (relation "measure (\<lambda>(s, i). length s - i)") (auto simp: load_def split: if_splits)

fun trim_end :: "string \<Rightarrow> nat \<Rightarrow> string option" where
  "trim_end s 0 = Some s"
| "trim_end s (Suc e) = do {
     c \<leftarrow> load s (int e);
     if c = CHR '' '' then do {
       s \<leftarrow> store s (int e) NUL;
       trim_end s e
     } else Some s
   }"

definition trimSpaces :: "string \<Rightarrow> string option" where
  "trimSpaces s = do {
     start \<leftarrow> skip_spaces s 0;
     (s, write) \<leftarrow> shift s start 0;
     s \<leftarrow> store s (int write) NUL;
     e \<leftarrow> find_end s 0;
     trim_end s e
   }"

text \<open>The conjunction is evaluated from the left and stops at the first difference.\<close>

fun starts_with :: "string \<Rightarrow> nat \<Rightarrow> string \<Rightarrow> bool option" where
  "starts_with buff i [] = Some True"
| "starts_with buff i (c # cs) = do {
     d \<leftarrow> load buff (int i);
     if d = c then starts_with buff (Suc i) cs else Some False
   }"

definition chkExitAndTerminate :: "string \<Rightarrow> bool option" where
  "chkExitAndTerminate buff = starts_with buff 0 (''exit'' @ [NUL])"

text \<open>The comparison of a name with the command.\<close>

function same_name :: "string \<Rightarrow> string \<Rightarrow> nat \<Rightarrow> bool option" where
  "same_name name buffer index = do {
     a \<leftarrow> load (name @ [NUL]) (int index);
     b \<leftarrow> load buffer (int index);
     if a = b then (if a = NUL then Some True else same_name name buffer (Suc index))
     else Some False
   }"
  by auto
termination
  by (relation "measure (\<lambda>(_, b, i). length b - i)") (auto simp: load_def split: if_splits)

primrec search_prog :: "(string \<times> int) list \<Rightarrow> string \<Rightarrow> int option option" where
  "search_prog [] buffer = Some None"
| "search_prog (p # ps) buffer = do {
     found \<leftarrow> same_name (fst p) buffer 0;
     if found then Some (Some (snd p)) else search_prog ps buffer
   }"

abbreviation (input) unknownProg :: string where
  "unknownProg \<equiv> ''command not found :<'' @ [NL, NUL]"

text \<open>One iteration of the loop of main: the result is whether the shell has terminated.\<close>

definition shell_iter :: "string \<Rightarrow> uenv \<Rightarrow> (bool \<times> string \<times> uenv) option" where
  "shell_iter buffer e = do {
     (_, e) \<leftarrow> u_write (''> '' @ [NUL]) 2 e;
     (n, buffer, e) \<leftarrow> u_read buffer e;
     c \<leftarrow> load buffer (n - 1);
     buffer \<leftarrow> (if c = NL then store buffer (n - 1) NUL else Some buffer);
     buffer \<leftarrow> trimSpaces buffer;
     exit \<leftarrow> chkExitAndTerminate buffer;
     if exit then Some (True, buffer, request Terminate e)
     else do {
       c \<leftarrow> load buffer 0;
       if c = NUL then Some (False, buffer, e)
       else do {
         found \<leftarrow> search_prog arr buffer;
         case found of
           Some excAsid \<Rightarrow> Some (False, buffer, request (Execute excAsid) e)
         | None \<Rightarrow> do {
             (_, e) \<leftarrow> u_write unknownProg 21 e;
             Some (False, buffer, e)
           }
       }
     }
   }"

partial_function (option) shell_main :: "string \<Rightarrow> uenv \<Rightarrow> uenv option" where
  "shell_main buffer e =
    Option.bind (shell_iter buffer e) (\<lambda>(terminated, buffer, e).
      if terminated then Some e else shell_main buffer e)"

end
