(* ===== verification/Calc.thy ===== *)
theory Calc
  imports Programs
begin

text \<open>
  The calculator and the smaller programs of testers/. The requests of a program end with
  Terminate; a computation of a program that has terminated is \<open>Inl\<close>, with the environment.
\<close>

section \<open>print.c\<close>

text \<open>The length of a string in memory.\<close>

definition print :: "string \<Rightarrow> uenv \<Rightarrow> (uenv + uenv) option" where
  "print str e = do {
     leng \<leftarrow> find_end str 0;
     (status, e) \<leftarrow> u_write str leng e;
     if status < 0 then do {
       (_, e) \<leftarrow> u_write (''Bad device write status'' @ [NL, NUL]) 26 e;
       Some (Inl (request Terminate e))
     } else Some (Inr e)
   }"

text \<open>The program goes on only if it has not terminated.\<close>

definition proceed :: "(uenv + uenv) option \<Rightarrow> (uenv \<Rightarrow> (uenv + uenv) option) \<Rightarrow> (uenv + uenv) option" where
  "proceed m f = (case m of
     None \<Rightarrow> None
   | Some (Inl e) \<Rightarrow> Some (Inl e)
   | Some (Inr e) \<Rightarrow> f e)"

definition finish :: "uenv \<Rightarrow> (uenv + uenv) option" where
  "finish e = Some (Inl (request Terminate e))"

section \<open>echo.c, date.c, uname.c, sl.c\<close>

definition echo_main :: "string \<Rightarrow> uenv \<Rightarrow> (uenv + uenv) option" where
  "echo_main buf e = proceed (print (''Enter a string: '' @ [NUL]) e) (\<lambda>e. do {
     (status, buf, e) \<leftarrow> u_read buf e;
     buf \<leftarrow> store buf status NUL;
     proceed (print [NL, NUL] e) (\<lambda>e.
       proceed (print buf e) (\<lambda>e.
         proceed (print [NL, NUL] e) finish))
   })"

definition date_main :: "uenv \<Rightarrow> (uenv + uenv) option" where
  "date_main e = proceed (print (''Sat  5 Nov 06:15:00 PST 1955'' @ [NL, NUL]) e) finish"

definition uname_main :: "uenv \<Rightarrow> (uenv + uenv) option" where
  "uname_main e = proceed (print (''PandOSsh'' @ [NL, NUL]) e) finish"

definition sl_lines :: "string list" where
  "sl_lines =
    [''     ++      +------ '', ''     ||      |+-+ |  '', ''   /---------|| | |  '', ''  + ========  +-+ |  '',
     '' _|--O========O~'' @ [CHR 0x5C] @ ''-+ '', ''//// '' @ [CHR 0x5C] @ ''_/      '' @ [CHR 0x5C] @ ''_/  '']"

primrec print_all :: "string list \<Rightarrow> uenv \<Rightarrow> (uenv + uenv) option" where
  "print_all [] e = Some (Inr e)"
| "print_all (l # ls) e = proceed (print (l @ [NL, NUL]) e) (print_all ls)"

definition sl_main :: "uenv \<Rightarrow> (uenv + uenv) option" where
  "sl_main e = proceed (print_all sl_lines e) finish"

section \<open>fibEight.c and fibEleven.c\<close>

partial_function (option) fib :: "u32 \<Rightarrow> u32 option" where
  "fib i = (if i = 1 \<or> i = 2 then Some 1
    else Option.bind (fib (i - 1)) (\<lambda>a. Option.bind (fib (i - 2)) (\<lambda>b. Some (a + b))))"

text \<open>The two programs differ in the argument, the expected value and the first text.\<close>

definition fib_main :: "u32 \<Rightarrow> u32 \<Rightarrow> string \<Rightarrow> uenv \<Rightarrow> (uenv + uenv) option" where
  "fib_main n expected title e = proceed (print (title @ [NL, NUL]) e) (\<lambda>e. do {
     i \<leftarrow> fib n;
     proceed (print (''Recursion Concluded'' @ [NL, NUL]) e) (\<lambda>e.
       proceed (if i = expected then print (''Recursion Concluded Successfully'' @ [NL, NUL]) e
                else print (''ERROR: Recursion problems'' @ [NL, NUL]) e) finish)
   })"

definition fibEight_main :: "uenv \<Rightarrow> (uenv + uenv) option" where
  "fibEight_main = fib_main 8 21 ''Recursive Fibanaci (8) Test starts''"

definition fibEleven_main :: "uenv \<Rightarrow> (uenv + uenv) option" where
  "fibEleven_main = fib_main 11 89 ''Recursive Fibanaci (11) Test starts''"

section \<open>calc.c\<close>

text \<open>The loop over the \<open>n\<close> characters from \<open>i\<close> on; \<open>index\<close> is where the next one is copied.\<close>

primrec delete_loop :: "nat \<Rightarrow> string \<Rightarrow> nat \<Rightarrow> nat \<Rightarrow> string \<Rightarrow> (nat \<times> string) option" where
  "delete_loop 0 expr i index newExpr = Some (index, newExpr)"
| "delete_loop (Suc n) expr i index newExpr = do {
     c \<leftarrow> load expr (int i);
     if c = CHR '' '' then delete_loop n expr (Suc i) index newExpr
     else do {
       newExpr \<leftarrow> store newExpr (int index) c;
       delete_loop n expr (Suc i) (Suc index) newExpr
     }
   }"

definition deleteSpaces :: "string \<Rightarrow> int \<Rightarrow> string \<Rightarrow> string option" where
  "deleteSpaces expr len newExpr = do {
     (index, newExpr) \<leftarrow> delete_loop (nat len) expr 0 0 newExpr;
     store newExpr (int index) NUL
   }"

text \<open>The result is the two operands and the operator, or the -1 of a refused expression; \<open>newExpr\<close> is
  the local array of 10 characters before it is filled.\<close>

definition asciiToInt ::
  "string \<Rightarrow> string \<Rightarrow> int \<Rightarrow> uenv \<Rightarrow> ((int \<times> char \<times> int) option \<times> uenv) option" where
  "asciiToInt newExpr expr len e = do {
     newExpr \<leftarrow> deleteSpaces expr len newExpr;
     c0 \<leftarrow> load newExpr 0;
     let first = of_char c0 - 48;
     if first < 0 \<or> first > 9 then do {
       (_, e) \<leftarrow> u_write (''first input not a number'' @ [NL, NUL]) 25 e;
       Some (None, e)
     } else do {
       c1 \<leftarrow> load newExpr 1;
       if c1 = CHR ''+'' \<or> c1 = CHR ''-'' \<or> c1 = CHR ''*'' \<or> c1 = CHR ''/'' then do {
         c2 \<leftarrow> load newExpr 2;
         let second = of_char c2 - 48;
         if second < 0 \<or> second > 9 then do {
           (_, e) \<leftarrow> u_write (''second input not a number'' @ [NL, NUL]) 26 e;
           Some (None, e)
         } else Some (Some (first, c1, second), e)
       } else do {
         (_, e) \<leftarrow> u_write (''not an allowed operation'' @ [NL, NUL]) 23 e;
         Some (None, e)
       }
     }
   }"

text \<open>\<open>Inl\<close>: the process has terminated. The operands are digits, so that the operations are those of int.\<close>

definition calculate :: "int \<Rightarrow> char \<Rightarrow> int \<Rightarrow> uenv \<Rightarrow> (uenv + int \<times> uenv) option" where
  "calculate num1 opr num2 e =
    (if opr = CHR ''+'' then Some (Inr (num1 + num2, e))
     else if opr = CHR ''-'' then Some (Inr (num1 - num2, e))
     else if opr = CHR ''*'' then Some (Inr (num1 * num2, e))
     else if opr = CHR ''/'' then
       (if num2 = 0 then do {
          (_, e) \<leftarrow> u_write (''division by 0 not allowed'' @ [NL, NUL]) 26 e;
          Some (Inl (request Terminate e))
        } else Some (Inr (num1 div num2, e)))
     else Some (Inl (request Terminate e)))"

definition calc_main :: "string \<Rightarrow> string \<Rightarrow> uenv \<Rightarrow> (uenv + uenv) option" where
  "calc_main buffer newExpr e = do {
     (_, e) \<leftarrow> u_write (''insert expression'' @ [NL, NUL]) 18 e;
     (n, buffer, e) \<leftarrow> u_read buffer e;
     (retval, e) \<leftarrow> asciiToInt newExpr buffer n e;
     case retval of
       None \<Rightarrow> finish e
     | Some (first, operand, second) \<Rightarrow> do {
         r \<leftarrow> calculate first operand second e;
         case r of
           Inl e \<Rightarrow> Some (Inl e)
         | Inr (result, e) \<Rightarrow> do {
             let res_buffer = (if result < 0 then [CHR ''-'', char_of (nat (- result + 48))]
                               else [char_of (nat (result div 10 + 48)), char_of (nat (result mod 10 + 48))]) @ [NL];
             (_, e) \<leftarrow> u_write res_buffer 3 e;
             finish e
           }
       }
   }"

end
