(* ===== verification/Program_Facts.thy ===== *)
theory Program_Facts
  imports Calc
begin

text \<open>What the user programs do: the shell's handling of a command, the calculator, Fibonacci.\<close>

section \<open>Arrays\<close>

lemma load_nat [simp]: "load s (int i) = (if i < length s then Some (s ! i) else None)"
  by (simp add: load_def)

lemma store_nat [simp]: "store s (int i) c = (if i < length s then Some (s[i := c]) else None)"
  by (simp add: store_def)

declare skip_spaces.simps [simp del] shift.simps [simp del] find_end.simps [simp del] same_name.simps [simp del]

text \<open>The string a buffer holds: the characters before the terminator.\<close>

definition cstr :: "string \<Rightarrow> string" where
  "cstr s = takeWhile (\<lambda>c. c \<noteq> NUL) s"

lemma cstr_append: "NUL \<notin> set t \<Longrightarrow> cstr (t @ NUL # r) = t"
  unfolding cstr_def by (induction t) auto

lemma cstr_split:
  assumes "NUL \<in> set s"
  shows "\<exists>r. s = cstr s @ NUL # r"
proof -
  obtain t r where "s = t @ NUL # r" "NUL \<notin> set t" using split_list_first [OF assms] by blast
  then show ?thesis using cstr_append by auto
qed

lemma cstr_no_NUL: "NUL \<notin> set (cstr s)"
  unfolding cstr_def by (auto dest: set_takeWhileD)

section \<open>trimSpaces\<close>

text \<open>A string without the spaces at its ends.\<close>

definition strip :: "string \<Rightarrow> string" where
  "strip s = rev (dropWhile (\<lambda>c. c = CHR '' '') (rev (dropWhile (\<lambda>c. c = CHR '' '') s)))"

lemma nth_drop_Cons: "drop i s = c # t \<Longrightarrow> i < length s \<and> s ! i = c \<and> drop (Suc i) s = t"
  by (metis Cons_nth_drop_Suc drop_eq_Nil list.distinct(1) list.inject not_le)

lemma skip_spaces_eq:
  "drop i s = t @ NUL # r \<Longrightarrow> NUL \<notin> set t \<Longrightarrow>
    skip_spaces s i = Some (i + length (takeWhile (\<lambda>c. c = CHR '' '') t))"
proof (induction t arbitrary: i)
  case Nil
  from nth_drop_Cons [of i s NUL r] Nil show ?case by (subst skip_spaces.simps) simp
next
  case (Cons c t)
  from nth_drop_Cons [of i s c "t @ NUL # r"] Cons.prems Cons.IH [of "Suc i"] show ?case
    by (subst skip_spaces.simps) simp
qed

lemma find_end_eq: "drop i s = t @ NUL # r \<Longrightarrow> NUL \<notin> set t \<Longrightarrow> find_end s i = Some (i + length t)"
proof (induction t arbitrary: i)
  case Nil
  from nth_drop_Cons [of i s NUL r] Nil show ?case by (subst find_end.simps) simp
next
  case (Cons c t)
  from nth_drop_Cons [of i s c "t @ NUL # r"] Cons.prems Cons.IH [of "Suc i"] show ?case
    by (subst find_end.simps) auto
qed

lemma shift_eq:
  "drop i s = t @ NUL # r \<Longrightarrow> NUL \<notin> set t \<Longrightarrow> j \<le> i \<Longrightarrow>
    shift s i j = Some (take j s @ t @ drop (j + length t) s, j + length t)"
proof (induction t arbitrary: i j s)
  case Nil
  from nth_drop_Cons [of i s NUL r] Nil show ?case by (subst shift.simps) simp
next
  case (Cons c t)
  note d = nth_drop_Cons [of i s c "t @ NUL # r"]
  have i: "i < length s" "s ! i = c" "drop (Suc i) s = t @ NUL # r" "c \<noteq> NUL" using d Cons.prems by auto
  have "shift (s[j := c]) (Suc i) (Suc j) =
      Some (take (Suc j) (s[j := c]) @ t @ drop (Suc j + length t) (s[j := c]), Suc j + length t)"
    by (rule Cons.IH) (use i Cons.prems in simp_all)
  moreover have "take (Suc j) (s[j := c]) = take j s @ [c]"
    using i(1) Cons.prems(3) by (simp add: take_Suc_conv_app_nth)
  ultimately show ?case
    using i Cons.prems(3) by (subst shift.simps) simp
qed

lemma trim_end_eq:
  "NUL \<notin> set t \<Longrightarrow> \<exists>s'. trim_end (t @ NUL # r) (length t) = Some s' \<and> length s' = length (t @ NUL # r) \<and>
    NUL \<in> set s' \<and> cstr s' = rev (dropWhile (\<lambda>c. c = CHR '' '') (rev t))"
proof (induction t arbitrary: r rule: rev_induct)
  case Nil
  then show ?case by (simp add: cstr_def)
next
  case (snoc c t)
  show ?case
  proof (cases "c = CHR '' ''")
    case True
    from snoc.IH [of "NUL # r"] snoc.prems obtain s' where "trim_end (t @ NUL # NUL # r) (length t) = Some s'"
      "length s' = length (t @ NUL # NUL # r)" "NUL \<in> set s'" "cstr s' = rev (dropWhile (\<lambda>c. c = CHR '' '') (rev t))"
      by auto
    then show ?thesis using True by (simp add: nth_append)
  next
    case False
    then show ?thesis using snoc.prems cstr_append [of "t @ [c]" r] by (simp add: nth_append)
  qed
qed

lemma trimSpaces_strip:
  assumes "NUL \<in> set s"
  shows "\<exists>s'. trimSpaces s = Some s' \<and> length s' = length s \<and> NUL \<in> set s' \<and> cstr s' = strip (cstr s)"
proof -
  let ?P = "\<lambda>c. c = CHR '' ''"
  define t u where "t = cstr s" and "u = dropWhile ?P (cstr s)"
  obtain r where s: "s = t @ NUL # r" using cstr_split [OF assms] t_def by blast
  have t: "NUL \<notin> set t" "NUL \<notin> set u" using cstr_no_NUL by (auto simp: t_def u_def dest: set_dropWhileD)
  let ?k = "length (takeWhile ?P t)"
  have tu: "t = takeWhile ?P t @ u" by (simp add: t_def u_def)
  have 1: "skip_spaces s 0 = Some ?k" using skip_spaces_eq [of 0 s t r] s t(1) by simp
  have "drop ?k s = u @ NUL # r" unfolding s by (subst tu) simp
  then have 2: "shift s ?k 0 = Some (u @ drop (length u) s, length u)" using shift_eq [of ?k s u r 0] t(2) by simp
  have "length t = ?k + length u" using arg_cong [OF tu, of length] by simp
  then have len: "length u < length s" unfolding s by simp
  obtain x r' where x: "drop (length u) s = x # r'" using len by (metis Cons_nth_drop_Suc)
  then have 3: "store (u @ drop (length u) s) (int (length u)) NUL = Some (u @ NUL # r')" by simp
  have 4: "find_end (u @ NUL # r') 0 = Some (length u)" using find_end_eq [of 0 "u @ NUL # r'" u r'] t(2) by simp
  from trim_end_eq [OF t(2), of r'] obtain s' where s': "trim_end (u @ NUL # r') (length u) = Some s'"
    "length s' = length (u @ NUL # r')" "NUL \<in> set s'" "cstr s' = rev (dropWhile ?P (rev u))" by blast
  have "length (u @ NUL # r') = length s" using arg_cong [OF x, of length] len by simp
  then show ?thesis using s' 1 2 3 4 by (simp add: trimSpaces_def strip_def u_def)
qed

section \<open>Commands\<close>

lemma same_name_eq:
  "drop i buf = t @ NUL # r \<Longrightarrow> drop i name = n \<Longrightarrow> i \<le> length name \<Longrightarrow> NUL \<notin> set t \<Longrightarrow> NUL \<notin> set n \<Longrightarrow>
    same_name name buf i = Some (n = t)"
proof (induction t arbitrary: i n)
  case Nil
  from nth_drop_Cons [of i buf NUL r] Nil have b: "i < length buf" "buf ! i = NUL" by auto
  show ?case
  proof (cases n)
    case Nil
    then have "i = length name" using \<open>drop i name = n\<close> \<open>i \<le> length name\<close> by simp
    then show ?thesis using b Nil by (subst same_name.simps) simp
  next
    case (Cons c n')
    then show ?thesis
      using b Nil.prems nth_drop_Cons [of i name c n'] by (subst same_name.simps) (auto simp: nth_append)
  qed
next
  case (Cons d t)
  then have b: "i < length buf" "buf ! i = d" "drop (Suc i) buf = t @ NUL # r" "d \<noteq> NUL"
    using nth_drop_Cons [of i buf d "t @ NUL # r"] by auto
  show ?case
  proof (cases n)
    case Nil
    then have "i = length name" using Cons.prems by simp
    then show ?thesis using b Nil by (subst same_name.simps) simp
  next
    case n: (Cons c n')
    then have "i < length name" "name ! i = c" "drop (Suc i) name = n'"
      using Cons.prems nth_drop_Cons [of i name c n'] by auto
    then show ?thesis
      using b n Cons.prems Cons.IH [of "Suc i" n'] by (subst same_name.simps) (auto simp: nth_append)
  qed
qed

lemma same_name_cstr:
  assumes "NUL \<in> set buf" "NUL \<notin> set name"
  shows "same_name name buf 0 = Some (name = cstr buf)"
proof -
  obtain r where "buf = cstr buf @ NUL # r" using cstr_split [OF assms(1)] by blast
  then show ?thesis using same_name_eq [of 0 buf "cstr buf" r name name] assms(2) cstr_no_NUL by simp
qed

lemma search_prog_map_of:
  assumes "NUL \<in> set buf" "\<forall>p\<in>set ps. NUL \<notin> set (fst p)"
  shows "search_prog ps buf = Some (map_of ps (cstr buf))"
  using assms(2) by (induction ps) (auto simp: same_name_cstr [OF assms(1)])

lemma starts_with_eq:
  "drop i buf = t @ NUL # r \<Longrightarrow> NUL \<notin> set t \<Longrightarrow> NUL \<notin> set cs \<Longrightarrow> starts_with buf i (cs @ [NUL]) = Some (t = cs)"
proof (induction cs arbitrary: i t)
  case Nil
  show ?case
  proof (cases t)
    case Nil
    then show ?thesis using nth_drop_Cons [of i buf NUL r] \<open>drop i buf = t @ NUL # r\<close> by simp
  next
    case (Cons c t')
    then show ?thesis using nth_drop_Cons [of i buf c "t' @ NUL # r"] Nil.prems by auto
  qed
next
  case (Cons d cs)
  show ?case
  proof (cases t)
    case Nil
    then show ?thesis using nth_drop_Cons [of i buf NUL r] Cons.prems by auto
  next
    case t: (Cons c t')
    then show ?thesis
      using nth_drop_Cons [of i buf c "t' @ NUL # r"] Cons.prems Cons.IH [of "Suc i" t'] by auto
  qed
qed

lemma chkExitAndTerminate_eq:
  assumes "NUL \<in> set buf"
  shows "chkExitAndTerminate buf = Some (cstr buf = ''exit'')"
proof -
  obtain r where "buf = cstr buf @ NUL # r" using cstr_split [OF assms] by blast
  then show ?thesis
    using starts_with_eq [of 0 buf "cstr buf" r "''exit''"] cstr_no_NUL by (simp add: chkExitAndTerminate_def)
qed

section \<open>The shell\<close>

text \<open>What the terminal delivers for a line, and what the shell asks for because of it.\<close>

definition delivered :: "string \<Rightarrow> int \<times> string" where
  "delivered l = (int (Suc (length l)), l @ [NL])"

definition response :: "string \<Rightarrow> uevent list" where
  "response l = [Write (''> '' @ [NUL]) 2, Read] @
    (if strip l = ''exit'' then [Terminate]
     else if strip l = [] then []
     else case map_of arr (strip l) of Some asid \<Rightarrow> [Execute asid] | None \<Rightarrow> [Write unknownProg 21])"

lemma u_write_ok: "statuses e \<noteq> [] \<Longrightarrow> u_write s n e = Some (hd (statuses e), request (Write s n) (e\<lparr>statuses := tl (statuses e)\<rparr>))"
  by (cases "statuses e") (simp_all add: u_write_def)

lemma request_simps [simp]:
  "events (request v e) = events e @ [v]" "statuses (request v e) = statuses e" "input (request v e) = input e"
  by (simp_all add: request_def)

lemma cstr_empty: "NUL \<in> set s \<Longrightarrow> load s 0 = Some (s ! 0) \<and> (s ! 0 = NUL \<longleftrightarrow> cstr s = [])"
  by (cases s) (auto simp: load_def cstr_def)

lemma shell_iter_line:
  assumes buf: "length buf = 128" and l: "NUL \<notin> set l" "length l < 128"
    and e: "input e = delivered l # rest" "2 \<le> length (statuses e)"
  shows "\<exists>buf' e'. shell_iter buf e = Some (strip l = ''exit'', buf', e') \<and> length buf' = 128 \<and>
    events e' = events e @ response l \<and> input e' = rest \<and> length (statuses e) \<le> length (statuses e') + 2"
proof -
  let ?e1 = "request (Write (''> '' @ [NUL]) 2) (e\<lparr>statuses := tl (statuses e)\<rparr>)"
  let ?e2 = "request Read (?e1\<lparr>input := rest\<rparr>)"
  let ?b1 = "(l @ [NL]) @ drop (Suc (length l)) buf" and ?b2 = "l @ NUL # drop (Suc (length l)) buf"
  have w: "u_write (''> '' @ [NUL]) 2 e = Some (hd (statuses e), ?e1)" using e(2) by (intro u_write_ok) auto
  have r: "u_read buf ?e1 = Some (int (Suc (length l)), ?b1, ?e2)"
    using e(1) buf l(2) by (simp add: u_read_def delivered_def)
  have c: "load ?b1 (int (Suc (length l)) - 1) = Some NL" "store ?b1 (int (Suc (length l)) - 1) NUL = Some ?b2"
    using load_nat [of ?b1 "length l"] store_nat [of ?b1 "length l" NUL] by (simp_all add: nth_append list_update_append)
  have b2: "NUL \<in> set ?b2" "cstr ?b2 = l" "length ?b2 = 128" using cstr_append [OF l(1)] buf l(2) by simp_all
  obtain b3 where b3: "trimSpaces ?b2 = Some b3" "length b3 = 128" "NUL \<in> set b3" "cstr b3 = strip l"
    using trimSpaces_strip [OF b2(1)] b2(2,3) by auto
  have s: "search_prog arr b3 = Some (map_of arr (strip l))"
    using search_prog_map_of [OF b3(3), of arr] b3(4) by (simp add: arr_def)
  have "tl (statuses e) \<noteq> []" using e(2) by (cases "statuses e") auto
  then have u: "u_write unknownProg 21 ?e2 = Some (hd (tl (statuses e)),
      request (Write unknownProg 21) (?e2\<lparr>statuses := tl (tl (statuses e))\<rparr>))"
    by (subst u_write_ok) simp_all
  have "length (statuses e) \<le> Suc (Suc (length (statuses e) - Suc 0))"
    "length (statuses e) \<le> Suc (Suc (length (statuses e) - Suc (Suc 0)))" by arith+
  then show ?thesis
    using w r c b3 s u chkExitAndTerminate_eq [OF b3(3)] cstr_empty [OF b3(3)]
    by (simp add: shell_iter_def response_def split: option.splits)
qed

lemma shell_main_lines:
  assumes "length buf = 128" "\<forall>l\<in>set (ls @ [x]). NUL \<notin> set l \<and> length l < 128"
    and "\<forall>l\<in>set ls. strip l \<noteq> ''exit''" "strip x = ''exit''"
    and "input e = map delivered (ls @ [x]) @ rest" "2 * Suc (length ls) \<le> length (statuses e)"
  shows "\<exists>e'. shell_main buf e = Some e' \<and> events e' = events e @ concat (map response (ls @ [x])) \<and> input e' = rest"
  using assms
proof (induction ls arbitrary: buf e)
  case Nil
  have "\<exists>buf' e'. shell_iter buf e = Some (strip x = ''exit'', buf', e') \<and> length buf' = 128 \<and>
    events e' = events e @ response x \<and> input e' = rest \<and> length (statuses e) \<le> length (statuses e') + 2"
    by (rule shell_iter_line) (use Nil in simp_all)
  then show ?case using Nil.prems(4) by (subst shell_main.simps) auto
next
  case (Cons l ls)
  have "\<exists>buf' e'. shell_iter buf e = Some (strip l = ''exit'', buf', e') \<and> length buf' = 128 \<and>
    events e' = events e @ response l \<and> input e' = map delivered (ls @ [x]) @ rest \<and>
    length (statuses e) \<le> length (statuses e') + 2"
    by (rule shell_iter_line) (use Cons.prems in simp_all)
  then obtain buf' e' where it: "shell_iter buf e = Some (False, buf', e')" "length buf' = 128"
    "events e' = events e @ response l" "input e' = map delivered (ls @ [x]) @ rest"
    "length (statuses e) \<le> length (statuses e') + 2"
    using Cons.prems(3) by auto
  have "\<exists>e''. shell_main buf' e' = Some e'' \<and> events e'' = events e' @ concat (map response (ls @ [x])) \<and> input e'' = rest"
    by (rule Cons.IH) (use Cons.prems it in auto)
  then show ?case using it by (subst shell_main.simps) auto
qed

section \<open>Fibonacci\<close>

fun fibonacci :: "nat \<Rightarrow> nat" where
  "fibonacci 0 = 0"
| "fibonacci (Suc 0) = 1"
| "fibonacci (Suc (Suc n)) = fibonacci (Suc n) + fibonacci n"

text \<open>The recursion ends for every positive argument; for 0 it would count down for ever.\<close>

lemma fib_fibonacci: "0 < n \<Longrightarrow> n < 2 ^ 31 \<Longrightarrow> fib (of_nat n) = Some (of_nat (fibonacci n))"
proof (induction n rule: fibonacci.induct)
  case 2
  then show ?case by (subst fib.simps) simp
next
  case (3 n)
  show ?case
  proof (cases "n = 0")
    case True
    then show ?thesis by (subst fib.simps) simp
  next
    case False
    define z where "z = (of_nat (Suc (Suc n)) :: u32)"
    have "unat z = Suc (Suc n)" unfolding z_def using 3(4) by (intro unat_of_nat_u32) simp
    then have "z \<noteq> 1" "z \<noteq> 2" using False by auto
    then have ne: "(of_nat (Suc (Suc n)) :: u32) \<noteq> 1" "(of_nat (Suc (Suc n)) :: u32) \<noteq> 2" by (simp_all only: z_def not_False_eq_True)
    have d: "(of_nat (Suc (Suc n)) :: u32) - 1 = of_nat (Suc n)" "(of_nat (Suc (Suc n)) :: u32) - 2 = of_nat n"
      by simp_all
    have ih: "fib (of_nat (Suc n)) = Some (of_nat (fibonacci (Suc n)))" "fib (of_nat n) = Some (of_nat (fibonacci n))"
      using 3 False by simp_all
    show ?thesis by (subst fib.simps) (simp only: ne d ih simp_thms if_False Option.bind_lunit fibonacci.simps of_nat_add)
  qed
qed simp

section \<open>The calculator\<close>

lemma delete_loop_eq:
  assumes "i + n \<le> length expr" "f = filter (\<lambda>c. c \<noteq> CHR '' '') (take n (drop i expr))" "j + length f \<le> length new"
  shows "delete_loop n expr i j new = Some (j + length f, take j new @ f @ drop (j + length f) new)"
  using assms
proof (induction n arbitrary: i j new f)
  case 0
  then show ?case by simp
next
  case (Suc n)
  have i: "i < length expr" "take (Suc n) (drop i expr) = expr ! i # take n (drop (Suc i) expr)"
    using Suc.prems(1) by (simp_all add: take_Suc_conv_app_nth flip: Cons_nth_drop_Suc)
  show ?case
  proof (cases "expr ! i = CHR '' ''")
    case True
    then show ?thesis using i Suc.prems Suc.IH [of "Suc i" f j new] by simp
  next
    case False
    define g where "g = filter (\<lambda>c. c \<noteq> CHR '' '') (take n (drop (Suc i) expr))"
    have f: "f = expr ! i # g" using Suc.prems(2) i(2) False by (simp add: g_def)
    have j: "j < length new" using Suc.prems(3) f by simp
    have "delete_loop n expr (Suc i) (Suc j) (new[j := expr ! i]) =
        Some (Suc j + length g, take (Suc j) (new[j := expr ! i]) @ g @ drop (Suc j + length g) (new[j := expr ! i]))"
      by (rule Suc.IH [OF _ g_def]) (use Suc.prems(1,3) f in simp_all)
    moreover have "take (Suc j) (new[j := expr ! i]) = take j new @ [expr ! i]"
      using j by (simp add: take_Suc_conv_app_nth)
    ultimately show ?thesis using i(1) j False f by simp
  qed
qed

lemma deleteSpaces_eq:
  assumes "n \<le> length expr" "f = filter (\<lambda>c. c \<noteq> CHR '' '') (take n expr)" "length f < length new"
  shows "deleteSpaces expr (int n) new = Some (f @ NUL # drop (Suc (length f)) new)"
proof -
  have "delete_loop n expr 0 0 new = Some (0 + length f, take 0 new @ f @ drop (0 + length f) new)"
    by (rule delete_loop_eq) (use assms in simp_all)
  moreover have "(f @ drop (length f) new)[length f := NUL] = f @ NUL # drop (Suc (length f)) new"
    using assms(3) by (simp add: list_update_append Cons_nth_drop_Suc [symmetric])
  ultimately show ?thesis using assms(3) by (simp add: deleteSpaces_def)
qed

definition digit :: "nat \<Rightarrow> char" where
  "digit d = char_of (48 + d)"

lemma digit_value: "d < 10 \<Longrightarrow> (of_char (digit d) :: int) = int d + 48"
proof -
  assume "d < 10"
  then have "(of_char (digit d) :: nat) = 48 + d" by (simp add: digit_def)
  then show ?thesis using of_nat_of_char [of "digit d", where ?'a = int] by simp
qed

definition operation :: "char \<Rightarrow> int \<Rightarrow> int \<Rightarrow> int" where
  "operation c x y = (if c = CHR ''+'' then x + y else if c = CHR ''-'' then x - y
    else if c = CHR ''*'' then x * y else x div y)"

text \<open>The result as text: two digits, or a sign and a digit.\<close>

definition result_text :: "int \<Rightarrow> string" where
  "result_text r = (if r < 0 then [CHR ''-'', digit (nat (- r))] else [digit (nat (r div 10)), digit (nat (r mod 10))])"

lemma load_prefix: "load (a # b # c # s) 0 = Some a" "load (a # b # c # s) 1 = Some b" "load (a # b # c # s) 2 = Some c"
  by (simp_all add: load_def)

lemma asciiToInt_ok:
  assumes "n \<le> length expr" "filter (\<lambda>c. c \<noteq> CHR '' '') (take n expr) = digit x # opr # digit y # tail"
    and "length tail + 3 < length new" "x < 10" "y < 10" "opr \<in> set ''+-*/''"
  shows "asciiToInt new expr (int n) e = Some (Some (int x, opr, int y), e)"
proof -
  have "deleteSpaces expr (int n) new = Some ((digit x # opr # digit y # tail) @
      NUL # drop (Suc (length (digit x # opr # digit y # tail))) new)"
    using deleteSpaces_eq [OF assms(1) refl, of new] assms(2,3) by simp
  then show ?thesis
    using assms(4-6) by (auto simp: asciiToInt_def load_prefix Let_def digit_value)
qed

lemma calc_main_eval:
  assumes "input e = (int (length cs), cs) # rest" "length cs \<le> length buf" "2 \<le> length (statuses e)"
    and "filter (\<lambda>c. c \<noteq> CHR '' '') cs = digit x # opr # digit y # tail" "length tail + 3 < length new"
    and "x < 10" "y < 10" "opr \<in> set ''+-*/''"
  shows "\<exists>e'. calc_main buf new e = Some (Inl e') \<and> events e' = events e @
    [Write (''insert expression'' @ [NL, NUL]) 18, Read] @
    (if opr = CHR ''/'' \<and> y = 0 then [Write (''division by 0 not allowed'' @ [NL, NUL]) 26]
     else [Write (result_text (operation opr (int x) (int y)) @ [NL]) 3]) @ [Terminate]"
proof -
  let ?e1 = "request (Write (''insert expression'' @ [NL, NUL]) 18) (e\<lparr>statuses := tl (statuses e)\<rparr>)"
  let ?e2 = "request Read (?e1\<lparr>input := rest\<rparr>)"
  let ?b = "cs @ drop (length cs) buf"
  have st: "statuses e \<noteq> []" "tl (statuses e) \<noteq> []" using assms(3) by (cases "statuses e"; auto)+
  have w: "u_write (''insert expression'' @ [NL, NUL]) 18 e = Some (hd (statuses e), ?e1)"
    by (rule u_write_ok [OF st(1)])
  have r: "u_read buf ?e1 = Some (int (length cs), ?b, ?e2)" using assms(1,2) by (simp add: u_read_def)
  have a: "asciiToInt new ?b (int (length cs)) ?e2 = Some (Some (int x, opr, int y), ?e2)"
    by (rule asciiToInt_ok) (use assms in simp_all)
  have w2: "u_write t n ?e2 = Some (hd (tl (statuses e)), request (Write t n) (?e2\<lparr>statuses := tl (tl (statuses e))\<rparr>))" for t n
    by (subst u_write_ok) (use st in simp_all)
  have shown: "(if r < 0 then [CHR ''-'', char_of (nat (- r + 48))]
      else [char_of (nat (r div 10 + 48)), char_of (nat (r mod 10 + 48))]) = result_text r" for r :: int
  proof (cases "r < 0")
    case True
    then have "nat (- r + 48) = 48 + nat (- r)" by simp
    then show ?thesis using True by (simp only: result_text_def digit_def if_True)
  next
    case False
    then have "nat (r div 10 + 48) = 48 + nat (r div 10)" "nat (r mod 10 + 48) = 48 + nat (r mod 10)"
      by (simp_all add: nat_add_distrib pos_imp_zdiv_nonneg_iff)
    then show ?thesis using False by (simp only: result_text_def digit_def if_False)
  qed
  show ?thesis
    using w r a w2 assms(8) unfolding calc_main_def
    by (auto simp: calculate_def operation_def finish_def Let_def shown split: if_splits)
qed

end
