(* ===== verification/Props_Programs.thy ===== *)
theory Props_Programs
  imports Program_Facts
begin

text \<open>The properties of the user programs, each with an instance on a concrete run.\<close>

text \<open>
  C8: The shell executes the commands it is given and ends with exit. For any lines of fewer
  than 128 characters, of which only the last is exit up to spaces at its ends, the shell
  reads them all without leaving its buffer and then terminates; for each line it prompts,
  reads, and, with the spaces at the ends removed, executes the address space that the table
  of programs gives for the command, does nothing for an empty line, and otherwise writes
  that the command was not found.
\<close>

theorem shell_runs_commands:
  assumes "length buf = 128" "\<forall>l\<in>set (ls @ [x]). NUL \<notin> set l \<and> length l < 128"
    and "\<forall>l\<in>set ls. strip l \<noteq> ''exit''" "strip x = ''exit''"
    and "input e = map delivered (ls @ [x]) @ rest" "2 * Suc (length ls) \<le> length (statuses e)"
  shows "\<exists>e'. shell_main buf e = Some e' \<and> input e' = rest \<and> events e' = events e @ concat (map (\<lambda>l.
    [Write (''> '' @ [NUL]) 2, Read] @
    (if strip l = ''exit'' then [Terminate] else if strip l = [] then []
     else case map_of arr (strip l) of Some asid \<Rightarrow> [Execute asid] | None \<Rightarrow> [Write unknownProg 21])) (ls @ [x]))"
  using shell_main_lines [OF assms] unfolding response_def by blast

theorem shell_runs_commands_witness:
  "\<exists>e'. shell_main (replicate 128 NUL) \<lparr>events = [], statuses = replicate 6 0,
      input = [(8, ''  echo '' @ [NL]), (4, ''foo'' @ [NL]), (5, ''exit'' @ [NL])]\<rparr> = Some e' \<and>
    events e' = [Write (''> '' @ [NUL]) 2, Read, Execute 3, Write (''> '' @ [NUL]) 2, Read, Write unknownProg 21,
      Write (''> '' @ [NUL]) 2, Read, Terminate]"
  using shell_runs_commands [of "replicate 128 NUL" "[''  echo '', ''foo'']" "''exit''"
      "\<lparr>events = [], statuses = replicate 6 0, input = [(8, ''  echo '' @ [NL]), (4, ''foo'' @ [NL]), (5, ''exit'' @ [NL])]\<rparr>" "[]"]
  by (simp add: strip_def delivered_def arr_def) blast

text \<open>
  C14: The calculator computes. For an expression of a digit, one of the four operators and a
  digit, with any spaces, that fits in the buffer and, without the spaces, leaves room for
  the terminator in the array of 10 characters, it writes the result as two digits, or a sign
  and a digit when it is negative, and terminates; a division by 0 is refused with a message.
\<close>

theorem calc_evaluates:
  assumes "input e = (int (length cs), cs) # rest" "length cs \<le> length buf" "2 \<le> length (statuses e)"
    and "filter (\<lambda>c. c \<noteq> CHR '' '') cs = digit x # opr # digit y # tail" "length tail + 3 < length new"
    and "x < 10" "y < 10" "opr \<in> set ''+-*/''"
  shows "\<exists>e'. calc_main buf new e = Some (Inl e') \<and> events e' = events e @
    [Write (''insert expression'' @ [NL, NUL]) 18, Read] @
    (if opr = CHR ''/'' \<and> y = 0 then [Write (''division by 0 not allowed'' @ [NL, NUL]) 26]
     else [Write (result_text (operation opr (int x) (int y)) @ [NL]) 3]) @ [Terminate]"
  by (rule calc_main_eval [OF assms])

theorem calc_evaluates_witness:
  "\<exists>e'. calc_main (replicate 10 NUL) (replicate 10 NUL)
      \<lparr>events = [], statuses = [0, 0], input = [(6, ''3 - 7'' @ [NL])]\<rparr> = Some (Inl e') \<and>
    events e' = [Write (''insert expression'' @ [NL, NUL]) 18, Read, Write (''-4'' @ [NL]) 3, Terminate]"
proof -
  have "digit 3 = CHR ''3''" "digit 7 = CHR ''7''" "digit 4 = CHR ''4''" by (simp_all add: digit_def char_of_eq_iff)
  then show ?thesis
    using calc_evaluates [of "\<lparr>events = [], statuses = [0, 0], input = [(6, ''3 - 7'' @ [NL])]\<rparr>" "''3 - 7'' @ [NL]" "[]"
        "replicate 10 NUL" 3 "CHR ''-''" 7 "[NL]" "replicate 10 NUL"]
    by (simp add: operation_def result_text_def)
qed

end
