(* ===== verification/Exclusion.thy ===== *)
theory Exclusion
  imports Nucleus
begin

text \<open>
  Mutual exclusion with a semaphore of value 1, such as swapSemaphore of phase 3 and the
  semaphores of the devices. The nucleus runs as in \<open>Nucleus\<close>, with any interleaving of
  processes, interrupts and services; beside its state stands the set of processes that have
  passed P on the semaphore and not yet called V.
\<close>

section \<open>Holders\<close>

text \<open>The request for a service that the nucleus is about to serve: its number and first argument.\<close>

definition pending_service :: "platform \<Rightarrow> kernel \<Rightarrow> (u32 \<times> u32) option" where
  "pending_service pf s =
    (let st = states s (getCurrExceptionState pf); c = cause st AND CAUSE_EXCCODE_MASK pf
     in if \<not> CAUSE_IS_INT pf (cause st) \<and> (c = 8 \<or> c = 11) \<and> is_nsys pf st
        then Some (gpr st (gpr_a0 pf), gpr st (gpr_a1 pf)) else None)"

text \<open>
  Who holds the semaphore \<open>k\<close> after the pending exception: a P that finds it positive lets the
  caller in; a V puts the caller out and lets in the first process that waits.
\<close>

definition holders :: "platform \<Rightarrow> u32 \<Rightarrow> kernel \<Rightarrow> nat set \<Rightarrow> nat set" where
  "holders pf k s H =
    (case (currProc s, pending_service pf s) of
       (Some p, Some (n, a1)) \<Rightarrow>
         (if n = - 3 \<and> a1 = k then (if 0 < sint (ram s k) then insert p H else H)
          else if n = - 4 \<and> a1 = k then
            (H - {p}) \<union> (case headBlocked k s of Some (Some q) \<Rightarrow> {q} | _ \<Rightarrow> {})
          else H)
     | _ \<Rightarrow> H)"

text \<open>
  The discipline of the processes: P (service -3) only by a process that does not hold the semaphore, V (-4) only
  by one that does, no DoIO (-5) on the semaphore as if it were a device register, and no process
  that holds it is terminated.
\<close>

definition disciplined :: "platform \<Rightarrow> u32 \<Rightarrow> kernel \<Rightarrow> phase1 \<Rightarrow> nat set \<Rightarrow> bool" where
  "disciplined pf k s a H \<longleftrightarrow>
    CAUSE_IS_INT pf (cause (states s (getCurrExceptionState pf))) \<or>
    (case pending_service pf s of
       Some (n, a1) \<Rightarrow>
         (n = - 2 \<longrightarrow> (if a1 = 0 then \<forall>p. currProc s = Some p \<longrightarrow> desc a p \<inter> H = {}
            else \<forall>q\<in>live a. p_pid (pcbs s q) = a1 \<longrightarrow> desc a q \<inter> H = {})) \<and>
         (n = - 3 \<and> a1 = k \<longrightarrow> set_option (currProc s) \<inter> H = {}) \<and>
         (n = - 4 \<and> a1 = k \<longrightarrow> set_option (currProc s) \<subseteq> H) \<and>
         (n = - 5 \<longrightarrow> a1 \<noteq> k)
     | None \<Rightarrow> \<forall>p. currProc s = Some p \<longrightarrow> p_supportStruct (pcbs s p) = NULL \<longrightarrow> desc a p \<inter> H = {})"

text \<open>The word is none of the device semaphores and no command register of a device.\<close>

definition shared_word :: "platform \<Rightarrow> u32 \<Rightarrow> bool" where
  "shared_word pf k \<longleftrightarrow> \<not> isDeviceSemaphore pf k \<and>
    (\<forall>L\<in>{3, 4, 5, 6, 7}. \<forall>N\<in>{0, 1, 2, 3, 4, 5, 6, 7}. k \<noteq> device_address L N + 4 \<and> k \<noteq> device_address L N + 12)"

section \<open>The invariant\<close>

definition held :: "u32 \<Rightarrow> kernel \<Rightarrow> phase1 \<Rightarrow> nat set \<Rightarrow> bool" where
  "held k s a H \<longleftrightarrow> H \<subseteq> live a \<and> H \<inter> set (waiting s a k) = {} \<and>
    (H = {} \<and> ram s k = 1 \<and> waiting s a k = [] \<or> (\<exists>p. H = {p}) \<and> ram s k = 0)"

text \<open>What an activation that does not concern the semaphore does.\<close>

definition keeps :: "u32 \<Rightarrow> nat set \<Rightarrow> kernel \<Rightarrow> phase1 \<Rightarrow> kernel \<Rightarrow> phase1 \<Rightarrow> bool" where
  "keeps k H s a s' a' \<longleftrightarrow> nucleus_inv s' a' \<and> ram s' k = ram s k \<and> H \<inter> live a \<subseteq> live a' \<and>
    (\<exists>P. waiting s' a' k = filter P (waiting s a k))"

lemma keeps_held: "keeps k H s a s' a' \<Longrightarrow> held k s a H \<Longrightarrow> held k s' a' H"
  unfolding keeps_def held_def by auto

lemma keepsI:
  assumes "nucleus_inv s' a'" "ram s' k = ram s k" "live a' = live a" "waiting s' a' k = waiting s a k"
  shows "keeps k H s a s' a'"
  using assms unfolding keeps_def by (auto intro!: exI [of _ "\<lambda>_. True"])

lemma keeps_trans:
  assumes "keeps k H s a s1 a1" "keeps k H s1 a1 s' a'"
  shows "keeps k H s a s' a'"
proof -
  obtain P Q where "waiting s1 a1 k = filter P (waiting s a k)" "waiting s' a' k = filter Q (waiting s1 a1 k)"
    using assms by (auto simp: keeps_def)
  then have "waiting s' a' k = filter (\<lambda>x. P x \<and> Q x) (waiting s a k)" by simp
  then show ?thesis using assms unfolding keeps_def by (intro conjI exI [of _ "\<lambda>x. P x \<and> Q x"]) auto
qed

text \<open>The structures and the semaphore are untouched.\<close>

lemma keeps_frame:
  assumes "nucleus_inv s a" "links s' = links s" "semds s' = semds s" "currProc s' = currProc s"
    and "\<And>p. parent s' p = parent s p" "\<And>p. semAdd s' p = semAdd s p" "\<And>p. prio s' p = prio s p"
    and "processCount s' = processCount s" "ram s' k = ram s k"
  shows "keeps k H s a s' a"
proof (rule keepsI)
  have "ninv (set_option (currProc s')) s' a"
    unfolding assms(4) by (rule ninv_frame [OF nucleus_invD(1) [OF assms(1)]]) (simp_all add: assms)
  moreover have "count_ok s' a" by (rule count_ok_frame [OF nucleus_invD(2) [OF assms(1)]]) (simp_all add: assms)
  ultimately show "nucleus_inv s' a" by (simp add: nucleus_inv_def)
  show "waiting s' a k = waiting s a k" by (rule fun_cong [OF waiting_frame]) (simp_all add: assms(3))
qed (simp_all add: assms(9))

text \<open>Only the ready queue changes.\<close>

lemma keeps_ready:
  assumes "nucleus_inv s' (a\<lparr>a_ready := q\<rparr>)" "semds s' = semds s" "ram s' = ram s"
  shows "keeps k H s a s' (a\<lparr>a_ready := q\<rparr>)"
proof (rule keepsI [OF assms(1)])
  show "waiting s' (a\<lparr>a_ready := q\<rparr>) k = waiting s a k" by (rule fun_cong [OF waiting_frame]) (simp_all add: assms(2))
qed (simp_all add: assms(3) live_def)

section \<open>The other services\<close>

lemma blocked_on_keeps:
  assumes "blocked_on j p b s a s' a'" "j \<noteq> k" "ram s' k = ram s k"
  shows "keeps k H s a s' a'"
  by (rule keepsI) (use assms in \<open>auto simp: blocked_on_def live_def\<close>)

lemma nsys1_keeps:
  assumes "nucleus_inv s a" "currProc s = Some q"
  shows "\<exists>r s' a'. nsys1 pf a1 a2 a3 s = Some (r, s') \<and> keeps k H s a s' a'"
proof (cases "a_free a")
  case Nil
  have "keeps k H s a s a" by (rule keepsI) (simp_all add: assms(1))
  then show ?thesis using nsys1_full [OF nucleus_invD(3) [OF assms(1)] Nil] by blast
next
  case (Cons p f)
  from nsys1_creates [OF assms Cons, of pf a1 a2 a3] obtain s' where
    c: "nsys1 pf a1 a2 a3 s = Some (next_pid s, s')" "nucleus_inv s' (created s' q p a)"
      "semds s' = semds s" "ram s' = ram s"
    by (auto simp: Let_def)
  have "waiting s' (created s' q p a) = waiting s a"
    by (rule waiting_frame) (simp_all add: c(3) created_def)
  moreover have "live a \<subseteq> live (created s' q p a)"
    using live_alloc(1) [OF nucleus_invD(3) [OF assms(1)] Cons] Cons by (auto simp: created_def live_def)
  ultimately have "keeps k H s a s' (created s' q p a)"
    using c(2,4) unfolding keeps_def by (auto intro!: exI [of _ "\<lambda>_. True"])
  then show ?thesis using c(1) by blast
qed

lemma terminated_keeps:
  assumes "nucleus_inv s' a'" "terminated D s a s' a'" "D \<inter> H = {}"
  shows "keeps k H s a s' a'"
  using assms unfolding keeps_def terminated_def by auto

lemma nsys2_self_keeps:
  assumes "nucleus_inv s a" "currProc s = Some p" "can_terminate s a p" "desc a p \<inter> H = {}"
  shows "\<exists>e s' a'. nsys2 pf 0 x s = Some (e, s') \<and> keeps k H s a s' a'"
proof -
  have "\<And>q. q \<in> desc a p \<Longrightarrow> term_ok s a q" using assms(3) by (simp add: can_terminate_def)
  from nsys2_self [OF assms(1,2) this, of pf x] show ?thesis
    using terminated_keeps assms(4) by blast
qed

lemma nsys2_keeps:
  assumes "nucleus_inv s a" "currProc s = Some p"
    and "if a1 = 0 then can_terminate s a p \<and> desc a p \<inter> H = {}
      else \<forall>q\<in>live a. p_pid (pcbs s q) = a1 \<longrightarrow> can_terminate s a q \<and> desc a q \<inter> H = {}"
  shows "\<exists>e s' a'. nsys2 pf a1 x s = Some (e, s') \<and> keeps k H s a s' a'"
proof (cases "a1 = 0")
  case True
  then show ?thesis using nsys2_self_keeps [OF assms(1,2)] assms(3) by simp
next
  case False
  show ?thesis
  proof (rule findsE [OF findPcbByPid_finds [OF assms(1), of a1]])
    assume n: "findPcbByPid a1 s = Some None"
    have "keeps k H s a (upd_state x (set_a0 pf NOPROC) s) a"
      by (rule keeps_frame [OF assms(1)]) (simp_all add: upd_state_def)
    then show ?thesis using n False by (auto simp: nsys2_def Let_def)
  next
    fix q
    assume q: "findPcbByPid a1 s = Some (Some q)" "q \<in> live a" "p_pid (pcbs s q) = a1"
    then have t: "can_terminate s a q" "desc a q \<inter> H = {}" using assms(3) False by simp_all
    then have "\<And>r. r \<in> desc a q \<Longrightarrow> term_ok s a r" "set_option (currProc s) \<subseteq> desc a q"
      by (simp_all add: can_terminate_def)
    from terminate_dispatch [OF assms(1) q(2) this, of pf] obtain s1 e s' a' where
      d: "terminateProcess pf (Some q) s = Some s1" "dispatch s1 = Some (e, s')" "nucleus_inv s' a'"
        "terminated (desc a q) s a s' a'" by blast
    have "nsys2 pf a1 x s = Some (e, s')" using q(1) False d(1,2) by (simp add: nsys2_def)
    then show ?thesis using terminated_keeps [OF d(3,4) t(2)] by blast
  qed
qed

lemma nsys3_keeps:
  assumes "nucleus_inv s a" "currProc s = Some p" "j \<noteq> k"
  shows "\<exists>e s' a'. nsys3 pf j x s = Some (e, s') \<and> keeps k H s a s' a'"
proof (cases "0 < sint (ram s j)")
  case True
  have "keeps k H s a (s\<lparr>ram := (ram s)(j := ram s j - 1)\<rparr>) a"
    by (rule keeps_frame [OF assms(1)]) (use assms(3) in simp_all)
  then show ?thesis using nsys3_takes [OF True, of pf x] by blast
next
  case False
  from nsys3_blocks [OF assms(1,2) False, of pf x] obtain e s' a' where
    b: "nsys3 pf j x s = Some (e, s')" "blocked_on j p (saved_pcb pf x s p) s a s' a'" "ram s' = ram s" by blast
  then show ?thesis using blocked_on_keeps [OF b(2) assms(3)] by auto
qed

lemma nsys4_keeps:
  assumes "nucleus_inv s a" "j \<noteq> k"
  shows "\<exists>s' a'. nsys4 j s = Some s' \<and> keeps k H s a s' a'"
proof (cases "waiting s a j")
  case Nil
  have "keeps k H s a (s\<lparr>ram := (ram s)(j := ram s j + 1)\<rparr>) a"
    by (rule keeps_frame [OF assms(1)]) (use assms(2) in simp_all)
  then show ?thesis using nsys4_increments [OF nucleus_invD(3) [OF assms(1)] Nil] by blast
next
  case (Cons p q)
  from nsys4_wakes [OF assms(1) Cons] obtain l d a' where
    w: "nsys4 j s = Some (s\<lparr>links := l, semds := d\<rparr>)" "nucleus_inv (s\<lparr>links := l, semds := d\<rparr>) a'"
      "woken j p s a (s\<lparr>links := l, semds := d\<rparr>) a'" by blast
  have "keeps k H s a (s\<lparr>links := l, semds := d\<rparr>) a'"
    by (rule keepsI [OF w(2)]) (use w(3) woken_live [OF w(3)] assms(2) in \<open>simp_all add: woken_def\<close>)
  then show ?thesis using w(1) by blast
qed

lemma nsys5_keeps:
  assumes "platform_ok pf" "shared_word pf k" "nucleus_inv s a" "currProc s = Some p"
    and "device_sem_at pf (nsys5_index pf a1) \<noteq> None" "a1 \<noteq> k"
  shows "\<exists>e s' a'. nsys5 pf a1 a2 x s = Some (e, s') \<and> keeps k H s a s' a'"
proof -
  obtain j where j: "device_sem_at pf (nsys5_index pf a1) = Some j" using assms(5) by blast
  have "j \<noteq> k"
    using j assms(1,2) isDeviceSemaphore_index [of pf "word_of_int (nsys5_index pf a1)"]
    by (auto simp: device_sem_at_def shared_word_def word_less_def uint_word_of_int split: if_splits)
  moreover obtain e s' a' where "nsys5 pf a1 a2 x s = Some (e, s')" "blocked_on j p (saved_pcb pf x s p) s a s' a'"
    "ram s' = (ram s)(a1 := a2)" using nsys5_blocks [OF assms(3,4) j, of a2 x] by blast
  ultimately show ?thesis using blocked_on_keeps [of j p _ s a s' a' k H] assms(6) by auto
qed

lemma nsys7_keeps:
  assumes "platform_ok pf" "shared_word pf k" "nucleus_inv s a" "currProc s = Some p"
  shows "\<exists>e s' a'. nsys7 pf x s = Some (e, s') \<and> keeps k H s a s' a'"
proof -
  have "isDeviceSemaphore pf (device_semaphore pf (of_nat NSUPPSEM))"
    by (rule isDeviceSemaphore_index [OF assms(1)]) simp
  then have "device_semaphore pf (of_nat NSUPPSEM) \<noteq> k" using assms(2) by (auto simp: shared_word_def)
  then show ?thesis using nsys7_blocks [OF assms(3,4), of pf x] blocked_on_keeps by fastforce
qed

lemma nsys10_keeps:
  assumes "nucleus_inv s a" "currProc s = Some p"
  shows "\<exists>e s' a'. nsys10 pf x s = Some (e, s') \<and> keeps k H s a s' a'"
proof -
  obtain e s' a' where h: "nsys10 pf x s = Some (e, s')" "nucleus_inv s' a'" "semds s' = semds s" "ram s' = ram s"
    and a': "a' = a \<or> (\<exists>q. a' = a\<lparr>a_ready := q\<rparr>)"
    using nsys10_alone [OF assms, of pf x] nsys10_yields [OF assms, of _ _ pf x] by (cases "a_ready a") blast+
  have "keeps k H s a s' a'"
    by (rule keepsI [OF h(2)]) (use a' h(3,4) waiting_frame [of s' s a' a] in \<open>auto simp: live_def\<close>)
  then show ?thesis using h(1) by blast
qed

lemma passUpOrDie_keeps:
  assumes "nucleus_inv s a" "currProc s = Some p" "trap_ok s a p"
    and "p_supportStruct (pcbs s p) = NULL \<Longrightarrow> desc a p \<inter> H = {}"
  shows "\<exists>e s' a'. passUpOrDie pf i s = Some (e, s') \<and> keeps k H s a s' a'"
proof (cases "p_supportStruct (pcbs s p) = NULL")
  case True
  then show ?thesis
    using nsys2_self_keeps [OF assms(1,2)] assms(2-4) by (simp add: passUpOrDie_def trap_ok_def)
next
  case False
  have "keeps k H s a (s\<lparr>supports := m\<rparr>) a" for m
    by (rule keeps_frame [OF assms(1)]) simp_all
  then show ?thesis using False assms(2) by (simp add: passUpOrDie_def Let_def) blast
qed

section \<open>Interrupts\<close>

lemma resume_keeps:
  assumes "nucleus_inv s a"
  shows "\<exists>e s' a'. resume pf s = Some (e, s') \<and> keeps k H s a s' a'"
proof -
  let ?q = "if currProc s = None then tl (a_ready a) else a_ready a"
  have q: "(if currProc s = None then a\<lparr>a_ready := tl (a_ready a)\<rparr> else a) = a\<lparr>a_ready := ?q\<rparr>" by simp
  obtain e s' where r: "resume pf s = Some (e, s')" "nucleus_inv s' (a\<lparr>a_ready := ?q\<rparr>)" "semds s' = semds s" "ram s' = ram s"
    using resume_inv [OF assms, of pf] unfolding q by blast
  then show ?thesis using keeps_ready by blast
qed

lemma signal_device_keeps:
  assumes "nucleus_inv s a" "j \<noteq> k"
  shows "\<exists>s' a'. signal_device pf j st s = Some s' \<and> keeps k H s a s' a'"
proof (cases "waiting s a j")
  case Nil
  have "keeps k H s a (s\<lparr>ram := (ram s)(j := ram s j + 1)\<rparr>) a"
    by (rule keeps_frame [OF assms(1)]) (use assms(2) in simp_all)
  then show ?thesis using signal_device_counts [OF nucleus_invD(3) [OF assms(1)] Nil] by blast
next
  case (Cons p q)
  from signal_device_wakes [OF assms(1) Cons, of pf st] obtain s' a' where
    w: "signal_device pf j st s = Some s'" "nucleus_inv s' a'" "woken j p s a s' a'" "ram s' = ram s"
    by (fastforce simp: Let_def)
  have "keeps k H s a s' a'"
    by (rule keepsI [OF w(2)]) (use w(3,4) woken_live [OF w(3)] assms(2) in \<open>simp_all add: woken_def\<close>)
  then show ?thesis using w(1) by blast
qed

lemma device_event_word:
  assumes "platform_ok pf" "shared_word pf k" "interrupt_line c = Some L" "pending_device b = Some N"
    and "device_event pf L N s = Some (st, command, idx)"
  shows "command \<noteq> k" "device_semaphore pf idx \<noteq> k"
proof -
  note LN = interrupt_line_range [OF assms(3)] pending_device_range [OF assms(4)]
  show "command \<noteq> k"
    using assms(2,5) LN unfolding shared_word_def device_event_def Let_def by (auto split: if_splits)
  have "idx < of_nat NRSEMAPHORES"
    using device_event_index(2) [OF assms(1) LN assms(5)] by (rule order_less_trans) simp
  then have "isDeviceSemaphore pf (device_semaphore pf idx)" by (rule isDeviceSemaphore_index [OF assms(1)])
  then show "device_semaphore pf idx \<noteq> k" using assms(2) by (auto simp: shared_word_def)
qed

lemma deviceInterruptHandler_keeps:
  assumes "platform_ok pf" "shared_word pf k" "nucleus_inv s a"
  shows "\<exists>e s' a'. deviceInterruptHandler pf c s = Some (e, s') \<and> keeps k H s a s' a'"
proof -
  have R: "deviceInterruptHandler pf c s = resume pf s \<or> (\<exists>L N st command idx. interrupt_line c = Some L \<and>
      pending_device (ram s (0x10000040 + (L - 3) * WORDLEN)) = Some N \<and> device_event pf L N s = Some (st, command, idx))"
    by (auto simp: deviceInterruptHandler_def Let_def split: option.splits)
  show ?thesis
  proof (cases "deviceInterruptHandler pf c s = resume pf s")
    case True
    then show ?thesis using resume_keeps [OF assms(3)] by simp
  next
    case False
    with R obtain L N st command idx where e: "interrupt_line c = Some L"
      "pending_device (ram s (0x10000040 + (L - 3) * WORDLEN)) = Some N" "device_event pf L N s = Some (st, command, idx)"
      by blast
    let ?s = "s\<lparr>ram := (ram s)(command := ACK pf)\<rparr>"
    note W = device_event_word [OF assms(1,2) e]
    have k: "keeps k H s a ?s a" by (rule keeps_frame [OF assms(3)]) (use W(1) in simp_all)
    then have n: "nucleus_inv ?s a" by (simp add: keeps_def)
    from signal_device_keeps [OF n W(2)] obtain s1 a1 where
      s1: "signal_device pf (device_semaphore pf idx) st ?s = Some s1" "keeps k H ?s a s1 a1" by blast
    then have "nucleus_inv s1 a1" by (simp add: keeps_def)
    from resume_keeps [OF this] obtain e' s' a' where s': "resume pf s1 = Some (e', s')" "keeps k H s1 a1 s' a'" by blast
    have "deviceInterruptHandler pf c s = Some (e', s')"
      using deviceInterruptHandler_event [OF e] s1(1) s'(1) by simp
    then show ?thesis using keeps_trans [OF keeps_trans [OF k s1(2)] s'(2)] by blast
  qed
qed

lemma interruptHandler_keeps:
  assumes "platform_ok pf" "shared_word pf k" "nucleus_inv s a"
    and "cause (states s (getCurrExceptionState pf)) AND CAUSE_EXCCODE_MASK pf = IL_CPUTIMER \<longrightarrow> currProc s \<noteq> None"
  shows "\<exists>e s' a'. interruptHandler pf s = Some (e, s') \<and> keeps k H s a s' a'"
proof -
  have plt: "\<exists>e s' a'. pltInterruptHandler pf s = Some (e, s') \<and> keeps k H s a s' a'" if p: "currProc s = Some p" for p
  proof -
    let ?a = "a\<lparr>a_ready := tl (prio_insert (prio s) p (a_ready a))\<rparr>"
    obtain e s' where h: "pltInterruptHandler pf s = Some (e, s')" "nucleus_inv s' ?a" "semds s' = semds s" "ram s' = ram s"
      using pltInterruptHandler_requeues [OF assms(3) p, of pf] by blast
    have "keeps k H s a s' ?a" by (rule keeps_ready [OF h(2-4)])
    then show ?thesis using h(1) by blast
  qed
  have it: "\<exists>e s' a'. itInterruptHandler pf s = Some (e, s') \<and> keeps k H s a s' a'"
  proof -
    have "isDeviceSemaphore pf (device_semaphore pf (of_nat NSUPPSEM))"
      by (rule isDeviceSemaphore_index [OF assms(1)]) simp
    then have j: "device_semaphore pf (of_nat NSUPPSEM) \<noteq> k" using assms(2) by (auto simp: shared_word_def)
    obtain e s' a' where h: "itInterruptHandler pf s = Some (e, s')" "nucleus_inv s' a'"
      "waiting s' a' = (waiting s a)(device_semaphore pf (of_nat NSUPPSEM) := [])"
      "ram s' = (ram s)(device_semaphore pf (of_nat NSUPPSEM) := 0)" "a_free a' = a_free a"
      using itInterruptHandler_wakes [OF assms(3) refl refl refl refl, of pf] by blast
    have "keeps k H s a s' a'" by (rule keepsI [OF h(2)]) (use h(3-5) j in \<open>auto simp: live_def\<close>)
    then show ?thesis using h(1) by blast
  qed
  have "keeps k H s a s a" by (rule keepsI) (simp_all add: assms(3))
  then show ?thesis
    using plt it deviceInterruptHandler_keeps [OF assms(1-3)] assms(4)
    by (auto simp: interruptHandler_def Let_def)
qed

section \<open>P and V on the semaphore\<close>

text \<open>The processor state changes between the exception and the service: the program counter moves.\<close>

lemma nsys3_held:
  assumes "nucleus_inv s a" "currProc s = Some p" "held k s a H" "p \<notin> H"
  shows "\<exists>e s' a'. nsys3 pf k x s = Some (e, s') \<and> nucleus_inv s' a' \<and>
    held k s' a' (if 0 < sint (ram s k) then insert p H else H)"
proof (cases "0 < sint (ram s k)")
  case True
  then have H: "H = {}" "ram s k = 1" "waiting s a k = []" using assms(3) by (auto simp: held_def)
  let ?s = "s\<lparr>ram := (ram s)(k := ram s k - 1)\<rparr>"
  have "nucleus_inv ?s a"
    using assms(1) ninv_frame [OF nucleus_invD(1) [OF assms(1)], of ?s] by (simp add: nucleus_inv_def count_ok_def)
  moreover have "held k ?s a {p}"
    using H current_not_blocked(1) [OF assms(1,2)] waiting_frame [of ?s s a a] by (simp add: held_def)
  ultimately show ?thesis using nsys3_takes [OF True, of pf x] True H(1) by auto
next
  case False
  then obtain q where H: "H = {q}" "ram s k = 0" using assms(3) by (auto simp: held_def)
  from nsys3_blocks [OF assms(1,2) False, of pf x] obtain e s' a' where
    b: "nsys3 pf k x s = Some (e, s')" "blocked_on k p (saved_pcb pf x s p) s a s' a'" "ram s' = ram s" by blast
  then have "held k s' a' H" using assms(3,4) H unfolding blocked_on_def held_def by (auto simp: live_def)
  then show ?thesis using b False by (auto simp: blocked_on_def)
qed

lemma nsys4_held:
  assumes "nucleus_inv s a" "held k s a H" "p \<in> H"
  shows "\<exists>s' a'. nsys4 k s = Some s' \<and> nucleus_inv s' a' \<and>
    held k s' a' ((H - {p}) \<union> (case headBlocked k s of Some (Some q) \<Rightarrow> {q} | _ \<Rightarrow> {}))"
proof -
  note W = nucleus_invD(3) [OF assms(1)]
  have H: "H = {p}" "ram s k = 0" using assms(2,3) by (auto simp: held_def)
  show ?thesis
  proof (cases "waiting s a k")
    case Nil
    let ?s = "s\<lparr>ram := (ram s)(k := ram s k + 1)\<rparr>"
    have "nucleus_inv ?s a"
      using assms(1) ninv_frame [OF nucleus_invD(1) [OF assms(1)], of ?s] by (simp add: nucleus_inv_def count_ok_def)
    moreover have "held k ?s a {}" using H Nil waiting_frame [of ?s s a a] by (simp add: held_def)
    ultimately show ?thesis
      using nsys4_increments [OF W Nil] H(1) Nil by (auto simp: headBlocked_eq [OF W])
  next
    case (Cons q r)
    from nsys4_wakes [OF assms(1) Cons] obtain l d a' where
      w: "nsys4 k s = Some (s\<lparr>links := l, semds := d\<rparr>)" "nucleus_inv (s\<lparr>links := l, semds := d\<rparr>) a'"
        "woken k q s a (s\<lparr>links := l, semds := d\<rparr>) a'" by blast
    have "q \<in> live a" using waiting_iff [OF W, of q k] wfD(1) [OF W] Cons by (auto simp: wf_pcbs_def)
    moreover have "q \<notin> set r" using waiting_distinct [OF W, of k] Cons by simp
    ultimately have "held k (s\<lparr>links := l, semds := d\<rparr>) a' {q}"
      using w(3) woken_live [OF w(3)] H Cons by (simp add: held_def woken_def)
    then show ?thesis using w H(1) Cons by (auto simp: headBlocked_eq [OF W])
  qed
qed

section \<open>The whole nucleus\<close>

lemma headBlocked_upd_state: "headBlocked k (upd_state x f s) = headBlocked k s"
proof -
  have "asl_find k (upd_state x f s) = asl_find k s" "headProcQ h (upd_state x f s) = headProcQ h s" for h
    by (simp_all add: asl_find_def headProcQ_def upd_state_def cong: if_cong)
  then show ?thesis by (simp add: headBlocked_def cong: option.case_cong)
qed

lemma held_upd_state [simp]:
  "nucleus_inv (upd_state x f s) a = nucleus_inv s a" "held k (upd_state x f s) a H = held k s a H"
  "keeps k H (upd_state x f s) a s' a' = keeps k H s a s' a'" "headBlocked k (upd_state x f s) = headBlocked k s"
  "ram (upd_state x f s) = ram s"
  using headBlocked_upd_state
  by (simp_all add: upd_state_def nucleus_inv_def ninv_def count_ok_def kwf_def wf_asl_def wf_tree_def held_def keeps_def
      waiting_def)

text \<open>The holders after the service \<open>n\<close> with argument \<open>a1\<close> for the process \<open>p\<close>.\<close>

definition served :: "u32 \<Rightarrow> kernel \<Rightarrow> nat set \<Rightarrow> nat \<Rightarrow> u32 \<Rightarrow> u32 \<Rightarrow> nat set" where
  "served k s H p n a1 =
    (if n = - 3 \<and> a1 = k then (if 0 < sint (ram s k) then insert p H else H)
     else if n = - 4 \<and> a1 = k then (H - {p}) \<union> (case headBlocked k s of Some (Some q) \<Rightarrow> {q} | _ \<Rightarrow> {})
     else H)"

lemma keeps_load_state:
  "keeps k H s a s' a' \<Longrightarrow> held k s a H \<Longrightarrow>
    \<exists>e t b. load_state x (upd_state y f s') = Some (e, t) \<and> nucleus_inv t b \<and> held k t b H"
  "keeps k H s a s' a' \<Longrightarrow> held k s a H \<Longrightarrow> \<exists>e t b. load_state x s' = Some (e, t) \<and> nucleus_inv t b \<and> held k t b H"
  using keeps_held [of k H s a s' a'] by (auto simp: load_state_def keeps_def)

lemma syscallHandler_held:
  assumes "platform_ok pf" "shared_word pf k" "nucleus_inv s a" "currProc s = Some p" "held k s a H"
    and "st = states s (getCurrExceptionState pf)" "is_nsys pf st"
    and "n = gpr st (gpr_a0 pf)" "a1 = gpr st (gpr_a1 pf)" "request_ok pf s a p n a1"
    and "n = - 2 \<Longrightarrow> if a1 = 0 then desc a p \<inter> H = {} else \<forall>q\<in>live a. p_pid (pcbs s q) = a1 \<longrightarrow> desc a q \<inter> H = {}"
    and "n = - 3 \<Longrightarrow> a1 = k \<Longrightarrow> p \<notin> H" "n = - 4 \<Longrightarrow> a1 = k \<Longrightarrow> p \<in> H" "n = - 5 \<Longrightarrow> a1 \<noteq> k"
  shows "\<exists>e s' a'. syscallHandler pf s = Some (e, s') \<and> nucleus_inv s' a' \<and> held k s' a' (served k s H p n a1)"
proof -
  let ?x = "getCurrExceptionState pf"
  let ?s = "upd_state ?x (\<lambda>st. st\<lparr>pc_epc := pc_epc st + WORDLEN\<rparr>) s"
  have I: "nucleus_inv ?s a" and C: "currProc ?s = Some p" and Hd: "held k ?s a H"
    using assms(3-5) by simp_all
  have range: "- 10 \<le> sint n" "sint n \<le> - 1" using assms(7,8) by (simp_all add: is_nsys_def)
  note eq = syscallHandler_eq [OF assms(6) refl assms(7,8) refl, unfolded Let_def, folded assms(9)]
  have done_if: ?thesis if "n \<noteq> - 3 \<or> a1 \<noteq> k" "n \<noteq> - 4 \<or> a1 \<noteq> k" "syscallHandler pf s = Some (e, s')"
    "keeps k H ?s a s' a'" for e s' a'
    using that keeps_held [OF that(4) Hd] by (auto simp: served_def keeps_def)
  consider (1) "n = - 1" | (2) "n = - 2" | (3) "n = - 3" | (4) "n = - 4" | (5) "n = - 5" | (6) "n = - 6 \<or> n = - 8 \<or> n = - 9"
    | (7) "n = - 7" | (10) "n = - 10" using nsys_range [OF range] by blast
  then show ?thesis
  proof cases
    case 1
    obtain r s' a' where k: "nsys1 pf a1 (gpr st (gpr_a2 pf)) (gpr st (gpr_a3 pf)) ?s = Some (r, s')" "keeps k H ?s a s' a'"
      using nsys1_keeps [OF I C] by blast
    have "syscallHandler pf s = load_state ?x (upd_state ?x (set_a0 pf r) s')" using eq 1 k(1) by simp
    then show ?thesis using keeps_load_state(1) [OF k(2) Hd] 1 by (simp add: served_def)
  next
    case 2
    have "if a1 = 0 then can_terminate ?s a p \<and> desc a p \<inter> H = {}
      else \<forall>q\<in>live a. p_pid (pcbs ?s q) = a1 \<longrightarrow> can_terminate ?s a q \<and> desc a q \<inter> H = {}"
      using assms(10,11) 2 by (simp add: request_ok_def split: if_splits)
    from nsys2_keeps [OF I C this] show ?thesis using eq 2 done_if by fastforce
  next
    case 3
    then show ?thesis
      using eq nsys3_held [OF I C Hd, of pf ?x] nsys3_keeps [OF I C, of a1 k pf ?x H] done_if assms(12)
      by (cases "a1 = k") (auto simp: served_def)
  next
    case 4
    have ?thesis if "a1 = k"
      using eq 4 that nsys4_held [OF I Hd, of p] assms(13) by (auto simp: served_def load_state_def)
    moreover have ?thesis if ne: "a1 \<noteq> k"
    proof -
      obtain s' a' where "nsys4 a1 ?s = Some s'" "keeps k H ?s a s' a'" using nsys4_keeps [OF I ne] by blast
      then show ?thesis using done_if [of _ s' a'] eq 4 ne by (simp add: load_state_def)
    qed
    ultimately show ?thesis by blast
  next
    case 5
    then have "device_sem_at pf (nsys5_index pf a1) \<noteq> None" using assms(10) by (simp add: request_ok_def)
    from nsys5_keeps [OF assms(1,2) I C this assms(14) [OF 5]] show ?thesis using eq 5 done_if by fastforce
  next
    case 6
    have "\<exists>f. syscallHandler pf s = load_state ?x (upd_state ?x f ?s)"
      using eq 6 C by (auto simp: nsys6_def nsys8_def nsys9_def split: option.split)
    then show ?thesis using 6 assms(3,5) by (auto simp: load_state_def served_def)
  next
    case 7
    then show ?thesis using eq nsys7_keeps [OF assms(1,2) I C, of ?x H] done_if by fastforce
  next
    case 10
    then show ?thesis using eq nsys10_keeps [OF I C, of pf ?x k H] done_if by fastforce
  qed
qed

lemma syscallHandler_trap_keeps:
  assumes "nucleus_inv s a" "currProc s = Some p" "trap_ok s a p"
    and "p_supportStruct (pcbs s p) = NULL \<Longrightarrow> desc a p \<inter> H = {}"
    and "\<not> is_nsys pf (states s (getCurrExceptionState pf))"
  shows "\<exists>e s' a'. syscallHandler pf s = Some (e, s') \<and> keeps k H s a s' a'"
proof -
  obtain f where "syscallHandler pf s = exc_trapHandler pf (upd_state (getCurrExceptionState pf) f s)"
    using syscallHandler_not_nsys [OF assms(5)] by blast
  moreover have "\<exists>e s' a'. exc_trapHandler pf (upd_state (getCurrExceptionState pf) f s) = Some (e, s') \<and>
      keeps k H (upd_state (getCurrExceptionState pf) f s) a s' a'"
    unfolding exc_trapHandler_def by (rule passUpOrDie_keeps [where p = p]) (use assms in simp_all)
  ultimately show ?thesis by simp
qed

lemma exceptionHandler_held:
  assumes "platform_ok pf" "shared_word pf k" "nucleus_inv s a" "held k s a H"
    and "admissible pf s a" "disciplined pf k s a H"
  shows "\<exists>e s' a'. exceptionHandler pf s = Some (e, s') \<and> nucleus_inv s' a' \<and> held k s' a' (holders pf k s H)"
proof -
  let ?st = "states s (getCurrExceptionState pf)"
  let ?c = "cause ?st AND CAUSE_EXCCODE_MASK pf"
  have same: ?thesis if "\<exists>e s' a'. exceptionHandler pf s = Some (e, s') \<and> keeps k H s a s' a'" "pending_service pf s = None"
    using that keeps_held [OF _ assms(4)] by (fastforce simp: holders_def keeps_def split: option.splits)
  show ?thesis
  proof (cases "CAUSE_IS_INT pf (cause ?st)")
    case True
    then show ?thesis
      using interruptHandler_keeps [OF assms(1-3), of H] assms(5)
      by (intro same) (simp_all add: exceptionHandler_def admissible_def pending_service_def Let_def)
  next
    case int: False
    then obtain p where p: "currProc s = Some p" using assms(5) by (auto simp: admissible_def Let_def split: option.splits)
    show ?thesis
    proof (cases "pending_service pf s")
      case None
      then have "trap_ok s a p" "p_supportStruct (pcbs s p) = NULL \<Longrightarrow> desc a p \<inter> H = {}"
        using assms(5,6) int p
        by (auto simp: admissible_def disciplined_def pending_service_def Let_def split: if_splits)
      note T = passUpOrDie_keeps [OF assms(3) p this] syscallHandler_trap_keeps [OF assms(3) p this]
      show ?thesis
        using None T int
        by (intro same) (auto simp: exceptionHandler_def exc_tlbHandler_def exc_trapHandler_def pending_service_def Let_def
            split: if_splits)
    next
      case (Some r)
      then have r: "?c = 8 \<or> ?c = 11" "is_nsys pf ?st" "r = (gpr ?st (gpr_a0 pf), gpr ?st (gpr_a1 pf))"
        by (auto simp: pending_service_def Let_def split: if_splits)
      then have "exceptionHandler pf s = syscallHandler pf s"
        using int by (auto simp: exceptionHandler_def Let_def)
      moreover have "holders pf k s H = served k s H p (gpr ?st (gpr_a0 pf)) (gpr ?st (gpr_a1 pf))"
        using Some p r(3) by (simp add: holders_def served_def)
      moreover have "request_ok pf s a p (gpr ?st (gpr_a0 pf)) (gpr ?st (gpr_a1 pf))"
        using assms(5) int p r(1,2) by (auto simp: admissible_def Let_def)
      ultimately show ?thesis
        using syscallHandler_held [OF assms(1-3) p assms(4) refl r(2) refl refl] assms(6) int Some p r(3)
        by (simp add: disciplined_def)
    qed
  qed
qed

section \<open>The system\<close>

text \<open>The word is not written by the processes between two activations of the nucleus.\<close>

definition usable :: "platform \<Rightarrow> u32 \<Rightarrow> kernel \<times> nat set \<Rightarrow> bool" where
  "usable pf k = (\<lambda>(s, H). \<forall>a. nucleus_inv s a \<longrightarrow> admissible pf s a \<and> disciplined pf k s a H)"

definition handle :: "platform \<Rightarrow> u32 \<Rightarrow> kernel \<times> nat set \<Rightarrow> (exit \<times> kernel \<times> nat set) option" where
  "handle pf k = (\<lambda>(s, H). map_option (\<lambda>(e, s'). (e, s', holders pf k s H)) (exceptionHandler pf s))"

inductive mstep :: "platform \<Rightarrow> u32 \<Rightarrow> kernel \<times> nat set \<Rightarrow> kernel \<times> nat set \<Rightarrow> bool" for pf k where
  mstep_run: "runs s s' \<Longrightarrow> ram s' k = ram s k \<Longrightarrow> mstep pf k (s, H) (s', H)"
| mstep_exception: "usable pf k (s, H) \<Longrightarrow> handle pf k (s, H) = Some (e, s', H') \<Longrightarrow> mstep pf k (s, H) (s', H')"
| mstep_refill: "uTLB_RefillHandler s = Some (e, s') \<Longrightarrow> mstep pf k (s, H) (s', H)"

inductive_cases mstepE: "mstep pf k x y"

definition mutex_init :: "platform \<Rightarrow> u32 \<Rightarrow> kernel \<times> nat set \<Rightarrow> bool" where
  "mutex_init pf k = (\<lambda>(s, H). platform_ok pf \<and> shared_word pf k \<and> H = {} \<and> ram s k = 1 \<and>
    (\<exists>a. nucleus_inv s a \<and> waiting s a k = []))"

definition mutex_inv :: "platform \<Rightarrow> u32 \<Rightarrow> kernel \<times> nat set \<Rightarrow> bool" where
  "mutex_inv pf k = (\<lambda>(s, H). platform_ok pf \<and> shared_word pf k \<and> (\<exists>a. nucleus_inv s a \<and> held k s a H))"

lemma handle_inv:
  assumes "mutex_inv pf k (s, H)" "usable pf k (s, H)"
  shows "\<exists>e y. handle pf k (s, H) = Some (e, y) \<and> mutex_inv pf k y"
  using assms exceptionHandler_held [of pf k s _ H] unfolding mutex_inv_def usable_def handle_def by fastforce

lemma quiet_inv:
  assumes "mutex_inv pf k (s, H)" "runs s s'" "ram s' k = ram s k"
  shows "mutex_inv pf k (s', H)"
proof -
  obtain a where a: "platform_ok pf" "shared_word pf k" "nucleus_inv s a" "held k s a H"
    using assms(1) by (auto simp: mutex_inv_def)
  have "keeps k H s a s' a" by (rule keeps_frame [OF a(3)]) (use assms(2,3) in \<open>simp_all add: runs_def\<close>)
  then show ?thesis using a keeps_held [OF _ a(4)] by (auto simp: mutex_inv_def keeps_def)
qed

lemma refill_runs: "uTLB_RefillHandler s = Some (e, s') \<Longrightarrow> runs s s' \<and> ram s' = ram s"
  by (auto simp: uTLB_RefillHandler_def runs_def Let_def bind_eq_Some_conv' split: if_splits)

interpretation mutex: responsive_system "mutex_init pf k" "mstep pf k" "mutex_inv pf k" "usable pf k" "handle pf k" for pf k
proof unfold_locales
  show "mutex_inv pf k x" if "mutex_init pf k x" for x
    using that by (auto simp: mutex_init_def mutex_inv_def held_def)
  show "mutex_inv pf k y" if i: "mutex_inv pf k x" and s: "mstep pf k x y" for x y
    using s by (rule mstepE) (use i quiet_inv refill_runs handle_inv in \<open>fastforce+\<close>)
  show "\<exists>e y. handle pf k x = Some (e, y) \<and> mstep pf k x y" if "mutex_inv pf k x" "usable pf k x" for x
    using that handle_inv [of pf k "fst x" "snd x"] mstep_exception [of pf k "fst x" "snd x"] by (cases x) fastforce
qed

end
