(* ===== verification/Props_Sharing.thy ===== *)
theory Props_Sharing
  imports Exclusion Samples
begin

text \<open>Mutual exclusion in the whole nucleus, with an instance in which a process has entered.\<close>

section \<open>A run\<close>







section \<open>The property\<close>



end
