(* ===== verification/P1test.thy ===== *)
theory P1test
  imports Asl
begin

text \<open>
  phase1/p1test.c: the test of the modules of phase 1. Its state is the kernel structures, the
  buffers and variables of the test, and the terminal. The text of a message ends with a newline;
  the model leaves the terminator out. A computation has no value (\<open>None\<close>) when it is undefined or
  does not return, which is also how adderrbuf ends.
\<close>

section \<open>The terminal\<close>

text \<open>
  What the test takes from the uRISCV library and from the linker, and the terminal: the value of
  the \<open>n\<close>-th read of a device register at an address.
\<close>

record tester =
  platform_of :: platform
  BUSY :: u32
  READY :: u32
  TRANSTATUS :: u32
  TRANCOMMAND :: u32
  DEVREGLEN :: u32
  read_register :: "nat \<Rightarrow> u32 \<Rightarrow> u32"
  adr_sem :: u32
  adr_onesem :: u32

abbreviation TRANSMITTED :: u32 where
  "TRANSMITTED \<equiv> 5"

abbreviation PRINTCHR :: u32 where
  "PRINTCHR \<equiv> 2"

abbreviation CHAROFFSET :: nat where
  "CHAROFFSET \<equiv> 8"

abbreviation STATUSMASK :: u32 where
  "STATUSMASK \<equiv> 0xFF"

abbreviation TERM0ADDR :: u32 where
  "TERM0ADDR \<equiv> 0x10000254"

record p1 =
  kern :: kernel
  okbuf :: string          \<comment> \<open>the characters up to \<open>mp\<close>\<close>
  errbuf :: string
  procp :: "nat \<Rightarrow> nat option"
  firstproc :: "nat option"
  midproc :: "nat option"
  lastproc :: "nat option"
  reads :: nat
  commands :: "(u32 \<times> u32) list"

definition termstat :: "tester \<Rightarrow> u32 \<Rightarrow> p1 \<Rightarrow> u32 \<times> p1" where
  "termstat tm stataddr t = (read_register tm (reads t) stataddr AND STATUSMASK, t\<lparr>reads := Suc (reads t)\<rparr>)"

text \<open>Busy waiting: the status is read until it is not BUSY.\<close>

partial_function (option) busy_wait :: "tester \<Rightarrow> u32 \<Rightarrow> p1 \<Rightarrow> (u32 \<times> p1) option" where
  "busy_wait tm statusp t =
    (let (st, t) = termstat tm statusp t
     in if st = BUSY tm then busy_wait tm statusp t else Some (st, t))"

text \<open>The print cycle; the result is whether there was an error.\<close>

primrec print_cycle :: "tester \<Rightarrow> u32 \<Rightarrow> u32 \<Rightarrow> string \<Rightarrow> p1 \<Rightarrow> (bool \<times> p1) option" where
  "print_cycle tm statusp commandp [] t = Some (False, t)"
| "print_cycle tm statusp commandp (c # str) t = do {
     let cmd = push_bit CHAROFFSET (of_char c) OR PRINTCHR;
     let t = t\<lparr>commands := commands t @ [(commandp, cmd)]\<rparr>;
     (st, t) \<leftarrow> busy_wait tm statusp t;
     if st \<noteq> TRANSMITTED then Some (True, t) else print_cycle tm statusp commandp str t
   }"

definition termprint :: "tester \<Rightarrow> string \<Rightarrow> u32 \<Rightarrow> p1 \<Rightarrow> (bool \<times> p1) option" where
  "termprint tm str trm t =
    (if trm < DEVPERINT (platform_of tm) then
       (let statusp = TERM0ADDR + trm * DEVREGSIZE (platform_of tm) + TRANSTATUS tm * DEVREGLEN tm;
            commandp = TERM0ADDR + trm * DEVREGSIZE (platform_of tm) + TRANCOMMAND tm * DEVREGLEN tm;
            (st, t) = termstat tm statusp t
        in if st = READY tm \<or> st = TRANSMITTED then do {
             (error, t) \<leftarrow> print_cycle tm statusp commandp str t;
             Some (\<not> error, t)
           } else Some (False, t))
     else Some (False, t))"

text \<open>The characters and the terminator are copied; outside the array of 2048 characters this is undefined.\<close>

definition addokbuf :: "tester \<Rightarrow> string \<Rightarrow> p1 \<Rightarrow> p1 option" where
  "addokbuf tm strp t = do {
     let strp = strp @ [CHR 0x0A];
     t \<leftarrow> (if length (okbuf t) + length strp < 2048 then Some (t\<lparr>okbuf := okbuf t @ strp\<rparr>) else None);
     (_, t) \<leftarrow> termprint tm strp 0 t;
     Some t
   }"

partial_function (option) forever :: "p1 \<Rightarrow> p1 option" where
  "forever t = forever t"

definition adderrbuf :: "tester \<Rightarrow> string \<Rightarrow> p1 \<Rightarrow> p1 option" where
  "adderrbuf tm strp t = do {
     t \<leftarrow> (if length strp < 128 then Some (t\<lparr>errbuf := strp\<rparr>) else None);
     (_, t) \<leftarrow> termprint tm strp 0 t;
     forever t
   }"

section \<open>The tests\<close>

text \<open>A call of an operation of phase 1, and a test with its message.\<close>

definition call :: "(kernel \<Rightarrow> ('r \<times> kernel) option) \<Rightarrow> p1 \<Rightarrow> ('r \<times> p1) option" where
  "call f t = do { (r, s) \<leftarrow> f (kern t); Some (r, t\<lparr>kern := s\<rparr>) }"

definition call_void :: "(kernel \<Rightarrow> kernel option) \<Rightarrow> p1 \<Rightarrow> p1 option" where
  "call_void f t = do { s \<leftarrow> f (kern t); Some (t\<lparr>kern := s\<rparr>) }"

text \<open>An assignment to an element of \<open>procp\<close>, and the switch that keeps three processes of the queue.\<close>

definition set_procp :: "nat \<Rightarrow> nat option \<Rightarrow> p1 \<Rightarrow> p1 option" where
  "set_procp i r t = Some (t\<lparr>procp := (procp t)(i := r)\<rparr>)"

definition keep_proc :: "nat \<Rightarrow> nat option \<Rightarrow> p1 \<Rightarrow> p1 option" where
  "keep_proc i q t = Some (if i = 0 then t\<lparr>firstproc := q\<rparr>
     else if i = 5 then t\<lparr>midproc := q\<rparr>
     else if i = 9 then t\<lparr>lastproc := q\<rparr> else t)"

definition expect :: "tester \<Rightarrow> bool \<Rightarrow> string \<Rightarrow> p1 \<Rightarrow> p1 option" where
  "expect tm ok msg t = (if ok then Some t else adderrbuf tm (msg @ [CHR 0x0A]) t)"

text \<open>The queue \<open>qa\<close> of the test is the list head \<open>ReadyQueue\<close>, which phase 1 does not use otherwise.\<close>

abbreviation (input) qa :: lnode where
  "qa \<equiv> ReadyQueue"

subsection \<open>Allocation\<close>

primrec alloc_loop :: "tester \<Rightarrow> nat list \<Rightarrow> p1 \<Rightarrow> p1 option" where
  "alloc_loop tm [] t = Some t"
| "alloc_loop tm (i # is) t = do {
     (r, t) \<leftarrow> call (allocPcb (platform_of tm)) t;
     t \<leftarrow> set_procp i r t;
     t \<leftarrow> expect tm (r \<noteq> None) ''allocPcb: unexpected NULL   '' t;
     alloc_loop tm is t
   }"

primrec free_loop :: "nat list \<Rightarrow> p1 \<Rightarrow> p1 option" where
  "free_loop [] t = Some t"
| "free_loop (i # is) t = do {
     p \<leftarrow> procp t i;
     t \<leftarrow> call_void (\<lambda>s. Some (freePcb p s)) t;
     free_loop is t
   }"

definition test_alloc :: "tester \<Rightarrow> p1 \<Rightarrow> p1 option" where
  "test_alloc tm t = do {
     t \<leftarrow> call_void (\<lambda>s. Some (initPcbs s)) t;
     t \<leftarrow> addokbuf tm ''Initialized process control blocks   '' t;
     t \<leftarrow> alloc_loop tm [0..<MAXPROC] t;
     (r, t) \<leftarrow> call (allocPcb (platform_of tm)) t;
     t \<leftarrow> expect tm (r = None) ''allocPcb: allocated more than MAXPROC entries   '' t;
     t \<leftarrow> addokbuf tm ''allocPcb ok   '' t;
     t \<leftarrow> free_loop [10..<MAXPROC] t;
     addokbuf tm ''freed 10 entries   '' t
   }"

subsection \<open>Process queues\<close>

primrec insert_loop :: "tester \<Rightarrow> nat list \<Rightarrow> p1 \<Rightarrow> p1 option" where
  "insert_loop tm [] t = Some t"
| "insert_loop tm (i # is) t = do {
     (q, t) \<leftarrow> call (allocPcb (platform_of tm)) t;
     t \<leftarrow> expect tm (q \<noteq> None) ''allocPcb: unexpected NULL while insert   '' t;
     t \<leftarrow> keep_proc i q t;
     p \<leftarrow> q;
     t \<leftarrow> call_void (insertProcQ qa p) t;
     insert_loop tm is t
   }"

primrec remove_loop :: "tester \<Rightarrow> nat \<Rightarrow> nat option \<Rightarrow> p1 \<Rightarrow> (nat option \<times> p1) option" where
  "remove_loop tm 0 q t = Some (q, t)"
| "remove_loop tm (Suc n) q t = do {
     (q, t) \<leftarrow> call (removeProcQ qa) t;
     t \<leftarrow> expect tm (q \<noteq> None) ''removeProcQ: unexpected NULL   '' t;
     p \<leftarrow> q;
     t \<leftarrow> call_void (\<lambda>s. Some (freePcb p s)) t;
     remove_loop tm n q t
   }"

definition test_insert :: "tester \<Rightarrow> p1 \<Rightarrow> p1 option" where
  "test_insert tm t = do {
     t \<leftarrow> call_void (\<lambda>s. Some (upd_links (INIT_LIST_HEAD qa) s)) t;
     t \<leftarrow> expect tm (emptyProcQ qa (kern t)) ''emptyProcQ: unexpected FALSE   '' t;
     t \<leftarrow> addokbuf tm ''Inserting...   '' t;
     t \<leftarrow> insert_loop tm [0..<10] t;
     t \<leftarrow> addokbuf tm ''inserted 10 elements   '' t;
     expect tm (\<not> emptyProcQ qa (kern t)) ''emptyProcQ: unexpected TRUE'' t
   }"

text \<open>The result is the value of \<open>q\<close>.\<close>

definition test_out :: "tester \<Rightarrow> p1 \<Rightarrow> (nat option \<times> p1) option" where
  "test_out tm t = do {
     h \<leftarrow> headProcQ qa (kern t);
     t \<leftarrow> expect tm (h = firstproc t) ''headProcQ failed   '' t;
     p \<leftarrow> firstproc t;
     (q, t) \<leftarrow> call (outProcQ qa p) t;
     t \<leftarrow> expect tm (\<not> (q = None \<or> q \<noteq> firstproc t)) ''outProcQ failed on first entry   '' t;
     p \<leftarrow> q;
     t \<leftarrow> call_void (\<lambda>s. Some (freePcb p s)) t;
     p \<leftarrow> midproc t;
     (q, t) \<leftarrow> call (outProcQ qa p) t;
     t \<leftarrow> expect tm (\<not> (q = None \<or> q \<noteq> midproc t)) ''outProcQ failed on middle entry   '' t;
     p \<leftarrow> q;
     t \<leftarrow> call_void (\<lambda>s. Some (freePcb p s)) t;
     p \<leftarrow> procp t 0;
     (r, t) \<leftarrow> call (outProcQ qa p) t;
     t \<leftarrow> expect tm (r = None) ''outProcQ failed on nonexistent entry   '' t;
     t \<leftarrow> addokbuf tm ''outProcQ ok   '' t;
     Some (q, t)
   }"

definition test_remove :: "tester \<Rightarrow> nat option \<Rightarrow> p1 \<Rightarrow> p1 option" where
  "test_remove tm q t = do {
     t \<leftarrow> addokbuf tm ''Removing...   '' t;
     (q, t) \<leftarrow> remove_loop tm 8 q t;
     t \<leftarrow> expect tm (q = lastproc t) ''removeProcQ: failed on last entry   '' t;
     (r, t) \<leftarrow> call (removeProcQ qa) t;
     t \<leftarrow> expect tm (r = None) ''removeProcQ: removes too many entries   '' t;
     expect tm (emptyProcQ qa (kern t)) ''emptyProcQ: unexpected FALSE   '' t
   }"

text \<open>A new process with a priority, put into the queue.\<close>

definition queue_new :: "tester \<Rightarrow> u32 \<Rightarrow> p1 \<Rightarrow> (nat \<times> p1) option" where
  "queue_new tm pr t = do {
     (r, t) \<leftarrow> call (allocPcb (platform_of tm)) t;
     p \<leftarrow> r;
     t \<leftarrow> call_void (\<lambda>s. Some (upd_pcb p (\<lambda>b. b\<lparr>p_prio := pr\<rparr>) s)) t;
     t \<leftarrow> call_void (insertProcQ qa p) t;
     Some (p, t)
   }"

definition remove_expect :: "tester \<Rightarrow> nat \<Rightarrow> string \<Rightarrow> p1 \<Rightarrow> p1 option" where
  "remove_expect tm p' msg t = do {
     (p, t) \<leftarrow> call (removeProcQ qa) t;
     expect tm (p = Some p') msg t
   }"

definition test_priority :: "tester \<Rightarrow> p1 \<Rightarrow> p1 option" where
  "test_priority tm t = do {
     t \<leftarrow> addokbuf tm ''Stating priority queue tests...   '' t;
     (p1, t) \<leftarrow> queue_new tm 20 t;
     (p2, t) \<leftarrow> queue_new tm 10 t;
     (p3, t) \<leftarrow> queue_new tm 5 t;
     (p2bis, t) \<leftarrow> queue_new tm 10 t;
     t \<leftarrow> remove_expect tm p1 ''removeProcQ: failed, wrong priority order for p1   '' t;
     t \<leftarrow> remove_expect tm p2 ''removeProcQ: failed, wrong priority order for p2   '' t;
     t \<leftarrow> remove_expect tm p2bis ''removeProcQ: failed, wrong priority order for p2bis   '' t;
     t \<leftarrow> remove_expect tm p3 ''removeProcQ: failed, wrong priority order for p3   '' t;
     t \<leftarrow> call_void (\<lambda>s. Some (freePcb p1 s)) t;
     t \<leftarrow> call_void (\<lambda>s. Some (freePcb p2 s)) t;
     t \<leftarrow> call_void (\<lambda>s. Some (freePcb p2bis s)) t;
     t \<leftarrow> call_void (\<lambda>s. Some (freePcb p3 s)) t;
     t \<leftarrow> addokbuf tm ''insertProcQ, removeProcQ and emptyProcQ ok   '' t;
     addokbuf tm ''process queues module ok      '' t
   }"

subsection \<open>Process trees\<close>

primrec child_loop :: "nat list \<Rightarrow> p1 \<Rightarrow> p1 option" where
  "child_loop [] t = Some t"
| "child_loop (i # is) t = do {
     t \<leftarrow> call_void (\<lambda>s. Some (insertChild (procp t 0) (procp t i) s)) t;
     child_loop is t
   }"

primrec remove_children :: "tester \<Rightarrow> nat \<Rightarrow> p1 \<Rightarrow> p1 option" where
  "remove_children tm 0 t = Some t"
| "remove_children tm (Suc n) t = do {
     (q, t) \<leftarrow> call (removeChild (procp t 0)) t;
     t \<leftarrow> expect tm (q \<noteq> None) ''removeChild: unexpected NULL   '' t;
     remove_children tm n t
   }"

definition test_insertChild :: "tester \<Rightarrow> p1 \<Rightarrow> p1 option" where
  "test_insertChild tm t = do {
     t \<leftarrow> addokbuf tm ''checking process trees...'' t;
     t \<leftarrow> expect tm (emptyChild (procp t 2) (kern t)) ''emptyChild: unexpected FALSE   '' t;
     t \<leftarrow> addokbuf tm ''Inserting...   '' t;
     t \<leftarrow> child_loop [1..<10] t;
     t \<leftarrow> addokbuf tm ''Inserted 9 children   '' t;
     expect tm (\<not> emptyChild (procp t 0) (kern t)) ''emptyChild: unexpected TRUE   '' t
   }"

definition test_outChild :: "tester \<Rightarrow> p1 \<Rightarrow> p1 option" where
  "test_outChild tm t = do {
     (q, t) \<leftarrow> call (\<lambda>s. Some (outChild (procp t 1) s)) t;
     t \<leftarrow> expect tm (\<not> (q = None \<or> q \<noteq> procp t 1)) ''outChild failed on first child   '' t;
     (q, t) \<leftarrow> call (\<lambda>s. Some (outChild (procp t 4) s)) t;
     t \<leftarrow> expect tm (\<not> (q = None \<or> q \<noteq> procp t 4)) ''outChild failed on middle child   '' t;
     (r, t) \<leftarrow> call (\<lambda>s. Some (outChild (procp t 0) s)) t;
     t \<leftarrow> expect tm (r = None) ''outChild failed on nonexistent child   '' t;
     addokbuf tm ''outChild ok   '' t
   }"

definition test_removeChild :: "tester \<Rightarrow> p1 \<Rightarrow> p1 option" where
  "test_removeChild tm t = do {
     t \<leftarrow> addokbuf tm ''Removing...   '' t;
     t \<leftarrow> remove_children tm 7 t;
     (r, t) \<leftarrow> call (removeChild (procp t 0)) t;
     t \<leftarrow> expect tm (r = None) ''removeChild: removes too many children   '' t;
     t \<leftarrow> expect tm (emptyChild (procp t 0) (kern t)) ''emptyChild: unexpected FALSE   '' t;
     t \<leftarrow> addokbuf tm ''insertChild, removeChild and emptyChild ok   '' t;
     t \<leftarrow> addokbuf tm ''process tree module ok      '' t;
     free_loop [0..<10] t
   }"

subsection \<open>Semaphores\<close>

text \<open>The address of \<open>sem[i]\<close>.\<close>

definition sem :: "tester \<Rightarrow> nat \<Rightarrow> u32" where
  "sem tm i = adr_sem tm + 4 * of_nat i"

primrec block_loop :: "tester \<Rightarrow> string \<Rightarrow> nat list \<Rightarrow> p1 \<Rightarrow> p1 option" where
  "block_loop tm msg [] t = Some t"
| "block_loop tm msg (i # is) t = do {
     (r, t) \<leftarrow> call (allocPcb (platform_of tm)) t;
     t \<leftarrow> set_procp i r t;
     p \<leftarrow> procp t i;
     (full, t) \<leftarrow> call (insertBlocked (sem tm i) p) t;
     t \<leftarrow> expect tm (\<not> full) msg t;
     block_loop tm msg is t
   }"

primrec move_loop :: "tester \<Rightarrow> nat list \<Rightarrow> p1 \<Rightarrow> p1 option" where
  "move_loop tm [] t = Some t"
| "move_loop tm (i # is) t = do {
     (q, t) \<leftarrow> call (removeBlocked (sem tm i)) t;
     t \<leftarrow> expect tm (q \<noteq> None) (''removeBlocked: wouldn'' @ [CHR 0x27] @ ''t remove   '') t;
     t \<leftarrow> expect tm (q = procp t i) ''removeBlocked: removed wrong element   '' t;
     p \<leftarrow> q;
     (full, t) \<leftarrow> call (insertBlocked (sem tm (i - 10)) p) t;
     t \<leftarrow> expect tm (\<not> full) ''insertBlocked(3): unexpected TRUE   '' t;
     move_loop tm is t
   }"

definition test_block :: "tester \<Rightarrow> p1 \<Rightarrow> p1 option" where
  "test_block tm t = do {
     t \<leftarrow> call_void (\<lambda>s. Some (initASL s)) t;
     t \<leftarrow> addokbuf tm ''Initialized active semaphore list   '' t;
     t \<leftarrow> addokbuf tm ''insertBlocked test #1 started  '' t;
     t \<leftarrow> block_loop tm ''insertBlocked(1): unexpected TRUE   '' [10..<MAXPROC] t;
     t \<leftarrow> addokbuf tm ''insertBlocked test #2 started  '' t;
     block_loop tm ''insertBlocked(2): unexpected TRUE   '' [0..<10] t
   }"

definition test_unblock :: "tester \<Rightarrow> p1 \<Rightarrow> p1 option" where
  "test_unblock tm t = do {
     (p, t) \<leftarrow> call (removeBlocked (sem tm 11)) t;
     p \<leftarrow> p;
     (full, t) \<leftarrow> call (insertBlocked (sem tm 11) p) t;
     t \<leftarrow> expect tm (\<not> full) ''removeBlocked: fails to return to free list   '' t;
     p \<leftarrow> procp t 9;
     (full, t) \<leftarrow> call (insertBlocked (adr_onesem tm) p) t;
     t \<leftarrow> expect tm full ''insertBlocked: inserted more than MAXPROC   '' t;
     t \<leftarrow> addokbuf tm ''removeBlocked test started   '' t;
     t \<leftarrow> move_loop tm [10..<MAXPROC] t;
     (q, t) \<leftarrow> call (removeBlocked (sem tm 11)) t;
     t \<leftarrow> expect tm (q = None) ''removeBlocked: removed nonexistent blocked proc   '' t;
     addokbuf tm ''insertBlocked and removeBlocked ok   '' t
   }"

definition test_head_out :: "tester \<Rightarrow> p1 \<Rightarrow> p1 option" where
  "test_head_out tm t = do {
     q \<leftarrow> headBlocked (sem tm 11) (kern t);
     t \<leftarrow> expect tm (q = None) ''headBlocked: nonNULL for a nonexistent queue   '' t;
     q \<leftarrow> headBlocked (sem tm 9) (kern t);
     t \<leftarrow> expect tm (q \<noteq> None) ''headBlocked(1): NULL for an existent queue   '' t;
     t \<leftarrow> expect tm (q = procp t 9) ''headBlocked(1): wrong process returned   '' t;
     p' \<leftarrow> q;
     (p, t) \<leftarrow> call (outBlocked p') t;
     t \<leftarrow> expect tm (p = q) (''outBlocked(1): couldn'' @ [CHR 0x27] @ ''t remove from valid queue   '') t;
     q \<leftarrow> headBlocked (sem tm 9) (kern t);
     t \<leftarrow> expect tm (q \<noteq> None) ''headBlocked(2): NULL for an existent queue   '' t;
     t \<leftarrow> expect tm (q = procp t 19) ''headBlocked(2): wrong process returned   '' t;
     p' \<leftarrow> q;
     (p, t) \<leftarrow> call (outBlocked p') t;
     t \<leftarrow> expect tm (p = q) (''outBlocked(2): couldn'' @ [CHR 0x27] @ ''t remove from valid queue   '') t;
     (p, t) \<leftarrow> call (outBlocked p') t;
     t \<leftarrow> expect tm (p = None) ''outBlocked: removed same process twice.'' t;
     q \<leftarrow> headBlocked (sem tm 9) (kern t);
     t \<leftarrow> expect tm (q = None) ''out/headBlocked: unexpected nonempty queue   '' t;
     t \<leftarrow> addokbuf tm ''headBlocked and outBlocked ok   '' t;
     t \<leftarrow> addokbuf tm ''ASL module ok   '' t;
     addokbuf tm ''So Long and Thanks for All the Fish'' t
   }"

definition p1test_main :: "tester \<Rightarrow> p1 \<Rightarrow> (u32 \<times> p1) option" where
  "p1test_main tm t = do {
     t \<leftarrow> test_alloc tm t;
     t \<leftarrow> test_insert tm t;
     (q, t) \<leftarrow> test_out tm t;
     t \<leftarrow> test_remove tm q t;
     t \<leftarrow> test_priority tm t;
     t \<leftarrow> test_insertChild tm t;
     t \<leftarrow> test_outChild tm t;
     t \<leftarrow> test_removeChild tm t;
     t \<leftarrow> test_block tm t;
     t \<leftarrow> test_unblock tm t;
     t \<leftarrow> test_head_out tm t;
     Some (0, t)
   }"

end
