(* ===== verification/P1_Run.thy ===== *)
theory P1_Run
  imports P1test Blocking
begin

text \<open>
  The run of the test of phase 1: rules that execute it step by step on a view of the state, in
  which the linked structures are plain lists.
\<close>

section \<open>The terminal\<close>

definition term0_status :: "tester \<Rightarrow> u32" where
  "term0_status tm = TERM0ADDR + 0 * DEVREGSIZE (platform_of tm) + TRANSTATUS tm * DEVREGLEN tm"

text \<open>The terminal does not stay busy for ever.\<close>

definition terminal_answers :: "tester \<Rightarrow> bool" where
  "terminal_answers tm \<longleftrightarrow> (\<forall>n. \<exists>m\<ge>n. read_register tm m (term0_status tm) AND STATUSMASK \<noteq> BUSY tm)"

lemma busy_wait_returns:
  assumes "terminal_answers tm"
  shows "\<exists>st r. busy_wait tm (term0_status tm) t = Some (st, t\<lparr>reads := r\<rparr>)"
proof -
  obtain m where m: "reads t \<le> m" "read_register tm m (term0_status tm) AND STATUSMASK \<noteq> BUSY tm"
    using assms by (auto simp: terminal_answers_def)
  show ?thesis
    using m
  proof (induction "m - reads t" arbitrary: t)
    case 0
    then show ?case by (subst busy_wait.simps) (auto simp: termstat_def)
  next
    case (Suc n)
    let ?t = "t\<lparr>reads := Suc (reads t)\<rparr>"
    have "n = m - reads ?t" "reads ?t \<le> m" using Suc.hyps(2) Suc.prems(1) by simp_all
    from Suc.hyps(1) [OF this m(2)] show ?case by (subst busy_wait.simps) (auto simp: termstat_def)
  qed
qed

lemma print_cycle_returns:
  assumes "terminal_answers tm"
  shows "\<exists>b r cs. print_cycle tm (term0_status tm) commandp str t = Some (b, t\<lparr>reads := r, commands := cs\<rparr>)"
proof (induction str arbitrary: t)
  case Nil
  have "t = t\<lparr>reads := reads t, commands := commands t\<rparr>" by simp
  then show ?case by (metis print_cycle.simps(1))
next
  case (Cons c str)
  let ?t = "t\<lparr>commands := commands t @ [(commandp, push_bit CHAROFFSET (of_char c) OR PRINTCHR)]\<rparr>"
  obtain st r where w: "busy_wait tm (term0_status tm) ?t = Some (st, ?t\<lparr>reads := r\<rparr>)"
    using busy_wait_returns [OF assms] by blast
  obtain b r' cs where IH: "print_cycle tm (term0_status tm) commandp str (?t\<lparr>reads := r\<rparr>) =
      Some (b, ?t\<lparr>reads := r\<rparr>\<lparr>reads := r', commands := cs\<rparr>)"
    using Cons.IH by blast
  have "\<exists>r' cs. ?t\<lparr>reads := r\<rparr> = t\<lparr>reads := r', commands := cs\<rparr>"
    by (intro exI [of _ r] exI [of _ "commands ?t"]) simp
  then show ?case
    using w IH by (cases "st = TRANSMITTED") (auto simp: Let_def)
qed

lemma termprint_returns:
  assumes "terminal_answers tm"
  shows "\<exists>b r cs. termprint tm str 0 t = Some (b, t\<lparr>reads := r, commands := cs\<rparr>)"
proof -
  let ?c = "TERM0ADDR + 0 * DEVREGSIZE (platform_of tm) + TRANCOMMAND tm * DEVREGLEN tm"
  obtain b r cs where p: "print_cycle tm (term0_status tm) ?c str (t\<lparr>reads := Suc (reads t)\<rparr>) =
      Some (b, t\<lparr>reads := r, commands := cs\<rparr>)"
    using print_cycle_returns [OF assms, of ?c str "t\<lparr>reads := Suc (reads t)\<rparr>"] by auto
  have "\<exists>r cs. t = t\<lparr>reads := r, commands := cs\<rparr>" "\<exists>r cs. t\<lparr>reads := n\<rparr> = t\<lparr>reads := r, commands := cs\<rparr>" for n
    by (rule exI [of _ "reads t"], rule exI [of _ "commands t"], simp)
      (rule exI [of _ n], rule exI [of _ "commands t"], simp)
  then show ?thesis
    using p unfolding termprint_def termstat_def term0_status_def Let_def by (auto simp del: mult_zero_left)
qed

section \<open>A view of the state\<close>

record view =
  v_free :: "nat list"
  v_queue :: "nat list option"               \<comment> \<open>the queue of the test, once initialised\<close>
  v_child :: "nat \<rightharpoonup> nat list"
  v_sibs :: "nat set"                         \<comment> \<open>the processes that may be on a list of children\<close>
  v_prio :: "nat \<Rightarrow> u32"
  v_parent :: "nat \<Rightarrow> nat option"
  v_procp :: "nat \<Rightarrow> nat option"
  v_first :: "nat option"
  v_mid :: "nat option"
  v_last :: "nat option"
  v_ok :: "string list"
  v_err :: string

fun fam :: "view \<Rightarrow> lnode \<Rightarrow> lnode list option" where
  "fam v PcbFree_h = Some (map P_list (v_free v))"
| "fam v ReadyQueue = map_option (map P_list) (v_queue v)"
| "fam v (P_child p) = map_option (map P_sib) (v_child v p)"
| "fam v _ = None"

text \<open>The messages of the test end with a newline and have fewer than 60 characters.\<close>

definition lines_of :: "string list \<Rightarrow> string" where
  "lines_of ms = concat (map (\<lambda>m. m @ [CHR 0x0A]) ms)"

lemma lines_of_snoc [simp]: "lines_of (ms @ [m]) = lines_of ms @ m @ [CHR 0x0A]"
  by (simp add: lines_of_def)

definition sim :: "p1 \<Rightarrow> view \<Rightarrow> bool" where
  "sim t v \<longleftrightarrow> rings (links (kern t)) (fam v) \<and> prio (kern t) = v_prio v \<and> parent (kern t) = v_parent v \<and>
    (\<forall>p cs. v_child v p = Some cs \<longrightarrow> set cs \<subseteq> v_sibs v) \<and>
    procp t = v_procp v \<and> firstproc t = v_first v \<and> midproc t = v_mid v \<and> lastproc t = v_last v \<and>
    okbuf t = lines_of (v_ok v) \<and> length (lines_of (v_ok v)) \<le> 60 * length (v_ok v) \<and>
    errbuf t = v_err v"

lemma nodes_fam:
  "P_list p \<in> nodes (fam v) \<longleftrightarrow> p \<in> set (v_free v) \<or> (\<exists>q. v_queue v = Some q \<and> p \<in> set q)"
  "P_sib c \<in> nodes (fam v) \<longleftrightarrow> (\<exists>p cs. v_child v p = Some cs \<and> c \<in> set cs)"
proof -
  show "P_list p \<in> nodes (fam v) \<longleftrightarrow> p \<in> set (v_free v) \<or> (\<exists>q. v_queue v = Some q \<and> p \<in> set q)"
    unfolding nodes_def mem_Collect_eq ex_lnode by auto
  show "P_sib c \<in> nodes (fam v) \<longleftrightarrow> (\<exists>p cs. v_child v p = Some cs \<and> c \<in> set cs)"
  proof
    assume "\<exists>p cs. v_child v p = Some cs \<and> c \<in> set cs"
    then obtain p cs where "fam v (P_child p) = Some (map P_sib cs)" "P_sib c \<in> set (P_child p # map P_sib cs)" by auto
    then show "P_sib c \<in> nodes (fam v)" unfolding nodes_def by blast
  qed (unfold nodes_def mem_Collect_eq ex_lnode, auto, blast)
qed

lemma members_fam: "P_child p \<notin> members (fam v)" "ReadyQueue \<notin> members (fam v)"
  unfolding members_def mem_Collect_eq ex_lnode by auto

lemma fam_upd:
  "fam (v\<lparr>v_free := f\<rparr>) = (fam v)(PcbFree_h \<mapsto> map P_list f)"
  "fam (v\<lparr>v_queue := Some q\<rparr>) = (fam v)(ReadyQueue \<mapsto> map P_list q)"
  "fam (v\<lparr>v_child := (v_child v)(p \<mapsto> cs)\<rparr>) = (fam v)(P_child p \<mapsto> map P_sib cs)"
  by (rule ext; case_tac x rule: lnode.exhaust; simp)+

lemma fam_other [simp]:
  "fam (v\<lparr>v_sibs := a\<rparr>) = fam v" "fam (v\<lparr>v_prio := b\<rparr>) = fam v" "fam (v\<lparr>v_parent := c\<rparr>) = fam v"
  "fam (v\<lparr>v_procp := d\<rparr>) = fam v" "fam (v\<lparr>v_first := e\<rparr>) = fam v" "fam (v\<lparr>v_mid := e\<rparr>) = fam v"
  "fam (v\<lparr>v_last := e\<rparr>) = fam v" "fam (v\<lparr>v_ok := g\<rparr>) = fam v"
  by (rule ext; case_tac x rule: lnode.exhaust; simp)+

section \<open>Rules\<close>

lemma returns_pair: "returns (f a b) Q \<Longrightarrow> returns (case (a, b) of (x, y) \<Rightarrow> f x y) Q"
  by simp

lemma returns_seq: "returns m P \<Longrightarrow> (\<And>x. P x \<Longrightarrow> returns (f x) Q) \<Longrightarrow> returns (Option.bind m f) Q"
  by (auto simp: returns_def)

named_theorems p1_rules

text \<open>The variables of the test, as the view gives them.\<close>

definition vars :: "p1 \<Rightarrow> view \<Rightarrow> bool" where
  "vars t v \<longleftrightarrow> procp t = v_procp v \<and> firstproc t = v_first v \<and> midproc t = v_mid v \<and> lastproc t = v_last v"

lemma sim_vars: "sim t v \<Longrightarrow> vars t v"
  by (simp add: sim_def vars_def)

lemma sim_kern:
  assumes "sim t v" "rings (links s) (fam v')" "prio s = v_prio v'" "parent s = v_parent v'"
    and "\<And>p cs. v_child v' p = Some cs \<Longrightarrow> set cs \<subseteq> v_sibs v'"
    and "v_procp v' = v_procp v" "v_first v' = v_first v" "v_mid v' = v_mid v" "v_last v' = v_last v"
    and "v_ok v' = v_ok v" "v_err v' = v_err v"
  shows "sim (t\<lparr>kern := s\<rparr>) v'"
  using assms by (simp add: sim_def)

text \<open>Messages, tests and assignments.\<close>

lemma addokbuf_rule [p1_rules]:
  assumes "sim t v" "terminal_answers tm \<and> length s < 60 \<and> length (v_ok v) < 33"
    and "\<And>t'. sim t' (v\<lparr>v_ok := v_ok v @ [s]\<rparr>) \<Longrightarrow> vars t' v \<Longrightarrow> Q t'"
  shows "returns (addokbuf tm s t) Q"
proof -
  let ?t = "t\<lparr>okbuf := okbuf t @ s @ [CHR 0x0A]\<rparr>"
  obtain b r cs where p: "termprint tm (s @ [CHR 0x0A]) 0 ?t = Some (b, ?t\<lparr>reads := r, commands := cs\<rparr>)"
    using termprint_returns assms(2) by blast
  have l: "okbuf t = lines_of (v_ok v)" "length (lines_of (v_ok v)) \<le> 60 * length (v_ok v)"
    using assms(1) by (simp_all add: sim_def)
  have "sim (?t\<lparr>reads := r, commands := cs\<rparr>) (v\<lparr>v_ok := v_ok v @ [s]\<rparr>)"
    using assms(1,2) l by (simp add: sim_def)
  moreover from this have "vars (?t\<lparr>reads := r, commands := cs\<rparr>) v" by (simp add: sim_def vars_def)
  ultimately show ?thesis
    using p assms(2,3) l by (simp add: returns_def addokbuf_def Let_def)
qed

lemma expect_rule [p1_rules]: "ok \<Longrightarrow> Q t \<Longrightarrow> returns (expect tm ok msg t) Q"
  by (simp add: returns_def expect_def)

lemma set_procp_rule [p1_rules]:
  assumes "sim t v" "\<And>t'. sim t' (v\<lparr>v_procp := (v_procp v)(i := r)\<rparr>) \<Longrightarrow> vars t' (v\<lparr>v_procp := (v_procp v)(i := r)\<rparr>) \<Longrightarrow> Q t'"
  shows "returns (set_procp i r t) Q"
  using assms by (simp add: returns_def set_procp_def sim_def vars_def)

text \<open>Allocation.\<close>

definition v_alloc :: "view \<Rightarrow> view" where
  "v_alloc v = (case v_free v of [] \<Rightarrow> v | p # f \<Rightarrow>
     v\<lparr>v_free := f, v_child := (v_child v)(p \<mapsto> []), v_prio := (v_prio v)(p := 0), v_parent := (v_parent v)(p := None)\<rparr>)"

lemma v_alloc_fields [simp]:
  "v_procp (v_alloc v) = v_procp v" "v_ok (v_alloc v) = v_ok v" "v_free (v_alloc v) = tl (v_free v)"
  "v_queue (v_alloc v) = v_queue v" "v_sibs (v_alloc v) = v_sibs v" "v_err (v_alloc v) = v_err v"
  by (simp_all add: v_alloc_def split: list.split)

definition head_opt :: "nat list \<Rightarrow> nat option" where
  "head_opt xs = (case xs of [] \<Rightarrow> None | p # _ \<Rightarrow> Some p)"

lemma head_opt_simps [simp]: "head_opt [] = None" "head_opt (p # q) = Some p"
  by (simp_all add: head_opt_def)

lemma alloc_sim:
  assumes "sim t v" "v_free v = p # f" "p \<notin> v_sibs v"
  shows "\<exists>s'. allocPcb pf (kern t) = Some (Some p, s') \<and> sim (t\<lparr>kern := s'\<rparr>) (v_alloc v)"
proof -
  let ?s = "kern t"
  let ?l = "list_del (P_list p) (links ?s)"
  let ?l' = "INIT_LIST_HEAD (P_sib p) (INIT_LIST_HEAD (P_child p) (INIT_LIST_HEAD (P_list p) ?l))"
  let ?s' = "?s\<lparr>links := ?l', pcbs := (pcbs ?s)(p := fresh_pcb pf (next_pid ?s) (pcbs ?s p)), next_pid := next_pid ?s + 1\<rparr>"
  have R: "rings (links ?s) (fam v)" and C: "\<And>q cs. v_child v q = Some cs \<Longrightarrow> set cs \<subseteq> v_sibs v"
    using assms(1) by (auto simp: sim_def)
  have "allocPcb pf ?s = Some (Some p, ?s')"
    using rings_list_next [OF R, of PcbFree_h] assms(2) by (simp add: allocPcb_def initPcb_eq upd_links_def)
  moreover have "rings ?l' (fam (v_alloc v))"
  proof -
    have "rings ?l (fam (v\<lparr>v_free := f\<rparr>))"
      using rings_list_del [OF R, of PcbFree_h _ "P_list p"] assms(2) by (simp add: fam_upd)
    moreover have "P_list p \<notin> nodes (fam (v\<lparr>v_free := f\<rparr>))"
      using rings_distinct [OF R, of PcbFree_h] rings_unique_list [OF R, of PcbFree_h _ ReadyQueue _ "P_list p"] assms(2)
      by (fastforce simp: nodes_fam distinct_map)
    ultimately have "rings (INIT_LIST_HEAD (P_list p) ?l) (fam (v\<lparr>v_free := f\<rparr>))" by (rule rings_INIT_free_node)
    then have "rings (INIT_LIST_HEAD (P_child p) (INIT_LIST_HEAD (P_list p) ?l))
        (fam (v\<lparr>v_free := f, v_child := (v_child v)(p \<mapsto> [])\<rparr>))"
      using rings_INIT_LIST_HEAD [OF _ members_fam(1)] fam_upd(3) [of "v\<lparr>v_free := f\<rparr>" p "[]"] by simp
    moreover have "P_sib p \<notin> nodes (fam (v\<lparr>v_free := f, v_child := (v_child v)(p \<mapsto> [])\<rparr>))"
      using C assms(3) by (auto simp: nodes_fam split: if_splits)
    ultimately show ?thesis by (simp add: v_alloc_def assms(2) rings_INIT_free_node)
  qed
  then have "sim (t\<lparr>kern := ?s'\<rparr>) (v_alloc v)"
    by (intro sim_kern [OF assms(1)]) (use assms(1) in \<open>auto simp: sim_def v_alloc_def assms(2) fresh_pcb_def fun_eq_iff split: if_splits\<close>)
  ultimately show ?thesis by blast
qed

lemma alloc_rule [p1_rules]:
  assumes "sim t v" "case v_free v of [] \<Rightarrow> True | p # f \<Rightarrow> p \<notin> v_sibs v"
    and "\<And>t'. sim t' (v_alloc v) \<Longrightarrow> vars t' v \<Longrightarrow> Q (head_opt (v_free v), t')"
  shows "returns (call (allocPcb pf) t) Q"
proof (cases "v_free v")
  case Nil
  then have "allocPcb pf (kern t) = Some (None, kern t)" "v_alloc v = v"
    using assms(1) rings_list_next [of "links (kern t)" "fam v" PcbFree_h] by (simp_all add: allocPcb_def sim_def v_alloc_def)
  then show ?thesis using assms(1,3) Nil sim_vars [OF assms(1)] by (simp add: returns_def call_def)
next
  case (Cons p f)
  then obtain s' where s': "allocPcb pf (kern t) = Some (Some p, s')" "sim (t\<lparr>kern := s'\<rparr>) (v_alloc v)"
    using alloc_sim [OF assms(1)] assms(2) by fastforce
  moreover have "vars (t\<lparr>kern := s'\<rparr>) v" using sim_vars [OF assms(1)] by (simp add: vars_def)
  ultimately show ?thesis using assms(3) Cons by (simp add: returns_def call_def)
qed

lemma free_rule [p1_rules]:
  assumes "sim t v" "p \<notin> set (v_free v) \<and> (case v_queue v of None \<Rightarrow> True | Some q \<Rightarrow> p \<notin> set q)"
    and "\<And>t'. sim t' (v\<lparr>v_free := p # v_free v\<rparr>) \<Longrightarrow> vars t' v \<Longrightarrow> Q t'"
  shows "returns (call_void (\<lambda>s. Some (freePcb p s)) t) Q"
proof -
  have "P_list p \<notin> nodes (fam v)" using assms(2) by (auto simp: nodes_fam)
  then have "rings (links (freePcb p (kern t))) (fam (v\<lparr>v_free := p # v_free v\<rparr>))"
    using assms(1) rings_list_add [of "links (kern t)" "fam v" PcbFree_h] by (simp add: sim_def freePcb_def fam_upd)
  then have "sim (t\<lparr>kern := freePcb p (kern t)\<rparr>) (v\<lparr>v_free := p # v_free v\<rparr>)"
    by (intro sim_kern [OF assms(1)]) (use assms(1) in \<open>auto simp: sim_def freePcb_def\<close>)
  moreover have "vars (t\<lparr>kern := freePcb p (kern t)\<rparr>) v" using sim_vars [OF assms(1)] by (simp add: vars_def)
  ultimately show ?thesis using assms(3) by (simp add: returns_def call_void_def)
qed

text \<open>Queues.\<close>

lemma keep_vars: "sim t v \<Longrightarrow> vars (t\<lparr>kern := s\<rparr>) v"
  by (simp add: sim_def vars_def)

lemma queue_init_rule [p1_rules]:
  assumes "sim t v" "\<And>t'. sim t' (v\<lparr>v_queue := Some []\<rparr>) \<Longrightarrow> vars t' v \<Longrightarrow> Q t'"
  shows "returns (call_void (\<lambda>s. Some (upd_links (INIT_LIST_HEAD qa) s)) t) Q"
proof -
  have "rings (links (upd_links (INIT_LIST_HEAD qa) (kern t))) (fam (v\<lparr>v_queue := Some []\<rparr>))"
    using assms(1) rings_INIT_LIST_HEAD [OF _ members_fam(2), of "links (kern t)" v] by (simp add: sim_def fam_upd)
  then have "sim (t\<lparr>kern := upd_links (INIT_LIST_HEAD qa) (kern t)\<rparr>) (v\<lparr>v_queue := Some []\<rparr>)"
    by (rule sim_kern [OF assms(1)]) (use assms(1) in \<open>auto simp: sim_def\<close>)
  then show ?thesis using assms(2) keep_vars [OF assms(1)] by (simp add: returns_def call_void_def)
qed

definition v_keep :: "nat \<Rightarrow> nat option \<Rightarrow> view \<Rightarrow> view" where
  "v_keep i r v = (if i = 0 then v\<lparr>v_first := r\<rparr> else if i = 5 then v\<lparr>v_mid := r\<rparr> else if i = 9 then v\<lparr>v_last := r\<rparr> else v)"

lemma v_keep_fields [simp]:
  "v_free (v_keep i r v) = v_free v" "v_queue (v_keep i r v) = v_queue v" "v_prio (v_keep i r v) = v_prio v"
  "v_sibs (v_keep i r v) = v_sibs v" "v_procp (v_keep i r v) = v_procp v" "v_ok (v_keep i r v) = v_ok v"
  "v_err (v_keep i r v) = v_err v"
  by (simp_all add: v_keep_def)

lemma keep_proc_rule [p1_rules]:
  assumes "sim t v" "\<And>t'. sim t' (v_keep i r v) \<Longrightarrow> vars t' (v_keep i r v) \<Longrightarrow> Q t'"
  shows "returns (keep_proc i r t) Q"
  using assms by (simp add: returns_def keep_proc_def sim_def vars_def v_keep_def split: if_splits)

lemma sim_queue:
  assumes "sim t v" "v_queue v = Some q"
  shows "rings (links (kern t)) (fam v)" "fam v ReadyQueue = Some (map P_list q)"
  using assms by (simp_all add: sim_def)

lemma sim_emptyProcQ:
  "sim t v \<Longrightarrow> v_queue v = Some [] \<Longrightarrow> emptyProcQ qa (kern t)"
  "sim t v \<Longrightarrow> v_queue v = Some (p # q) \<Longrightarrow> \<not> emptyProcQ qa (kern t)"
  using emptyProcQ_iff [OF sim_queue] by blast+

lemma head_rule [p1_rules]:
  assumes "sim t v" "v_queue v = Some q" "Q (head_opt q)"
  shows "returns (headProcQ qa (kern t)) Q"
  using headProcQ_eq [OF sim_queue [OF assms(1,2)]] assms(3) by (simp add: returns_def head_opt_def)

text \<open>A change of the links that leaves everything but the queue alone.\<close>

lemma sim_relink_queue:
  assumes "sim t v" "rings l ((fam v)(ReadyQueue \<mapsto> map P_list q))"
  shows "sim (t\<lparr>kern := (kern t)\<lparr>links := l\<rparr>\<rparr>) (v\<lparr>v_queue := Some q\<rparr>)"
  by (rule sim_kern [OF assms(1)]) (use assms in \<open>auto simp: sim_def fam_upd\<close>)

lemma insert_rule [p1_rules]:
  assumes "sim t v" "v_queue v = Some q" "p \<notin> set (v_free v) \<and> p \<notin> set q"
    and "\<And>t'. sim t' (v\<lparr>v_queue := Some (prio_insert (v_prio v) p q)\<rparr>) \<Longrightarrow> vars t' v \<Longrightarrow> Q t'"
  shows "returns (call_void (insertProcQ qa p) t) Q"
proof -
  have "P_list p \<notin> nodes (fam v)" using assms(2,3) by (simp add: nodes_fam)
  from insertProcQ_eq [OF sim_queue [OF assms(1,2)] this] obtain l where
    l: "insertProcQ ReadyQueue p (kern t) = Some ((kern t)\<lparr>links := l\<rparr>)"
      "rings l ((fam v)(ReadyQueue \<mapsto> map P_list (prio_insert (prio (kern t)) p q)))" by blast
  moreover have "prio (kern t) = v_prio v" using assms(1) by (simp add: sim_def)
  ultimately show ?thesis
    using assms(4) sim_relink_queue [OF assms(1)] keep_vars [OF assms(1)] by (simp add: returns_def call_void_def)
qed

lemma remove_rule [p1_rules]:
  assumes "sim t v" "v_queue v = Some q" "\<And>t'. sim t' (v\<lparr>v_queue := Some (tl q)\<rparr>) \<Longrightarrow> vars t' v \<Longrightarrow> Q (head_opt q, t')"
  shows "returns (call (removeProcQ qa) t) Q"
proof (cases q)
  case Nil
  have "v\<lparr>v_queue := Some []\<rparr> = v" using assms(2) Nil by (cases v) simp
  then show ?thesis
    using removeProcQ_Nil [of "kern t" "fam v" qa] sim_queue [OF assms(1,2)] assms(1,3) Nil sim_vars [OF assms(1)]
    by (simp add: returns_def call_def)
next
  case (Cons p r)
  obtain l where "removeProcQ qa (kern t) = Some (Some p, (kern t)\<lparr>links := l\<rparr>)"
    "rings l ((fam v)(ReadyQueue \<mapsto> map P_list r))"
    using removeProcQ_Cons [OF sim_queue(1) [OF assms(1,2)], of qa p r] sim_queue(2) [OF assms(1,2)] Cons by blast
  then show ?thesis
    using assms(3) Cons sim_relink_queue [OF assms(1)] keep_vars [OF assms(1)] by (simp add: returns_def call_def)
qed

lemma out_rule [p1_rules]:
  assumes "sim t v" "v_queue v = Some q"
    and "\<And>t'. sim t' (v\<lparr>v_queue := Some (remove1 p q)\<rparr>) \<Longrightarrow> vars t' v \<Longrightarrow> Q (if p \<in> set q then Some p else None, t')"
  shows "returns (call (outProcQ qa p) t) Q"
  using outProcQ_eq [OF sim_queue [OF assms(1,2)], of p] assms(3) sim_relink_queue [OF assms(1)] keep_vars [OF assms(1)]
  by (auto simp: returns_def call_def)

lemma prio_rule [p1_rules]:
  assumes "sim t v" "\<And>t'. sim t' (v\<lparr>v_prio := (v_prio v)(p := n)\<rparr>) \<Longrightarrow> vars t' v \<Longrightarrow> Q t'"
  shows "returns (call_void (\<lambda>s. Some (upd_pcb p (\<lambda>b. b\<lparr>p_prio := n\<rparr>) s)) t) Q"
proof -
  have "sim (t\<lparr>kern := upd_pcb p (\<lambda>b. b\<lparr>p_prio := n\<rparr>) (kern t)\<rparr>) (v\<lparr>v_prio := (v_prio v)(p := n)\<rparr>)"
    using assms(1) by (auto simp: sim_def fun_eq_iff)
  then show ?thesis using assms(2) keep_vars [OF assms(1)] by (simp add: returns_def call_void_def)
qed

text \<open>Trees.\<close>

lemma sim_child: "sim t v \<Longrightarrow> v_child v p = Some cs \<Longrightarrow> emptyChild (Some p) (kern t) = (cs = [])"
  using rings_list_empty [of "links (kern t)" "fam v" "P_child p"] by (simp add: sim_def emptyChild_def)

lemma sim_emptyChild:
  "sim t v \<Longrightarrow> v_child v p = Some [] \<Longrightarrow> emptyChild (Some p) (kern t)"
  "sim t v \<Longrightarrow> v_child v p = Some (c # cs) \<Longrightarrow> \<not> emptyChild (Some p) (kern t)"
  by (simp_all add: sim_child)

lemma insertChild_rule [p1_rules]:
  assumes "sim t v" "v_child v q = Some cs" "c \<notin> v_sibs v"
    and "\<And>t'. sim t' (v\<lparr>v_child := (v_child v)(q \<mapsto> c # cs), v_sibs := insert c (v_sibs v), v_parent := (v_parent v)(c := Some q)\<rparr>) \<Longrightarrow>
      vars t' v \<Longrightarrow> Q t'"
  shows "returns (call_void (\<lambda>s. Some (insertChild (Some q) (Some c) s)) t) Q"
proof -
  have R: "rings (links (kern t)) (fam v)" and C: "\<And>p cs. v_child v p = Some cs \<Longrightarrow> set cs \<subseteq> v_sibs v"
    using assms(1) by (auto simp: sim_def)
  have "P_sib c \<notin> nodes (fam v)" using C assms(3) by (auto simp: nodes_fam)
  then have "rings (list_add (P_sib c) (P_child q) (links (kern t))) (fam (v\<lparr>v_child := (v_child v)(q \<mapsto> c # cs)\<rparr>))"
    using rings_list_add [OF R, of "P_child q"] assms(2) by (simp add: fam_upd)
  then have "sim (t\<lparr>kern := insertChild (Some q) (Some c) (kern t)\<rparr>)
    (v\<lparr>v_child := (v_child v)(q \<mapsto> c # cs), v_sibs := insert c (v_sibs v), v_parent := (v_parent v)(c := Some q)\<rparr>)"
    by (intro sim_kern [OF assms(1)])
      (use assms(1) C [OF assms(2)] C in \<open>auto simp: sim_def insertChild_def Let_def fun_eq_iff split: if_splits\<close>)
  then show ?thesis using assms(4) keep_vars [OF assms(1)] by (simp add: returns_def call_void_def)
qed

lemma detach_sim:
  assumes "sim t v" "v_child v q = Some cs" "c \<in> set cs"
    and "s = (kern t)\<lparr>links := list_del (P_sib c) (links (kern t)), pcbs := (pcbs (kern t))(c := (pcbs (kern t) c)\<lparr>p_parent := None\<rparr>)\<rparr>"
  shows "sim (t\<lparr>kern := s\<rparr>) (v\<lparr>v_child := (v_child v)(q \<mapsto> remove1 c cs), v_parent := (v_parent v)(c := None)\<rparr>)"
proof -
  have R: "rings (links (kern t)) (fam v)" and C: "\<And>p cs. v_child v p = Some cs \<Longrightarrow> set cs \<subseteq> v_sibs v"
    using assms(1) by (auto simp: sim_def)
  have "remove1 (P_sib c) (map P_sib cs) = map P_sib (remove1 c cs)" by (simp add: remove1_map_inj inj_def)
  then have "rings (links s) (fam (v\<lparr>v_child := (v_child v)(q \<mapsto> remove1 c cs)\<rparr>))"
    using rings_list_del [OF R, of "P_child q" _ "P_sib c"] assms(2-4) by (simp add: fam_upd)
  then show ?thesis
    by (intro sim_kern [OF assms(1)])
      (use assms(1,4) C [OF assms(2)] C set_remove1_subset [of c cs] in \<open>auto simp: sim_def fun_eq_iff split: if_splits\<close>)
qed

lemma outChild_rule [p1_rules]:
  assumes "sim t v" "case v_parent v c of None \<Rightarrow> True | Some q \<Rightarrow> (case v_child v q of None \<Rightarrow> False | Some cs \<Rightarrow> c \<in> set cs)"
    and "\<And>t'. sim t' (case v_parent v c of None \<Rightarrow> v
        | Some q \<Rightarrow> v\<lparr>v_child := (v_child v)(q \<mapsto> remove1 c (the (v_child v q))), v_parent := (v_parent v)(c := None)\<rparr>) \<Longrightarrow>
      vars t' v \<Longrightarrow> Q (map_option (\<lambda>_. c) (v_parent v c), t')"
  shows "returns (call (\<lambda>s. Some (outChild (Some c) s)) t) Q"
proof (cases "v_parent v c")
  case None
  then have "outChild (Some c) (kern t) = (None, kern t)" using assms(1) by (simp add: sim_def fun_eq_iff outChild_def)
  then show ?thesis using assms(1,3) None sim_vars [OF assms(1)] by (simp add: returns_def call_def)
next
  case (Some q)
  then obtain cs where cs: "v_child v q = Some cs" "c \<in> set cs" using assms(2) by (auto split: option.splits)
  have "parent (kern t) c = Some q" using assms(1) Some by (simp add: sim_def fun_eq_iff)
  then have "outChild (Some c) (kern t) = (Some c, (kern t)\<lparr>links := list_del (P_sib c) (links (kern t)),
      pcbs := (pcbs (kern t))(c := (pcbs (kern t) c)\<lparr>p_parent := None\<rparr>)\<rparr>)"
    by (simp add: outChild_def upd_links_def upd_pcb_def Let_def)
  then show ?thesis
    using assms(3) Some cs detach_sim [OF assms(1) cs refl] keep_vars [OF assms(1)] by (simp add: returns_def call_def)
qed

lemma removeChild_rule [p1_rules]:
  assumes "sim t v" "v_child v q = Some cs"
    and "\<And>t'. sim t' (case cs of [] \<Rightarrow> v | c # ds \<Rightarrow> v\<lparr>v_child := (v_child v)(q \<mapsto> ds), v_parent := (v_parent v)(c := None)\<rparr>) \<Longrightarrow>
      vars t' v \<Longrightarrow> Q (head_opt cs, t')"
  shows "returns (call (removeChild (Some q)) t) Q"
proof (cases cs)
  case Nil
  then show ?thesis
    using assms(1,3) sim_child [OF assms(1,2)] sim_vars [OF assms(1)] by (simp add: returns_def call_def removeChild_def)
next
  case (Cons c ds)
  have "list_next (P_child q) (links (kern t)) = Some (P_sib c)"
    using assms(1,2) Cons rings_list_next [of "links (kern t)" "fam v" "P_child q"] by (simp add: sim_def)
  then have "removeChild (Some q) (kern t) = Some (Some c, (kern t)\<lparr>links := list_del (P_sib c) (links (kern t)),
      pcbs := (pcbs (kern t))(c := (pcbs (kern t) c)\<lparr>p_parent := None\<rparr>)\<rparr>)"
    using sim_child [OF assms(1,2)] Cons by (simp add: removeChild_def upd_links_def upd_pcb_def Let_def)
  then show ?thesis
    using assms(3) Cons detach_sim [OF assms(1,2) _ refl, of c] keep_vars [OF assms(1)] by (simp add: returns_def call_def)
qed

end
