(* ===== verification/P1_Tests.thy ===== *)
theory P1_Tests
  imports P1_Run
begin

text \<open>
  The tests of phase 1 of the process control blocks, one by one: each is executed on a view of the
  state and passes.
\<close>

section \<open>Loops\<close>

definition v_take :: "nat \<Rightarrow> view \<Rightarrow> view" where
  "v_take i v = (v_alloc v)\<lparr>v_procp := (v_procp v)(i := head_opt (v_free v))\<rparr>"

lemma v_take_fields [simp]:
  "v_free (v_take i v) = tl (v_free v)" "v_sibs (v_take i v) = v_sibs v" "v_queue (v_take i v) = v_queue v"
  "v_ok (v_take i v) = v_ok v" "v_err (v_take i v) = v_err v"
  by (simp_all add: v_take_def v_alloc_def split: list.split)

lemma v_alloc_Nil: "v_free v = [] \<Longrightarrow> v_alloc v = v"
  by (simp add: v_alloc_def)

lemma alloc_loop_rule:
  assumes "sim t v" "v_sibs v = {} \<and> length is \<le> length (v_free v)" "\<And>t'. sim t' (fold v_take is v) \<Longrightarrow> Q t'"
  shows "returns (alloc_loop tm is t) Q"
  using assms
proof (induction "is" arbitrary: t v)
  case Nil
  then show ?case by (simp add: returns_def)
next
  case (Cons i "is")
  have "returns (alloc_loop tm is t') Q" if "sim t' (v_take i v)" for t'
    by (rule Cons.IH [OF that]) (use Cons.prems in auto)
  then show ?case
    using Cons.prems unfolding alloc_loop.simps split_def
    by (intro returns_bindI alloc_rule [OF Cons.prems(1)] set_procp_rule expect_rule)
      (auto simp: v_take_def [of i v] head_opt_def split: list.splits)
qed

lemma fold_take_fields:
  "v_free (fold v_take is v) = drop (length is) (v_free v)" "v_sibs (fold v_take is v) = v_sibs v"
  "v_queue (fold v_take is v) = v_queue v" "v_ok (fold v_take is v) = v_ok v" "v_err (fold v_take is v) = v_err v"
  by (induction "is" arbitrary: v) (simp_all add: drop_Suc)

lemma fold_take_procp_other: "j \<notin> set is \<Longrightarrow> v_procp (fold v_take is v) j = v_procp v j"
  by (induction "is" arbitrary: v) (auto simp: v_take_def)

lemma fold_take_procp:
  "distinct is \<Longrightarrow> length is \<le> length (v_free v) \<Longrightarrow>
    map (v_procp (fold v_take is v)) is = map Some (take (length is) (v_free v))"
proof (induction "is" arbitrary: v)
  case (Cons i "is")
  then have "map (v_procp (fold v_take is (v_take i v))) is = map Some (take (length is) (tl (v_free v)))" by simp
  moreover have "v_procp (fold v_take is (v_take i v)) i = head_opt (v_free v)"
    using Cons.prems(1) by (simp add: fold_take_procp_other) (simp add: v_take_def)
  ultimately show ?case using Cons.prems(2) by (cases "v_free v") simp_all
qed simp

text \<open>A process with no relatives.\<close>

definition alone :: "view \<Rightarrow> nat \<Rightarrow> bool" where
  "alone v p \<longleftrightarrow> v_child v p = Some [] \<and> v_parent v p = None"

lemma alone_alloc: "alone v p \<or> p \<in> set (take 1 (v_free v)) \<Longrightarrow> alone (v_alloc v) p"
  by (auto simp: alone_def v_alloc_def split: list.splits)

lemma fold_take_alone:
  "alone v p \<or> p \<in> set (take (length is) (v_free v)) \<Longrightarrow> alone (fold v_take is v) p"
proof (induction "is" arbitrary: v)
  case (Cons i "is")
  have "alone (v_take i v) p \<longleftrightarrow> alone (v_alloc v) p" by (simp add: alone_def v_take_def)
  then have "alone (v_take i v) p \<or> p \<in> set (take (length is) (v_free (v_take i v)))"
    using Cons.prems alone_alloc [of v p] by (cases "v_free v") auto
  then show ?case using Cons.IH by simp
qed simp

text \<open>Freeing a list of processes, the last one first.\<close>

lemma free_loop_rule:
  assumes "sim t v" "map (v_procp v) is = map Some ps" "distinct ps" "set ps \<inter> set (v_free v) = {}"
    and "case v_queue v of None \<Rightarrow> True | Some q \<Rightarrow> set ps \<inter> set q = {}"
    and "\<And>t'. sim t' (v\<lparr>v_free := rev ps @ v_free v\<rparr>) \<Longrightarrow> Q t'"
  shows "returns (free_loop is t) Q"
  using assms
proof (induction "is" arbitrary: t v ps)
  case Nil
  then show ?case by (simp add: returns_def)
next
  case (Cons i "is")
  then obtain p ps' where ps: "ps = p # ps'" "v_procp v i = Some p" by (cases ps) auto
  then have "procp t i = Some p" using Cons.prems(1) by (simp add: sim_def)
  moreover have "returns (free_loop is t') Q" if "sim t' (v\<lparr>v_free := p # v_free v\<rparr>)" for t'
    using Cons.IH [OF that, of ps'] Cons.prems ps by (auto split: option.splits)
  ultimately show ?case
    unfolding free_loop.simps
    by (simp, intro returns_bindI free_rule [OF Cons.prems(1)]) (use Cons.prems ps in \<open>auto split: option.splits\<close>)
qed

section \<open>Allocation\<close>

text \<open>Between the tests: the free processes, and the ten that stay in \<open>procp\<close>.\<close>

definition tidy :: "view \<Rightarrow> nat list \<Rightarrow> bool" where
  "tidy v f \<longleftrightarrow> v_free v = f \<and> v_sibs v = {} \<and> (\<forall>p<MAXPROC. alone v p) \<and>
    map (v_procp v) [0..<10] = map Some (rev [10..<MAXPROC])"

text \<open>A test that passes: it returns, the messages are added, and nothing is reported.\<close>

definition passes :: "p1 option \<Rightarrow> (view \<Rightarrow> bool) \<Rightarrow> string list \<Rightarrow> string \<Rightarrow> bool" where
  "passes r P ms er \<longleftrightarrow> returns r (\<lambda>t. \<exists>v. sim t v \<and> P v \<and> v_ok v = ms \<and> v_err v = er)"

lemma init_sim:
  assumes "okbuf t = []"
  shows "sim (t\<lparr>kern := initPcbs (kern t)\<rparr>) \<lparr>v_free = rev [0..<MAXPROC], v_queue = None, v_child = Map.empty, v_sibs = {},
    v_prio = prio (kern t), v_parent = parent (kern t), v_procp = procp t, v_first = firstproc t, v_mid = midproc t,
    v_last = lastproc t, v_ok = [], v_err = errbuf t\<rparr>" (is "sim _ ?v")
proof -
  let ?R = "[PcbFree_h \<mapsto> []]"
  have "rings (INIT_LIST_HEAD PcbFree_h (links (kern t))) ?R"
    by (rule rings_INIT_LIST_HEAD [OF rings_empty_family]) (simp add: members_def)
  then have "rings (links (initPcbs (kern t))) (?R(PcbFree_h \<mapsto> map P_list (rev [0..<MAXPROC])))"
    unfolding initPcbs_def Let_def
    by (simp only: upd_links_simps) (rule initPcbs_loop_rings, auto simp: nodes_def split: if_splits)
  moreover have "fam ?v = ?R(PcbFree_h \<mapsto> map P_list (rev [0..<MAXPROC]))"
    by (rule ext; case_tac x rule: lnode.exhaust; simp)
  ultimately show ?thesis
    using assms by (auto simp: sim_def initPcbs_def Let_def lines_of_def)
qed

lemma initPcbs_rule:
  assumes "okbuf t = []"
    and "\<And>t' v. sim t' v \<Longrightarrow> v_free v = rev [0..<MAXPROC] \<Longrightarrow> v_sibs v = {} \<Longrightarrow> v_queue v = None \<Longrightarrow> v_ok v = [] \<Longrightarrow>
      v_err v = errbuf t \<Longrightarrow> Q t'"
  shows "returns (call_void (\<lambda>s. Some (initPcbs s)) t) Q"
  unfolding returns_def call_void_def using assms(2) [OF init_sim [OF assms(1)]] by simp

lemma tidy_ok [simp]: "tidy (v\<lparr>v_ok := ms\<rparr>) f = tidy v f"
  by (simp add: tidy_def alone_def)

definition alloc_msgs :: "string list" where
  "alloc_msgs = [''Initialized process control blocks   '', ''allocPcb ok   '', ''freed 10 entries   '']"

lemma procp_halves:
  assumes "map g [0..<MAXPROC] = map Some (rev [0..<MAXPROC])"
  shows "map g [0..<10] = map Some (rev [10..<MAXPROC])" "map g [10..<MAXPROC] = map Some (rev [0..<10])"
proof -
  have u: "[0..<MAXPROC] = [0..<10] @ [10..<MAXPROC]" by (simp add: MAXPROC_def upt_rec)
  from assms have "map g [0..<10] @ map g [10..<MAXPROC] = map Some (rev [10..<MAXPROC]) @ map Some (rev [0..<10])"
    unfolding u map_append rev_append .
  then show "map g [0..<10] = map Some (rev [10..<MAXPROC])" "map g [10..<MAXPROC] = map Some (rev [0..<10])"
    by (subst (asm) append_eq_append_conv; simp add: MAXPROC_def)+
qed

lemma procp_nth:
  assumes "map g [0..<10] = map Some (rev [10..<MAXPROC])" "i < 10"
  shows "g i = Some (19 - i)"
proof -
  have "map g [0..<10] ! i = map Some (rev [10..<MAXPROC]) ! i" using assms(1) by simp
  then show ?thesis using assms(2) by (simp add: rev_nth MAXPROC_def del: upt_rec_numeral)
qed

lemma procp_after_alloc:
  assumes "v_free v = rev [0..<MAXPROC]"
  shows "map (v_procp (fold v_take [0..<MAXPROC] v)) [0..<MAXPROC] = map Some (rev [0..<MAXPROC])"
  using fold_take_procp [of "[0..<MAXPROC]" v] assms by simp

lemma tidy_after_alloc:
  assumes "v_free v = rev [0..<MAXPROC]" "v_sibs v = {}"
  shows "tidy ((fold v_take [0..<MAXPROC] v)\<lparr>v_free := [0..<10]\<rparr>) [0..<10]"
proof -
  have "alone (fold v_take [0..<MAXPROC] v) p" if "p < MAXPROC" for p
    by (rule fold_take_alone) (use that assms(1) in simp)
  then show ?thesis
    using assms(2) procp_halves(1) [OF procp_after_alloc [OF assms(1)]]
    by (simp add: tidy_def alone_def fold_take_fields del: upt_Suc list.map)
qed

text \<open>After the loop all processes are in \<open>procp\<close> and none is free; the last ten are then freed.\<close>

lemma free_last_ten:
  assumes "v_free v = rev [0..<MAXPROC]" "v_sibs v = {}" "v_queue v = None"
    and "sim t ((v_alloc (fold v_take [0..<MAXPROC] v))\<lparr>v_ok := ms\<rparr>)"
    and "\<And>t' v'. sim t' v' \<Longrightarrow> tidy v' [0..<10] \<Longrightarrow> v_queue v' = None \<Longrightarrow> v_ok v' = ms \<Longrightarrow> v_err v' = v_err v \<Longrightarrow> Q t'"
  shows "returns (free_loop [10..<MAXPROC] t) Q"
proof -
  let ?w = "fold v_take [0..<MAXPROC] v"
  have f: "v_free ?w = []" using assms(1) by (simp add: fold_take_fields)
  have "map (v_procp (?w\<lparr>v_ok := ms\<rparr>)) [10..<MAXPROC] = map Some (rev [0..<10])"
    using procp_halves(2) [OF procp_after_alloc [OF assms(1)]] by (simp del: upt_Suc upt_rec_numeral)
  moreover have "sim t (?w\<lparr>v_ok := ms\<rparr>)" using assms(4) by (simp add: v_alloc_Nil [OF f])
  moreover have "tidy (?w\<lparr>v_ok := ms, v_free := [0..<10]\<rparr>) [0..<10]"
    using tidy_after_alloc [OF assms(1,2)] by (simp add: tidy_def alone_def)
  ultimately show ?thesis
    using f assms(3) by (intro free_loop_rule [of t "?w\<lparr>v_ok := ms\<rparr>" _ "rev [0..<10]"])
      (auto intro!: assms(5) simp: fold_take_fields)
qed

lemma test_alloc_passes:
  assumes "okbuf t = []" "terminal_answers tm"
  shows "passes (test_alloc tm t) (\<lambda>v. tidy v [0..<10] \<and> v_queue v = None) alloc_msgs (errbuf t)"
  unfolding test_alloc_def passes_def
  apply (rule returns_bindI, rule initPcbs_rule, fact)
  apply (rule returns_bindI, rule addokbuf_rule, assumption, simp add: assms)
  apply (rule returns_bindI, rule alloc_loop_rule, assumption, simp)
  apply (rule returns_bindI, rule alloc_rule, assumption, simp add: fold_take_fields)
  apply (rule returns_pair, rule returns_bindI, rule expect_rule, simp add: fold_take_fields)
  apply (rule returns_bindI, rule addokbuf_rule, assumption, simp add: fold_take_fields assms)
  apply (rule returns_bindI, rule free_last_ten [rotated 3], assumption)
     apply (rule addokbuf_rule, assumption, simp add: fold_take_fields assms)
     apply (rule exI, rule conjI, assumption, simp add: fold_take_fields alloc_msgs_def)
    apply simp_all
  done

section \<open>Queues\<close>

text \<open>What the operations of the queues leave alone.\<close>

definition same :: "view \<Rightarrow> view \<Rightarrow> bool" where
  "same v v' \<longleftrightarrow> v_sibs v' = v_sibs v \<and> v_procp v' = v_procp v \<and> v_ok v' = v_ok v \<and> v_err v' = v_err v \<and>
    (\<forall>p. alone v p \<longrightarrow> alone v' p)"

text \<open>The three processes that the test keeps while it fills the queue with the processes \<open>f\<close>.\<close>

definition kept :: "nat \<Rightarrow> nat \<Rightarrow> nat list \<Rightarrow> view \<Rightarrow> view \<Rightarrow> bool" where
  "kept a b f v v' \<longleftrightarrow>
    v_first v' = (if a \<le> 0 \<and> 0 < b then Some (f ! (0 - a)) else v_first v) \<and>
    v_mid v' = (if a \<le> 5 \<and> 5 < b then Some (f ! (5 - a)) else v_mid v) \<and>
    v_last v' = (if a \<le> 9 \<and> 9 < b then Some (f ! (9 - a)) else v_last v)"

lemma v_keep_alone [simp]: "alone (v_keep i r v) = alone v"
  by (simp add: v_keep_def alone_def fun_eq_iff)

text \<open>With no priority set, a process goes to the end of the queue.\<close>

lemma prio_insert_end: "\<forall>c\<in>set q. \<not> slt (pr c) (pr p) \<Longrightarrow> prio_insert pr p q = q @ [p]"
  by (simp add: prio_insert_def takeWhile_eq_all_conv [THEN iffD2] dropWhile_eq_Nil_conv [THEN iffD2])

definition v_push :: "nat \<Rightarrow> view \<Rightarrow> view" where
  "v_push i v = (v_keep i (head_opt (v_free v)) (v_alloc v))\<lparr>v_queue := Some (the (v_queue v) @ [hd (v_free v)])\<rparr>"

lemma v_push_step:
  assumes "v_free v = p # f" "v_queue v = Some q"
  shows "v_free (v_push i v) = f" "v_queue (v_push i v) = Some (q @ [p])" "v_prio (v_push i v) = (v_prio v)(p := 0)"
    "same v (v_push i v)" "kept (Suc i) b f (v_push i v) v' \<Longrightarrow> i < b \<Longrightarrow> kept i b (p # f) v v'"
proof -
  show "same v (v_push i v)" using alone_alloc [of v]
    by (simp add: same_def v_push_def assms v_alloc_def) (simp add: alone_def v_keep_def)
  show "kept i b (p # f) v v'" if "kept (Suc i) b f (v_push i v) v'" "i < b"
    using that assms by (auto simp: kept_def v_push_def v_keep_def v_alloc_def nth_Cons' split: if_splits)
qed (simp_all add: v_push_def assms v_alloc_def)

lemma same_trans: "same u v \<Longrightarrow> same v w \<Longrightarrow> same u w"
  by (simp add: same_def)

lemma insert_loop_rule:
  assumes "sim t v" "v_queue v = Some q" "a \<le> b" "b - a \<le> length (v_free v)" "distinct (q @ v_free v)"
    and "v_sibs v = {}" "\<forall>c\<in>set q. v_prio v c = 0"
    and "\<And>t' v'. sim t' v' \<Longrightarrow> v_free v' = drop (b - a) (v_free v) \<Longrightarrow> v_queue v' = Some (q @ take (b - a) (v_free v)) \<Longrightarrow>
      same v v' \<Longrightarrow> kept a b (v_free v) v v' \<Longrightarrow> Q t'"
  shows "returns (insert_loop tm [a..<b] t) Q"
  using assms
proof (induction "b - a" arbitrary: a t v q)
  case 0
  then have "b = a" by simp
  moreover have "same v v" "kept a a (v_free v) v v" by (auto simp: same_def kept_def)
  ultimately have "Q t" using 0 by simp
  then show ?case using \<open>b = a\<close> by (simp add: returns_def)
next
  case (Suc n)
  then obtain p f where f: "v_free v = p # f" by (cases "v_free v") auto
  have ab: "a < b" "n = b - Suc a" using Suc.hyps(2) by simp_all
  note step = v_push_step [OF f Suc.prems(2), of a]
  have "returns (insert_loop tm [Suc a..<b] t') Q" if t': "sim t' (v_push a v)" for t'
  proof (rule Suc.hyps(1) [OF ab(2) t' step(2)])
    show "v_sibs (v_push a v) = {}" using step(4) Suc.prems(6) by (simp add: same_def)
    show "\<forall>c\<in>set (q @ [p]). v_prio (v_push a v) c = 0" using step(3) Suc.prems(7) by simp
    fix t'' v'
    assume "sim t'' v'" "v_free v' = drop (b - Suc a) (v_free (v_push a v))"
      "v_queue v' = Some ((q @ [p]) @ take (b - Suc a) (v_free (v_push a v)))" "same (v_push a v) v'"
      "kept (Suc a) b (v_free (v_push a v)) (v_push a v) v'"
    then show "Q t''"
      using Suc.prems(8) [of t'' v'] step ab same_trans [OF step(4)] f Suc.hyps(2) [symmetric] by simp
  qed (use Suc.prems(4,5) step(1) ab f in auto)
  moreover have "prio_insert (v_prio (v_alloc v)) p q = q @ [p]"
    using Suc.prems(7) by (intro prio_insert_end) (simp add: v_alloc_def f)
  ultimately show ?case
    using Suc.prems(1,2,5,6) f ab unfolding upt_conv_Cons [OF ab(1)] insert_loop.simps
    apply -
    apply (rule returns_bindI, rule alloc_rule, assumption, simp, rule returns_pair)
    apply (rule returns_bindI, rule expect_rule, simp)
    apply (rule returns_bindI, rule keep_proc_rule, assumption, simp)
    apply (rule returns_bindI, rule insert_rule, assumption, simp, simp)
    apply (simp add: v_push_def)
    done
qed

lemma remove_loop_rule:
  assumes "sim t v" "v_queue v = Some (ps @ q')" "distinct (v_free v @ ps @ q')" "n = length ps"
    and "\<And>t'. sim t' (v\<lparr>v_free := rev ps @ v_free v, v_queue := Some q'\<rparr>) \<Longrightarrow> vars t' v \<Longrightarrow>
      Q (if ps = [] then q else Some (last ps), t')"
  shows "returns (remove_loop tm n q t) Q"
  using assms
proof (induction ps arbitrary: t v q n)
  case Nil
  then have "v\<lparr>v_free := rev [] @ v_free v, v_queue := Some q'\<rparr> = v" by (cases v) simp
  then have "Q (q, t)" using Nil.prems(5) [of t] Nil.prems(1) sim_vars [of t v] by simp
  then show ?case using Nil.prems(4) by (simp add: returns_def)
next
  case (Cons p ps)
  have "returns (remove_loop tm (length ps) (Some p) t') Q"
    if "sim t' (v\<lparr>v_queue := Some (ps @ q'), v_free := p # v_free v\<rparr>)" for t'
    by (rule Cons.IH [OF that]) (use Cons.prems(3,5) in \<open>auto simp: vars_def\<close>)
  then show ?case
    using Cons.prems(1-3) unfolding Cons.prems(4) list.size add_0_right add_Suc_right remove_loop.simps
    apply -
    apply (rule returns_bindI, rule remove_rule, assumption, assumption, rule returns_pair)
    apply (rule returns_bindI, rule expect_rule, simp)
    apply (simp, rule returns_bindI, rule free_rule, assumption, simp, simp)
    done
qed

lemma test_insert_passes:
  assumes "sim t v" "tidy v [0..<10]" "terminal_answers tm" "length (v_ok v) < 20"
  shows "passes (test_insert tm t) (\<lambda>v'. tidy v' [] \<and> v_queue v' = Some [0..<10] \<and>
      v_first v' = Some 0 \<and> v_mid v' = Some 5 \<and> v_last v' = Some 9)
    (v_ok v @ [''Inserting...   '', ''inserted 10 elements   '']) (v_err v)"
  using assms unfolding test_insert_def passes_def
  apply -
  apply (rule returns_bindI, rule queue_init_rule, assumption)
  apply (rule returns_bindI, rule expect_rule, rule sim_emptyProcQ, assumption, simp)
  apply (rule returns_bindI, rule addokbuf_rule, assumption, simp)
  apply (rule returns_bindI, rule insert_loop_rule, assumption, simp, simp, simp_all add: tidy_def)
  apply (rule returns_bindI, rule addokbuf_rule, assumption, simp add: same_def)
  apply (rule expect_rule, rule sim_emptyProcQ(2), assumption, simp add: upt_rec)
  apply (rule exI, rule conjI, assumption, simp add: kept_def same_def alone_def)
  done

lemma test_out_passes:
  assumes "sim t v" "tidy v []" "terminal_answers tm" "length (v_ok v) < 20" "v_queue v = Some [0..<10]"
    "v_first v = Some 0" "v_mid v = Some 5" "v_last v = Some 9"
  shows "returns (test_out tm t) (\<lambda>(q, t'). \<exists>v'. sim t' v' \<and> tidy v' [5, 0] \<and> v_queue v' = Some [1, 2, 3, 4, 6, 7, 8, 9] \<and>
    v_last v' = Some 9 \<and> v_ok v' = v_ok v @ [''outProcQ ok   ''] \<and> v_err v' = v_err v)"
proof -
  have q: "v_queue v = Some [0, 1, 2, 3, 4, 5, 6, 7, 8, 9]" using assms(5) by (simp add: upt_rec)
  have "v_procp v 0 = Some 19" using assms(2) by (simp add: tidy_def upt_rec MAXPROC_def)
  then show ?thesis
    using assms(1-4,6-8) q sim_vars [OF assms(1)] unfolding test_out_def
    apply -
    apply (rule returns_bindI, rule head_rule, assumption, assumption)
    apply (rule returns_bindI, rule expect_rule, simp add: vars_def, simp add: vars_def)
    apply (rule returns_bindI, rule out_rule, assumption, assumption, rule returns_pair)
    apply (rule returns_bindI, rule expect_rule, simp add: vars_def, simp)
    apply (rule returns_bindI, rule free_rule, assumption, simp add: tidy_def, simp add: vars_def)
    apply (rule returns_bindI, rule out_rule, assumption, simp, rule returns_pair)
    apply (rule returns_bindI, rule expect_rule, simp add: vars_def, simp)
    apply (rule returns_bindI, rule free_rule, assumption, simp add: tidy_def, simp add: vars_def)
    apply (rule returns_bindI, rule out_rule, assumption, simp, rule returns_pair)
    apply (rule returns_bindI, rule expect_rule, simp)
    apply (rule returns_bindI, rule addokbuf_rule, assumption, simp)
    apply (rule returns_SomeI, simp only: prod.case, rule exI, rule conjI, assumption, simp add: tidy_def alone_def)
    done
qed

lemma test_remove_passes:
  assumes "sim t v" "tidy v [5, 0]" "terminal_answers tm" "length (v_ok v) < 20" "v_queue v = Some [1, 2, 3, 4, 6, 7, 8, 9]"
    "v_last v = Some 9"
  shows "passes (test_remove tm q t) (\<lambda>v'. tidy v' [9, 8, 7, 6, 4, 3, 2, 1, 5, 0] \<and> v_queue v' = Some [])
    (v_ok v @ [''Removing...   '']) (v_err v)"
  using assms unfolding test_remove_def passes_def
  apply -
  apply (rule returns_bindI, rule addokbuf_rule, assumption, simp)
  apply (rule returns_bindI)
  apply (rule remove_loop_rule [where ps = "[1, 2, 3, 4, 6, 7, 8, 9]" and q' = "[]"], assumption, simp, simp add: tidy_def, simp,
    rule returns_pair)
  apply (rule returns_bindI, rule expect_rule, simp add: vars_def)
  apply (rule returns_bindI, rule remove_rule, assumption, simp, rule returns_pair)
  apply (rule returns_bindI, rule expect_rule, simp)
  apply (rule expect_rule, rule sim_emptyProcQ(1), assumption, simp)
  apply (rule exI, rule conjI, assumption, simp add: tidy_def alone_def)
  done

text \<open>Priorities.\<close>

lemma queue_new_rule:
  assumes "sim t v" "v_queue v = Some q" "v_free v = p # f" "p \<notin> set (f @ q) \<and> v_sibs v = {}"
    and "\<And>t' v'. sim t' v' \<Longrightarrow> v_queue v' = Some (prio_insert ((v_prio v)(p := pr)) p q) \<Longrightarrow> v_free v' = f \<Longrightarrow>
      v_prio v' = (v_prio v)(p := pr) \<Longrightarrow> same v v' \<Longrightarrow> Q (p, t')"
  shows "returns (queue_new tm pr t) Q"
  using assms unfolding queue_new_def
  apply -
  apply (rule returns_bindI, rule alloc_rule, assumption, simp, rule returns_pair, simp)
  apply (rule returns_bindI, rule prio_rule, assumption)
  apply (rule returns_bindI, rule insert_rule, assumption, simp, simp)
  apply (rule returns_SomeI, simp add: v_alloc_def same_def alone_def)
  done

lemma remove_expect_rule:
  assumes "sim t v" "v_queue v = Some (p # q)" "\<And>t'. sim t' (v\<lparr>v_queue := Some q\<rparr>) \<Longrightarrow> vars t' v \<Longrightarrow> Q t'"
  shows "returns (remove_expect tm p msg t) Q"
  using assms unfolding remove_expect_def
  by (intro returns_bindI remove_rule [OF assms(1,2)] returns_pair expect_rule) simp_all

lemma test_priority_passes:
  assumes "sim t v" "tidy v [9, 8, 7, 6, 4, 3, 2, 1, 5, 0]" "terminal_answers tm" "length (v_ok v) < 20" "v_queue v = Some []"
  shows "passes (test_priority tm t) (\<lambda>v'. tidy v' [7, 6, 8, 9, 4, 3, 2, 1, 5, 0] \<and> v_queue v' = Some [])
    (v_ok v @ [''Stating priority queue tests...   '', ''insertProcQ, removeProcQ and emptyProcQ ok   '',
      ''process queues module ok      '']) (v_err v)"
  using assms unfolding test_priority_def passes_def tidy_def same_def
  apply -
  apply (rule returns_bindI, rule addokbuf_rule, assumption, simp)
  apply (rule returns_bindI, rule queue_new_rule, assumption, simp, simp, simp, rule returns_pair)
  apply (rule returns_bindI, rule queue_new_rule, assumption, simp add: prio_insert_def, simp, simp add: same_def, rule returns_pair)
  apply (rule returns_bindI, rule queue_new_rule, assumption, simp add: prio_insert_def, simp, simp add: same_def, rule returns_pair)
  apply (rule returns_bindI, rule queue_new_rule, assumption, simp add: prio_insert_def, simp, simp add: same_def, rule returns_pair)
  apply (rule returns_bindI, rule remove_expect_rule, assumption, simp add: prio_insert_def)
  apply (rule returns_bindI, rule remove_expect_rule, assumption, simp)
  apply (rule returns_bindI, rule remove_expect_rule, assumption, simp)
  apply (rule returns_bindI, rule remove_expect_rule, assumption, simp)
  apply (rule returns_bindI, rule free_rule, assumption, simp)
  apply (rule returns_bindI, rule free_rule, assumption, simp)
  apply (rule returns_bindI, rule free_rule, assumption, simp)
  apply (rule returns_bindI, rule free_rule, assumption, simp)
  apply (rule returns_bindI, rule addokbuf_rule, assumption, simp add: same_def)
  apply (rule addokbuf_rule, assumption, simp add: same_def)
  apply (rule exI, rule conjI, assumption, simp add: same_def alone_def)
  done

section \<open>Trees\<close>

lemma child_loop_rule:
  assumes "sim t v" "v_procp v 0 = Some q" "v_child v q = Some cs" "map (v_procp v) is = map Some ps" "distinct ps"
    and "set ps \<inter> v_sibs v = {}"
    and "\<And>t'. sim t' (v\<lparr>v_child := (v_child v)(q \<mapsto> rev ps @ cs), v_sibs := set ps \<union> v_sibs v,
        v_parent := (\<lambda>p. if p \<in> set ps then Some q else v_parent v p)\<rparr>) \<Longrightarrow> vars t' v \<Longrightarrow> Q t'"
  shows "returns (child_loop is t) Q"
  using assms
proof (induction "is" arbitrary: t v ps cs)
  case Nil
  then have "v\<lparr>v_child := (v_child v)(q \<mapsto> rev ps @ cs), v_sibs := set ps \<union> v_sibs v,
      v_parent := (\<lambda>p. if p \<in> set ps then Some q else v_parent v p)\<rparr> = v"
    by (cases v) (auto simp: fun_eq_iff)
  then have "Q t" using Nil.prems(1,7) sim_vars by metis
  then show ?case by (simp add: returns_def)
next
  case (Cons i "is")
  then obtain p ps' where ps: "ps = p # ps'" "v_procp v i = Some p" by (cases ps) auto
  let ?v = "v\<lparr>v_child := (v_child v)(q \<mapsto> p # cs), v_sibs := insert p (v_sibs v), v_parent := (v_parent v)(p := Some q)\<rparr>"
  have eq: "?v\<lparr>v_child := (v_child ?v)(q \<mapsto> rev ps' @ p # cs), v_sibs := set ps' \<union> v_sibs ?v,
      v_parent := (\<lambda>r. if r \<in> set ps' then Some q else v_parent ?v r)\<rparr> =
    v\<lparr>v_child := (v_child v)(q \<mapsto> rev ps @ cs), v_sibs := set ps \<union> v_sibs v,
      v_parent := (\<lambda>r. if r \<in> set ps then Some q else v_parent v r)\<rparr>"
    by (auto simp: ps(1) fun_eq_iff)
  have "returns (child_loop is t') Q" if t': "sim t' ?v" for t'
  proof (rule Cons.IH [OF t', of "p # cs" ps'])
    show "v_procp ?v 0 = Some q" "map (v_procp ?v) is = map Some ps'" "distinct ps'" "set ps' \<inter> v_sibs ?v = {}"
      using Cons.prems(2,4-6) ps by auto
  qed (simp, unfold eq, rule Cons.prems(7), assumption, simp add: vars_def)
  moreover have "procp t 0 = Some q" "procp t i = Some p" using Cons.prems(1,2) ps by (simp_all add: sim_def)
  ultimately show ?case
    using Cons.prems(1,3,6) ps unfolding child_loop.simps
    by (simp, intro returns_bindI insertChild_rule [OF Cons.prems(1,3)]) auto
qed

lemma remove_children_rule:
  assumes "sim t v" "v_procp v 0 = Some q" "v_child v q = Some (ps @ cs)" "n = length ps"
    and "\<And>t'. sim t' (v\<lparr>v_child := (v_child v)(q \<mapsto> cs), v_parent := (\<lambda>p. if p \<in> set ps then None else v_parent v p)\<rparr>) \<Longrightarrow>
      vars t' v \<Longrightarrow> Q t'"
  shows "returns (remove_children tm n t) Q"
  using assms
proof (induction ps arbitrary: t v n)
  case Nil
  then have "v\<lparr>v_child := (v_child v)(q \<mapsto> cs), v_parent := (\<lambda>p. if p \<in> set [] then None else v_parent v p)\<rparr> = v"
    by (cases v) (auto simp: fun_eq_iff)
  then have "Q t" using Nil.prems(1,5) sim_vars by metis
  then show ?case using Nil.prems(4) by (simp add: returns_def)
next
  case (Cons p ps)
  let ?v = "v\<lparr>v_child := (v_child v)(q \<mapsto> ps @ cs), v_parent := (v_parent v)(p := None)\<rparr>"
  have eq: "?v\<lparr>v_child := (v_child ?v)(q \<mapsto> cs), v_parent := (\<lambda>r. if r \<in> set ps then None else v_parent ?v r)\<rparr> =
    v\<lparr>v_child := (v_child v)(q \<mapsto> cs), v_parent := (\<lambda>r. if r \<in> set (p # ps) then None else v_parent v r)\<rparr>"
    by (auto simp: fun_eq_iff)
  have "returns (remove_children tm (length ps) t') Q" if t': "sim t' ?v" for t'
  proof (rule Cons.IH [OF t'])
    show "v_procp ?v 0 = Some q" "v_child ?v q = Some (ps @ cs)" using Cons.prems(2) by simp_all
  qed (simp, unfold eq, rule Cons.prems(5), assumption, simp add: vars_def)
  moreover have "procp t 0 = Some q" using Cons.prems(1,2) by (simp add: sim_def)
  ultimately show ?case
    using Cons.prems(1,3) unfolding Cons.prems(4) list.size add_0_right add_Suc_right remove_children.simps
    by (simp, intro returns_bindI removeChild_rule [OF Cons.prems(1,3)] returns_pair expect_rule) auto
qed

lemma test_insertChild_passes:
  assumes "sim t v" "tidy v f" "terminal_answers tm" "length (v_ok v) < 20"
  shows "passes (test_insertChild tm t) (\<lambda>v'. v_free v' = f \<and> v_queue v' = v_queue v \<and>
      map (v_procp v') [0..<10] = map Some (rev [10..<MAXPROC]) \<and> v_child v' 19 = Some [10..<19] \<and>
      (\<forall>p\<in>set [10..<19]. v_parent v' p = Some 19) \<and> v_parent v' 19 = None)
    (v_ok v @ [''checking process trees...'', ''Inserting...   '', ''Inserted 9 children   '']) (v_err v)"
proof -
  have v: "v_procp v 0 = Some 19" "v_procp v 2 = Some 17" "v_child v 19 = Some []" "v_child v 17 = Some []"
      "map (v_procp v) [1..<10] = map Some (rev [10..<19])" "v_parent v 19 = None" "v_sibs v = {}" "v_free v = f"
      "map (v_procp v) [0..<10] = map Some (rev [10..<MAXPROC])"
    using assms(2) procp_nth [of "v_procp v"] upt_conv_Cons [of 0 10]
    by (simp_all only: tidy_def alone_def) (simp_all add: MAXPROC_def)
  show ?thesis
    using assms(1,3,4) v unfolding test_insertChild_def passes_def
    apply -
    apply (rule returns_bindI, rule addokbuf_rule, assumption, simp)
    apply (rule returns_bindI, rule expect_rule, simp add: vars_def, erule sim_emptyChild, simp)
    apply (rule returns_bindI, rule addokbuf_rule, assumption, simp)
    apply (rule returns_bindI, rule child_loop_rule [where ps = "rev [10..<19]"], assumption, simp, simp, simp, simp, simp)
    apply (rule returns_bindI, rule addokbuf_rule, assumption, simp)
    apply (rule expect_rule, simp add: vars_def, erule sim_emptyChild(2), simp)
    apply (rule exI, rule conjI, assumption, simp)
    done
qed

lemma test_outChild_passes:
  assumes "sim t v" "map (v_procp v) [0..<10] = map Some (rev [10..<MAXPROC])" "v_child v 19 = Some [10..<19]"
    and "\<forall>p\<in>set [10..<19]. v_parent v p = Some 19" "v_parent v 19 = None" "terminal_answers tm" "length (v_ok v) < 20"
  shows "passes (test_outChild tm t) (\<lambda>v'. v_free v' = v_free v \<and> v_queue v' = v_queue v \<and> v_procp v' = v_procp v \<and>
      v_child v' 19 = Some [10, 11, 12, 13, 14, 16, 17])
    (v_ok v @ [''outChild ok   '']) (v_err v)"
proof -
  have v: "v_procp v 0 = Some 19" "v_procp v 1 = Some 18" "v_procp v 4 = Some 15"
    using procp_nth [OF assms(2)] by simp_all
  have p: "procp t i = v_procp v i" for i using assms(1) by (simp add: sim_def)
  show ?thesis
    unfolding test_outChild_def passes_def p v using assms(1,3-) v
    apply -
    apply (rule returns_bindI, rule outChild_rule, assumption, simp, rule returns_pair)
    apply (rule returns_bindI, rule expect_rule, simp add: vars_def, simp add: vars_def)
    apply (rule returns_bindI, rule outChild_rule, assumption, simp, rule returns_pair)
    apply (rule returns_bindI, rule expect_rule, simp add: vars_def, simp add: vars_def)
    apply (rule returns_bindI, rule outChild_rule, assumption, simp, rule returns_pair)
    apply (rule returns_bindI, rule expect_rule, simp)
    apply (rule addokbuf_rule, assumption, simp)
    apply (rule exI, rule conjI, assumption, simp)
    done
qed

lemma test_removeChild_passes:
  assumes "sim t v" "map (v_procp v) [0..<10] = map Some (rev [10..<MAXPROC])" "v_child v 19 = Some [10, 11, 12, 13, 14, 16, 17]"
    and "v_free v = [7, 6, 8, 9, 4, 3, 2, 1, 5, 0]" "v_queue v = Some []" "terminal_answers tm" "length (v_ok v) < 20"
  shows "passes (test_removeChild tm t)
      (\<lambda>v'. v_free v' = [10..<MAXPROC] @ [7, 6, 8, 9, 4, 3, 2, 1, 5, 0] \<and> v_queue v' = Some [])
    (v_ok v @ [''Removing...   '', ''insertChild, removeChild and emptyChild ok   '', ''process tree module ok      '']) (v_err v)"
proof -
  have v: "v_procp v 0 = Some 19" using procp_nth [OF assms(2)] by simp
  have p: "map (v_procp v) [0..<10] = map Some [19, 18, 17, 16, 15, 14, 13, 12, 11, 10]" "[10..<MAXPROC] = [10, 11, 12, 13, 14, 15, 16, 17, 18, 19]"
    using assms(2) by (simp_all add: MAXPROC_def)
  show ?thesis
    using assms(1,3-) v unfolding test_removeChild_def passes_def p(2)
    apply -
    apply (rule returns_bindI, rule addokbuf_rule, assumption, simp)
    apply (rule returns_bindI, rule remove_children_rule [where ps = "[10, 11, 12, 13, 14, 16, 17]" and cs = "[]"],
      assumption, simp, simp, simp, simp add: vars_def)
    apply (rule returns_bindI, rule removeChild_rule, assumption, simp, rule returns_pair)
    apply (rule returns_bindI, rule expect_rule, simp)
    apply (rule returns_bindI, rule expect_rule, simp add: vars_def, erule sim_emptyChild, simp)
    apply (rule returns_bindI, rule addokbuf_rule, assumption, simp)
    apply (rule returns_bindI, rule addokbuf_rule, assumption, simp)
    apply (rule free_loop_rule [where ps = "[19, 18, 17, 16, 15, 14, 13, 12, 11, 10]"], assumption)
        apply (use p(1) in simp, simp, simp, simp)
    apply (rule exI, rule conjI, assumption, simp)
    done
qed

end
