(* ===== verification/P1_Semaphores.thy ===== *)
theory P1_Semaphores
  imports P1_Tests
begin

text \<open>
  The tests of phase 1 of the active semaphore list: here the view of the state gives, for each of
  the semaphores of the test, the processes that wait on it.
\<close>

section \<open>A view of the semaphores\<close>

record wview =
  w_free :: "nat list"
  w_wait :: "nat \<Rightarrow> nat list"          \<comment> \<open>the processes blocked on \<open>sem[i]\<close>\<close>
  w_procp :: "nat \<Rightarrow> nat option"
  w_ok :: "string list"
  w_err :: string

lemma sem_eq_iff: "i < MAXPROC \<Longrightarrow> j < MAXPROC \<Longrightarrow> sem tm i = sem tm j \<longleftrightarrow> i = j"
proof -
  assume "i < MAXPROC" "j < MAXPROC"
  then have "of_nat (4 * i) = (of_nat (4 * j) :: u32) \<longleftrightarrow> 4 * i = 4 * j"
    unfolding MAXPROC_def word_of_nat_eq_iff by (simp add: take_bit_nat_eq_self)
  then show ?thesis by (simp add: sem_def)
qed

text \<open>Nobody waits on a semaphore that is not one of the test.\<close>

definition queues :: "tester \<Rightarrow> (u32 \<Rightarrow> nat list) \<Rightarrow> (nat \<Rightarrow> nat list) \<Rightarrow> bool" where
  "queues tm f L \<longleftrightarrow> (\<forall>i<MAXPROC. f (sem tm i) = L i) \<and> (\<forall>k. k \<notin> sem tm ` {..<MAXPROC} \<longrightarrow> f k = [])"

lemma queues_upd: "queues tm f L \<Longrightarrow> i < MAXPROC \<Longrightarrow> queues tm (f(sem tm i := q)) (L(i := q))"
  by (auto simp: queues_def sem_eq_iff)

definition wsim :: "tester \<Rightarrow> p1 \<Rightarrow> wview \<Rightarrow> bool" where
  "wsim tm t w \<longleftrightarrow> (\<exists>a. kwf (kern t) a \<and> a_free a = w_free w \<and> a_ready a = [] \<and> queues tm (waiting (kern t) a) (w_wait w)) \<and>
    procp t = w_procp w \<and> okbuf t = lines_of (w_ok w) \<and> length (lines_of (w_ok w)) \<le> 60 * length (w_ok w) \<and> errbuf t = w_err w"

lemma wsim_kern:
  assumes "wsim tm t w" "kwf s a" "a_free a = w_free w'" "a_ready a = []" "queues tm (waiting s a) (w_wait w')"
    and "w_procp w' = w_procp w" "w_ok w' = w_ok w" "w_err w' = w_err w"
  shows "wsim tm (t\<lparr>kern := s\<rparr>) w'"
  using assms by (auto simp: wsim_def)

lemma wsim_procp: "wsim tm t w \<Longrightarrow> procp t = w_procp w"
  by (simp add: wsim_def)

text \<open>A process that the view shows neither free nor waiting is in no queue.\<close>

lemma view_detached:
  assumes "kwf s a" "a_free a = f" "a_ready a = []" "queues tm (waiting s a) L"
    and "p < MAXPROC \<and> p \<notin> set f \<and> (\<forall>i<MAXPROC. p \<notin> set (L i))"
  shows "detached a p"
proof -
  have "p \<notin> set (waiting s a k)" for k using assms(4,5) unfolding queues_def by (metis imageE lessThan_iff empty_iff list.set(1))
  then have "p \<notin> blocked a" using waiting_iff [OF assms(1)] by blast
  then show ?thesis using assms by (simp add: detached_def live_def)
qed

section \<open>Rules\<close>

lemma w_addokbuf_rule:
  assumes "wsim tm t w" "terminal_answers tm \<and> length s < 60 \<and> length (w_ok w) < 33"
    and "\<And>t'. wsim tm t' (w\<lparr>w_ok := w_ok w @ [s]\<rparr>) \<Longrightarrow> Q t'"
  shows "returns (addokbuf tm s t) Q"
proof -
  let ?t = "t\<lparr>okbuf := okbuf t @ s @ [CHR 0x0A]\<rparr>"
  obtain b r cs where p: "termprint tm (s @ [CHR 0x0A]) 0 ?t = Some (b, ?t\<lparr>reads := r, commands := cs\<rparr>)"
    using termprint_returns assms(2) by blast
  have l: "okbuf t = lines_of (w_ok w)" "length (lines_of (w_ok w)) \<le> 60 * length (w_ok w)"
    using assms(1) by (simp_all add: wsim_def)
  have "wsim tm (?t\<lparr>reads := r, commands := cs\<rparr>) (w\<lparr>w_ok := w_ok w @ [s]\<rparr>)"
    using assms(1,2) l by (simp add: wsim_def)
  then show ?thesis
    using p assms(2,3) l by (simp add: returns_def addokbuf_def Let_def)
qed

lemma w_set_procp_rule:
  assumes "wsim tm t w" "\<And>t'. wsim tm t' (w\<lparr>w_procp := (w_procp w)(i := r)\<rparr>) \<Longrightarrow> Q t'"
  shows "returns (set_procp i r t) Q"
  using assms by (simp add: returns_def set_procp_def wsim_def)

lemma w_alloc_rule:
  assumes "wsim tm t w" "w_free w = p # f" "\<And>t'. wsim tm t' (w\<lparr>w_free := f\<rparr>) \<Longrightarrow> Q (Some p, t')"
  shows "returns (call (allocPcb pf) t) Q"
proof -
  obtain a where a: "kwf (kern t) a" "a_free a = p # f" "a_ready a = []" "queues tm (waiting (kern t) a) (w_wait w)"
    using assms(1,2) by (auto simp: wsim_def)
  let ?s = "\<lambda>l. (kern t)\<lparr>links := l, pcbs := (pcbs (kern t))(p := fresh_pcb pf (next_pid (kern t)) (pcbs (kern t) p)),
    next_pid := next_pid (kern t) + 1\<rparr>"
  let ?a = "a\<lparr>a_free := f, a_child := (a_child a)(p := [])\<rparr>"
  obtain l where l: "allocPcb pf (kern t) = Some (Some p, ?s l)" "kwf (?s l) ?a"
    using allocPcb_Cons [OF a(1,2)] by blast
  have "waiting (?s l) ?a = waiting (kern t) a" by (rule waiting_frame) simp_all
  then have "wsim tm (t\<lparr>kern := ?s l\<rparr>) (w\<lparr>w_free := f\<rparr>)"
    using a by (intro wsim_kern [OF assms(1) l(2)]) simp_all
  then show ?thesis using l(1) assms(3) by (simp add: returns_def call_def)
qed

lemma w_insert_rule:
  assumes "wsim tm t w" "i < MAXPROC" "p < MAXPROC \<and> p \<notin> set (w_free w) \<and> (\<forall>i<MAXPROC. p \<notin> set (w_wait w i))"
    and "\<And>t'. wsim tm t' (w\<lparr>w_wait := (w_wait w)(i := w_wait w i @ [p])\<rparr>) \<Longrightarrow> Q (False, t')"
  shows "returns (call (insertBlocked (sem tm i) p) t) Q"
proof -
  obtain a where a: "kwf (kern t) a" "a_free a = w_free w" "a_ready a = []" "queues tm (waiting (kern t) a) (w_wait w)"
    using assms(1) by (auto simp: wsim_def)
  from insertBlocked_eq [OF a(1) view_detached [OF a assms(3)], of "sem tm i"] obtain s a' where
    s: "insertBlocked (sem tm i) p (kern t) = Some (False, s)" "kwf s a'"
      "waiting s a' = (waiting (kern t) a)(sem tm i := waiting (kern t) a (sem tm i) @ [p])" "a_free a' = a_free a" "a_ready a' = a_ready a"
    by blast
  have "waiting (kern t) a (sem tm i) = w_wait w i" using a(4) assms(2) by (simp add: queues_def)
  then have "wsim tm (t\<lparr>kern := s\<rparr>) (w\<lparr>w_wait := (w_wait w)(i := w_wait w i @ [p])\<rparr>)"
    using a s(3-) queues_upd [OF a(4) assms(2)] by (intro wsim_kern [OF assms(1) s(2)]) simp_all
  then show ?thesis using s(1) assms(4) by (simp add: returns_def call_def)
qed

lemma w_remove_rule:
  assumes "wsim tm t w" "i < MAXPROC" "\<And>t'. wsim tm t' (w\<lparr>w_wait := (w_wait w)(i := tl (w_wait w i))\<rparr>) \<Longrightarrow> Q (head_opt (w_wait w i), t')"
  shows "returns (call (removeBlocked (sem tm i)) t) Q"
proof -
  obtain a where a: "kwf (kern t) a" "a_free a = w_free w" "a_ready a = []" "queues tm (waiting (kern t) a) (w_wait w)"
    using assms(1) by (auto simp: wsim_def)
  have W: "waiting (kern t) a (sem tm i) = w_wait w i" using a(4) assms(2) by (simp add: queues_def)
  show ?thesis
  proof (cases "w_wait w i")
    case Nil
    then have "w\<lparr>w_wait := (w_wait w)(i := tl (w_wait w i))\<rparr> = w" by (cases w) (auto simp: fun_eq_iff)
    then have "Q (None, t)" using assms(1) assms(3) [of t] Nil by simp
    then show ?thesis using removeBlocked_Nil [OF a(1)] W Nil by (simp add: returns_def call_def)
  next
    case (Cons p q)
    with removeBlocked_Cons [OF a(1), of "sem tm i" p q] W obtain s a' where
      s: "removeBlocked (sem tm i) (kern t) = Some (Some p, s)" "kwf s a'"
        "waiting s a' = (waiting (kern t) a)(sem tm i := q)" "a_free a' = a_free a" "a_ready a' = a_ready a" by auto
    then have "wsim tm (t\<lparr>kern := s\<rparr>) (w\<lparr>w_wait := (w_wait w)(i := tl (w_wait w i))\<rparr>)"
      using a Cons queues_upd [OF a(4) assms(2)] by (intro wsim_kern [OF assms(1) s(2)]) simp_all
    then show ?thesis using s(1) assms(3) Cons by (simp add: returns_def call_def)
  qed
qed

lemma w_head_rule:
  assumes "wsim tm t w" "i < MAXPROC" "Q (head_opt (w_wait w i))"
  shows "returns (headBlocked (sem tm i) (kern t)) Q"
proof -
  obtain a where a: "kwf (kern t) a" "queues tm (waiting (kern t) a) (w_wait w)" using assms(1) by (auto simp: wsim_def)
  then show ?thesis
    using headBlocked_eq [OF a(1), of "sem tm i"] assms(2,3) by (simp add: returns_def queues_def head_opt_def)
qed

lemma w_out_rule:
  assumes "wsim tm t w" "i < MAXPROC \<and> p \<in> set (w_wait w i)"
    and "\<And>t'. wsim tm t' (w\<lparr>w_wait := (w_wait w)(i := remove1 p (w_wait w i))\<rparr>) \<Longrightarrow> Q (Some p, t')"
  shows "returns (call (outBlocked p) t) Q"
proof -
  obtain a where a: "kwf (kern t) a" "a_free a = w_free w" "a_ready a = []" "queues tm (waiting (kern t) a) (w_wait w)"
    using assms(1) by (auto simp: wsim_def)
  have W: "waiting (kern t) a (sem tm i) = w_wait w i" using a(4) assms(2) by (simp add: queues_def)
  then have p: "p \<in> blocked a" "semAdd (kern t) p = sem tm i" using waiting_iff [OF a(1), of p "sem tm i"] assms(2) by simp_all
  from outBlocked_eq [OF a(1) p(1)] obtain s a' where
    s: "outBlocked p (kern t) = Some (Some p, s)" "kwf s a'"
      "waiting s a' = (waiting (kern t) a)(sem tm i := remove1 p (w_wait w i))" "a_free a' = a_free a" "a_ready a' = a_ready a"
    unfolding p(2) W by blast
  then have "wsim tm (t\<lparr>kern := s\<rparr>) (w\<lparr>w_wait := (w_wait w)(i := remove1 p (w_wait w i))\<rparr>)"
    using a queues_upd [OF a(4)] assms(2) by (intro wsim_kern [OF assms(1) s(2)]) simp_all
  then show ?thesis using s(1) assms(3) by (simp add: returns_def call_def)
qed

lemma w_out_other_rule:
  assumes "wsim tm t w" "p < MAXPROC \<and> p \<notin> set (w_free w) \<and> (\<forall>i<MAXPROC. p \<notin> set (w_wait w i))" "Q (None, t)"
  shows "returns (call (outBlocked p) t) Q"
proof -
  obtain a where a: "kwf (kern t) a" "a_free a = w_free w" "a_ready a = []" "queues tm (waiting (kern t) a) (w_wait w)"
    using assms(1) by (auto simp: wsim_def)
  have "p \<notin> blocked a" using view_detached [OF a assms(2)] by (simp add: detached_def)
  then show ?thesis using outBlocked_other [OF a(1)] assms(3) by (simp add: returns_def call_def)
qed

text \<open>When every semaphore of the test has a process waiting, all the descriptors are in use.\<close>

lemma w_full_rule:
  assumes "wsim tm t w" "k \<notin> sem tm ` {..<MAXPROC}" "\<forall>i<MAXPROC. w_wait w i \<noteq> []" "Q (True, t)"
  shows "returns (call (insertBlocked k p) t) Q"
proof -
  obtain a where a: "kwf (kern t) a" "queues tm (waiting (kern t) a) (w_wait w)" using assms(1) by (auto simp: wsim_def)
  have "sem tm i \<in> key (kern t) ` set (a_asl a)" if "i < MAXPROC" for i
    using that assms(3) a(2) waiting_Nil_iff [OF a(1), of "sem tm i"] by (simp add: queues_def)
  then have "sem tm ` {..<MAXPROC} \<subseteq> key (kern t) ` set (a_asl a)" by blast
  moreover have "inj_on (sem tm) {..<MAXPROC}" by (auto simp: inj_on_def sem_eq_iff)
  ultimately have "MAXPROC \<le> card (key (kern t) ` set (a_asl a))"
    using card_mono [of "key (kern t) ` set (a_asl a)" "sem tm ` {..<MAXPROC}"] by (simp add: card_image)
  also have "\<dots> \<le> card (set (a_asl a))" by (rule card_image_le) simp
  finally have "set (a_asl a) = {..<MAXPROC}"
    using wfD(2) [OF a(1)] by (intro card_seteq) (auto simp: wf_asl_def)
  moreover have "set (a_sfree a) \<subseteq> {..<MAXPROC}" using wfD(2) [OF a(1)] unfolding wf_asl_def by blast
  ultimately have "a_sfree a = []" using wf_disjoint(4) [OF a(1)] by (simp add: Int_absorb2)
  then have "list_empty SemdFree_h (links (kern t))" using rings_list_empty [OF wf_rings [OF a(1)], of SemdFree_h] by simp
  moreover have "waiting (kern t) a k = []" using a(2) assms(2) by (simp add: queues_def)
  then have "asl_find k (kern t) = Some None"
    using asl_find_eq [OF wf_rings [OF a(1)], of "a_asl a" k] find_key_None [of "kern t" k "a_asl a"] waiting_Nil_iff [OF a(1)] by simp
  ultimately show ?thesis using assms(4) by (simp add: returns_def call_def insertBlocked_def)
qed

section \<open>Initialisation\<close>

lemma rings_submap: "rings l R \<Longrightarrow> (\<And>h xs. R' h = Some xs \<Longrightarrow> R h = Some xs) \<Longrightarrow> rings l R'"
  unfolding rings_def by blast

lemma initASL_rule:
  assumes "sim t v" "set (v_free v) = {..<MAXPROC}" "v_queue v = Some []"
    and "\<And>t' w. wsim tm t' w \<Longrightarrow> w_free w = v_free v \<Longrightarrow> w_wait w = (\<lambda>_. []) \<Longrightarrow> w_ok w = v_ok v \<Longrightarrow> w_err w = v_err v \<Longrightarrow> Q t'"
  shows "returns (call_void (\<lambda>s. Some (initASL s)) t) Q"
proof -
  let ?a = "\<lparr>a_free = v_free v, a_ready = [], a_sfree = rev [0..<MAXPROC], a_asl = [], a_procq = (\<lambda>_. []), a_child = (\<lambda>_. [])\<rparr>"
  let ?R = "[PcbFree_h \<mapsto> map P_list (v_free v), ReadyQueue \<mapsto> []]"
  let ?s = "initASL (kern t)"
  have "rings (links (kern t)) ?R"
    by (rule rings_submap [of _ "fam v"]) (use assms(1,3) in \<open>auto simp: sim_def split: if_splits\<close>)
  then have "rings (INIT_LIST_HEAD Semd_h (INIT_LIST_HEAD SemdFree_h (links (kern t)))) (?R(SemdFree_h \<mapsto> [], Semd_h \<mapsto> []))"
    by (intro rings_INIT_LIST_HEAD) (auto simp: members_def split: if_splits)
  then have "rings (initASL_loop MAXPROC (INIT_LIST_HEAD Semd_h (INIT_LIST_HEAD SemdFree_h (links (kern t)))))
      (?R(SemdFree_h \<mapsto> [], Semd_h \<mapsto> [], SemdFree_h \<mapsto> map S_link (rev [0..<MAXPROC])))"
    by (rule initASL_loop_rings) (auto simp: nodes_def split: if_splits)
  moreover have l: "live ?a = {}" "blocked ?a = {}" using assms(2) by (auto simp: live_def blocked_def)
  then have "?R(SemdFree_h \<mapsto> [], Semd_h \<mapsto> [], SemdFree_h \<mapsto> map S_link (rev [0..<MAXPROC])) = lists_of ?a"
    by (intro ext, case_tac x rule: lnode.exhaust) (simp_all del: map_map)
  ultimately have "kwf ?s ?a"
    using assms(2) l by (auto simp: kwf_def wf_pcbs_def wf_asl_def wf_tree_def initASL_def Let_def)
  then have "wsim tm (t\<lparr>kern := ?s\<rparr>) \<lparr>w_free = v_free v, w_wait = (\<lambda>_. []), w_procp = procp t, w_ok = v_ok v, w_err = v_err v\<rparr>"
    using assms(1) unfolding wsim_def by (intro conjI exI [of _ ?a]) (auto simp: sim_def queues_def waiting_def)
  then show ?thesis using assms(4) by (simp add: returns_def call_void_def)
qed

section \<open>The tests\<close>

definition w_block :: "nat \<Rightarrow> wview \<Rightarrow> wview" where
  "w_block i w = w\<lparr>w_free := tl (w_free w), w_procp := (w_procp w)(i := head_opt (w_free w)),
     w_wait := (w_wait w)(i := w_wait w i @ [hd (w_free w)])\<rparr>"

text \<open>The free processes are distinct, and none of them waits.\<close>

definition w_ready :: "wview \<Rightarrow> bool" where
  "w_ready w \<longleftrightarrow> distinct (w_free w) \<and> set (w_free w) \<subseteq> {..<MAXPROC} \<and> (\<forall>i<MAXPROC. set (w_wait w i) \<inter> set (w_free w) = {})"

lemma w_ready_block: "w_ready w \<Longrightarrow> w_free w = p # f \<Longrightarrow> w_ready (w_block i w)"
  by (auto simp: w_ready_def w_block_def)

lemma block_loop_rule:
  assumes "wsim tm t w" "set is \<subseteq> {..<MAXPROC}" "length is \<le> length (w_free w)" "w_ready w"
    and "\<And>t'. wsim tm t' (fold w_block is w) \<Longrightarrow> Q t'"
  shows "returns (block_loop tm msg is t) Q"
  using assms
proof (induction "is" arbitrary: t w)
  case Nil
  then show ?case by (simp add: returns_def)
next
  case (Cons i "is")
  then obtain p f where f: "w_free w = p # f" by (cases "w_free w") auto
  have "w_ready (w_block i w)" by (rule w_ready_block [OF Cons.prems(4) f])
  then have step: "returns (block_loop tm msg is t') Q" if "wsim tm t' (w_block i w)" for t'
    by (intro Cons.IH [OF that]) (use Cons.prems f in \<open>simp_all add: w_block_def [of i w]\<close>)
  show ?case
    using Cons.prems f step unfolding block_loop.simps
    apply -
    apply (rule returns_bindI, rule w_alloc_rule, assumption, assumption, rule returns_pair)
    apply (rule returns_bindI, rule w_set_procp_rule, assumption, simp add: wsim_procp)
    apply (rule returns_bindI, rule w_insert_rule, assumption, simp, fastforce simp: w_ready_def, rule returns_pair)
    apply (rule returns_bindI, rule expect_rule, simp, simp add: w_block_def)
    done
qed

definition w_move :: "nat \<Rightarrow> wview \<Rightarrow> wview" where
  "w_move i w = w\<lparr>w_wait := (w_wait w)(i := [], i - 10 := w_wait w (i - 10) @ w_wait w i)\<rparr>"

text \<open>Every process waits on at most one semaphore, and those of \<open>is\<close> have one process each.\<close>

definition w_single :: "nat list \<Rightarrow> wview \<Rightarrow> bool" where
  "w_single is w \<longleftrightarrow> (\<forall>i\<in>set is. \<exists>p<MAXPROC. w_wait w i = [p] \<and> w_procp w i = Some p \<and> p \<notin> set (w_free w) \<and>
     (\<forall>j<MAXPROC. j \<noteq> i \<longrightarrow> p \<notin> set (w_wait w j)))"

lemma move_loop_rule:
  assumes "wsim tm t w" "set is \<subseteq> {10..<MAXPROC}" "distinct is" "w_single is w"
    and "\<And>t'. wsim tm t' (fold w_move is w) \<Longrightarrow> Q t'"
  shows "returns (move_loop tm is t) Q"
  using assms
proof (induction "is" arbitrary: t w)
  case Nil
  then show ?case by (simp add: returns_def)
next
  case (Cons i "is")
  then obtain p where p: "p < MAXPROC" "w_wait w i = [p]" "w_procp w i = Some p" "p \<notin> set (w_free w)"
      "\<forall>j<MAXPROC. j \<noteq> i \<longrightarrow> p \<notin> set (w_wait w j)"
    by (auto simp: w_single_def)
  have i: "10 \<le> i" "i < MAXPROC" "i - 10 < MAXPROC" "i - 10 \<noteq> i" using Cons.prems(2) by auto
  have "w_single is (w_move i w)"
    unfolding w_single_def
  proof
    fix j assume j: "j \<in> set is"
    then obtain p' where p': "p' < MAXPROC" "w_wait w j = [p']" "w_procp w j = Some p'" "p' \<notin> set (w_free w)"
        "\<forall>k<MAXPROC. k \<noteq> j \<longrightarrow> p' \<notin> set (w_wait w k)"
      using Cons.prems(4) by (auto simp: w_single_def)
    have "j \<noteq> i" "j \<noteq> i - 10" "j < MAXPROC" using j Cons.prems(2,3) i by (auto simp: MAXPROC_def)
    then show "\<exists>p<MAXPROC. w_wait (w_move i w) j = [p] \<and> w_procp (w_move i w) j = Some p \<and> p \<notin> set (w_free (w_move i w)) \<and>
        (\<forall>k<MAXPROC. k \<noteq> j \<longrightarrow> p \<notin> set (w_wait (w_move i w) k))"
      using p' p(2,5) i by (intro exI [of _ p']) (auto simp: w_move_def)
  qed
  then have step: "returns (move_loop tm is t') Q" if "wsim tm t' (w_move i w)" for t'
    by (intro Cons.IH [OF that]) (use Cons.prems in simp_all)
  show ?case
    using Cons.prems(1) i p step unfolding move_loop.simps
    apply -
    apply (rule returns_bindI, rule w_remove_rule, assumption, assumption, rule returns_pair)
    apply (rule returns_bindI, rule expect_rule, simp)
    apply (rule returns_bindI, rule expect_rule, simp add: wsim_procp, simp)
    apply (rule returns_bindI, rule w_insert_rule, assumption, assumption, simp, rule returns_pair)
    apply (rule returns_bindI, rule expect_rule, simp, simp add: w_move_def)
    done
qed

text \<open>The processes in the order in which the test allocates them.\<close>

definition order :: "nat list" where
  "order = [10..<MAXPROC] @ [7, 6, 8, 9, 4, 3, 2, 1, 5, 0]"

lemma set_order: "set order = {..<MAXPROC}" "distinct order"
proof -
  show d: "distinct order" by (simp add: order_def MAXPROC_def)
  show "set order = {..<MAXPROC}"
    by (rule card_subset_eq) (simp_all add: distinct_card [OF d], simp_all add: order_def MAXPROC_def)
qed

text \<open>The processes \<open>ps\<close> have been blocked on the semaphores \<open>is\<close>, one each.\<close>

definition placed :: "nat list \<Rightarrow> nat list \<Rightarrow> wview \<Rightarrow> bool" where
  "placed is ps w \<longleftrightarrow> map (w_wait w) is = map (\<lambda>p. [p]) ps \<and> map (w_procp w) is = map Some ps"

lemma w_block_fields:
  "w_free (fold w_block is w) = drop (length is) (w_free w)" "w_ok (fold w_block is w) = w_ok w"
  "w_err (fold w_block is w) = w_err w"
  by (induction "is" arbitrary: w) (simp_all add: w_block_def drop_Suc)

lemma w_block_other:
  "j \<notin> set is \<Longrightarrow> w_wait (fold w_block is w) j = w_wait w j \<and> w_procp (fold w_block is w) j = w_procp w j"
  by (induction "is" arbitrary: w) (simp_all add: w_block_def)

lemma w_ready_fold: "w_ready w \<Longrightarrow> length is \<le> length (w_free w) \<Longrightarrow> w_ready ((fold w_block is w)\<lparr>w_ok := ms\<rparr>)"
proof (induction "is" arbitrary: w)
  case Nil
  then show ?case by (simp add: w_ready_def)
next
  case (Cons i "is")
  then obtain p f where f: "w_free w = p # f" by (cases "w_free w") auto
  have "length is \<le> length (w_free (w_block i w))" using Cons.prems(2) f by (simp add: w_block_def)
  then show ?case using Cons.IH [OF w_ready_block [OF Cons.prems(1) f]] by simp
qed

lemma w_block_placed:
  "distinct is \<Longrightarrow> length is \<le> length (w_free w) \<Longrightarrow> \<forall>i\<in>set is. w_wait w i = [] \<Longrightarrow>
    placed is (take (length is) (w_free w)) (fold w_block is w)"
proof (induction "is" arbitrary: w)
  case (Cons i "is")
  obtain p f where f: "w_free w = p # f" using Cons.prems(2) by (cases "w_free w") auto
  have "placed is (take (length is) (w_free (w_block i w))) (fold w_block is (w_block i w))"
    by (rule Cons.IH) (use Cons.prems f in \<open>auto simp: w_block_def\<close>)
  moreover have "w_wait (fold w_block is (w_block i w)) i = [p]" "w_procp (fold w_block is (w_block i w)) i = Some p"
    using Cons.prems(1,3) f w_block_other [of i "is" "w_block i w"] by (simp_all add: w_block_def)
  moreover have "w_free (w_block i w) = f" by (simp add: w_block_def f)
  ultimately show ?case by (simp add: placed_def f)
qed (simp add: placed_def)

lemma placed_append:
  assumes "placed is ps w" "set is \<inter> set js = {}" "w_free w = qs" "distinct js" "length js = length qs" "\<forall>j\<in>set js. w_wait w j = []"
  shows "placed (is @ js) (ps @ qs) (fold w_block js w)"
proof -
  have "placed js qs (fold w_block js w)" using w_block_placed [of js w] assms(3-) by simp
  moreover have "placed is ps (fold w_block js w)"
    using assms(1,2) w_block_other [of _ js w] unfolding placed_def by (metis disjoint_iff map_cong)
  ultimately show ?thesis by (simp add: placed_def)
qed

lemma placed_nth:
  assumes "placed is ps w" "n < length is"
  shows "w_wait w (is ! n) = [ps ! n]" "w_procp w (is ! n) = Some (ps ! n)"
proof -
  have "length is = length ps" using assms(1) unfolding placed_def by (metis length_map)
  then show "w_wait w (is ! n) = [ps ! n]" "w_procp w (is ! n) = Some (ps ! n)"
    using assms unfolding placed_def by (metis nth_map)+
qed

text \<open>After the first two loops every semaphore has one process.\<close>

lemma placed_all:
  assumes "placed ([10..<MAXPROC] @ [0..<10]) order w" "i < MAXPROC"
  shows "\<exists>p<MAXPROC. w_wait w i = [p] \<and> w_procp w i = Some p \<and> (\<forall>j<MAXPROC. j \<noteq> i \<longrightarrow> p \<notin> set (w_wait w j))"
proof -
  let ?is = "[10..<MAXPROC] @ [0..<10]"
  have len: "length ?is = length order" by (simp add: order_def)
  have at: "w_wait w (?is ! n) = [order ! n]" "w_procp w (?is ! n) = Some (order ! n)" if "n < length order" for n
    using placed_nth [OF assms(1), of n] that by (simp_all only: len)
  have ex: "\<exists>n<length order. j = ?is ! n" if "j < MAXPROC" for j
  proof -
    have "j \<in> set ?is" using that by auto
    then show ?thesis unfolding len [symmetric] in_set_conv_nth by metis
  qed
  obtain n where n: "n < length order" "i = ?is ! n" using ex [OF assms(2)] by blast
  have "order ! n \<in> set order" using n(1) by simp
  then have "order ! n < MAXPROC" using set_order(1) by simp
  moreover have "order ! n \<notin> set (w_wait w j)" if j: "j < MAXPROC" "j \<noteq> i" for j
  proof -
    obtain m where m: "m < length order" "j = ?is ! m" using ex [OF j(1)] by blast
    then have "order ! n \<noteq> order ! m" using j(2) n nth_eq_iff_index_eq [OF set_order(2) n(1) m(1)] by auto
    then show ?thesis using at(1) [OF m(1)] m(2) by simp
  qed
  ultimately show ?thesis using at [OF n(1)] n(2) by blast
qed

definition w_passes :: "tester \<Rightarrow> p1 option \<Rightarrow> (wview \<Rightarrow> bool) \<Rightarrow> string list \<Rightarrow> string \<Rightarrow> bool" where
  "w_passes tm r P ms er \<longleftrightarrow> returns r (\<lambda>t. \<exists>w. wsim tm t w \<and> P w \<and> w_ok w = ms \<and> w_err w = er)"

lemma test_block_passes:
  assumes "sim t v" "v_free v = order" "v_queue v = Some []" "terminal_answers tm" "length (v_ok v) < 25"
  shows "w_passes tm (test_block tm t) (\<lambda>w. w_free w = [] \<and> placed ([10..<MAXPROC] @ [0..<10]) order w)
    (v_ok v @ [''Initialized active semaphore list   '', ''insertBlocked test #1 started  '', ''insertBlocked test #2 started  ''])
    (v_err v)"
proof -
  have ord: "order = [10..<MAXPROC] @ [7, 6, 8, 9, 4, 3, 2, 1, 5, 0]" by (rule order_def)
  have sub: "set [10..<MAXPROC] \<subseteq> {..<MAXPROC}" "set [0..<10] \<subseteq> {..<MAXPROC}" by (auto simp: MAXPROC_def)
  have pl: "placed ([10..<MAXPROC] @ [0..<10]) order (fold w_block [0..<10] ((fold w_block [10..<MAXPROC] w)\<lparr>w_ok := ms\<rparr>))"
    if w: "w_free w = order" "w_wait w = (\<lambda>_. [])" for w :: wview and ms
  proof -
    let ?w = "fold w_block [10..<MAXPROC] w"
    have "placed [10..<MAXPROC] [10..<MAXPROC] ?w"
      using w_block_placed [of "[10..<MAXPROC]" w] w by (simp add: ord)
    moreover have "w_wait ?w j = []" if "j < 10" for j using w_block_other [of j "[10..<MAXPROC]" w] that w by simp
    ultimately show ?thesis
      unfolding ord by (intro placed_append) (use w in \<open>auto simp: placed_def w_block_fields ord\<close>)
  qed
  show ?thesis
    using assms(1,4,5) unfolding test_block_def w_passes_def
    apply -
    apply (rule returns_bindI, rule initASL_rule, assumption, simp add: assms set_order, simp add: assms)
    apply (rule returns_bindI, rule w_addokbuf_rule, assumption, simp)
    apply (rule returns_bindI, rule w_addokbuf_rule, assumption, simp)
    apply (rule returns_bindI, rule block_loop_rule, assumption, rule sub(1), simp add: assms(2) ord, simp add: w_ready_def assms(2) set_order)
    apply (rule returns_bindI, rule w_addokbuf_rule, assumption, simp add: w_block_fields)
    apply (rule block_loop_rule, assumption, rule sub(2), simp add: w_block_fields assms(2) ord)
     apply (rule w_ready_fold, simp add: w_ready_def assms(2) set_order, simp add: assms(2) ord)
    apply (rule exI, rule conjI, assumption, rule conjI, rule conjI)
      apply (simp add: w_block_fields assms(2) ord del: upt_rec_numeral)
     apply (rule pl; simp add: assms(2))
    apply (simp add: w_block_fields del: upt_rec_numeral)
    done
qed

text \<open>The third loop puts the processes of the last ten semaphores behind those of the first ten.\<close>

lemma w_move_upd: "w_move i (w\<lparr>w_wait := L\<rparr>) = w\<lparr>w_wait := L(i := [], i - 10 := L (i - 10) @ L i)\<rparr>"
  by (simp add: w_move_def)

lemma fold_w_move:
  assumes "n \<le> 10"
  shows "fold w_move [10..<10 + n] w = w\<lparr>w_wait := (\<lambda>j. if j < n then w_wait w j @ w_wait w (10 + j)
    else if 10 \<le> j \<and> j < 10 + n then [] else w_wait w j)\<rparr>"
  using assms
proof (induction n)
  case (Suc n)
  let ?L = "\<lambda>n j. if j < n then w_wait w j @ w_wait w (10 + j) else if 10 \<le> j \<and> j < 10 + n then [] else w_wait w j"
  have u: "[10..<10 + Suc n] = [10..<10 + n] @ [10 + n]" using upt_Suc_append [of 10 "10 + n"] by simp
  have "fold w_move [10..<10 + Suc n] w = w_move (10 + n) (w\<lparr>w_wait := ?L n\<rparr>)" unfolding u using Suc by simp
  moreover have "(?L n)(10 + n := [], n := ?L n n @ ?L n (10 + n)) = ?L (Suc n)"
    using Suc.prems by (auto simp: fun_eq_iff)
  ultimately show ?case by (simp only: w_move_upd diff_add_inverse)
qed (auto intro!: wview.equality simp: fun_eq_iff)

lemma fold_w_move_all:
  "fold w_move [10..<MAXPROC] w = w\<lparr>w_wait := (\<lambda>j. if j < 10 then w_wait w j @ w_wait w (10 + j)
    else if j < MAXPROC then [] else w_wait w j)\<rparr>"
  using fold_w_move [of 10 w] by (auto simp: MAXPROC_def fun_eq_iff simp del: upt_rec_numeral intro!: wview.equality)

definition blocked_end :: "wview \<Rightarrow> bool" where
  "blocked_end w \<longleftrightarrow> w_free w = [] \<and> w_wait w 9 = [0, 19] \<and> w_wait w 11 = [] \<and> w_procp w 9 = Some 0 \<and> w_procp w 19 = Some 19 \<and>
    (\<forall>j<MAXPROC. j \<noteq> 9 \<longrightarrow> 19 \<notin> set (w_wait w j))"

lemma test_unblock_passes:
  assumes "wsim tm t w" "w_free w = []" "placed ([10..<MAXPROC] @ [0..<10]) order w" "adr_onesem tm \<notin> sem tm ` {..<MAXPROC}"
    and "terminal_answers tm" "length (w_ok w) < 28"
  shows "w_passes tm (test_unblock tm t) blocked_end
    (w_ok w @ [''removeBlocked test started   '', ''insertBlocked and removeBlocked ok   '']) (w_err w)"
proof -
  let ?is = "[10..<MAXPROC] @ [0..<10]"
  have nth: "?is ! 1 = 11" "?is ! 9 = 19" "?is ! 19 = 9" "order ! 1 = 11" "order ! 9 = 19" "order ! 19 = 0"
    by (simp_all add: order_def MAXPROC_def nth_append)
  have w: "w_wait w 11 = [11]" "w_wait w 19 = [19]" "w_wait w 9 = [0]" "w_procp w 19 = Some 19" "w_procp w 9 = Some 0"
    using placed_nth [OF assms(3), of 1] placed_nth [OF assms(3), of 9] placed_nth [OF assms(3), of 19] unfolding nth
    by (simp_all add: MAXPROC_def)
  note one = placed_all [OF assms(3)]
  have same: "w\<lparr>w_wait := (w_wait w)(11 := [11])\<rparr> = w" using w(1) by (simp add: fun_upd_idem)
  have full: "\<forall>i<MAXPROC. w_wait w i \<noteq> []" using one by fastforce
  have single: "w_single [10..<MAXPROC] (w\<lparr>w_ok := ms\<rparr>)" for ms
    using one assms(2) by (simp add: w_single_def)
  have eleven: "\<forall>i<MAXPROC. i \<noteq> 11 \<longrightarrow> 11 \<notin> set (w_wait w i)" "\<forall>i<MAXPROC. i \<noteq> 19 \<longrightarrow> 19 \<notin> set (w_wait w i)"
    using one [of 11] one [of 19] w by (auto simp: MAXPROC_def)
  show ?thesis
    using assms(1,2,4-) w eleven full unfolding test_unblock_def w_passes_def
    apply -
    apply (rule returns_bindI, rule w_remove_rule, assumption, simp add: MAXPROC_def, rule returns_pair, simp)
    apply (rule returns_bindI, rule w_insert_rule, assumption, simp add: MAXPROC_def, simp add: MAXPROC_def, rule returns_pair)
    apply (rule returns_bindI, rule expect_rule, simp, simp add: same wsim_procp)
    apply (rule returns_bindI, rule w_full_rule, assumption, assumption, simp, rule returns_pair)
    apply (rule returns_bindI, rule expect_rule, simp)
    apply (rule returns_bindI, rule w_addokbuf_rule, assumption, simp)
    apply (rule returns_bindI, rule move_loop_rule, assumption, simp, simp, rule single, unfold fold_w_move_all)
    apply (rule returns_bindI, rule w_remove_rule, assumption, simp add: MAXPROC_def, rule returns_pair)
    apply (rule returns_bindI, rule expect_rule, simp add: MAXPROC_def)
    apply (rule w_addokbuf_rule, assumption, simp)
    apply (rule exI, rule conjI, assumption, simp add: blocked_end_def MAXPROC_def)
    done
qed

lemma test_head_out_passes:
  assumes "wsim tm t w" "blocked_end w" "terminal_answers tm" "length (w_ok w) < 30"
  shows "w_passes tm (test_head_out tm t) (\<lambda>_. True)
    (w_ok w @ [''headBlocked and outBlocked ok   '', ''ASL module ok   '', ''So Long and Thanks for All the Fish'']) (w_err w)"
  using assms unfolding test_head_out_def w_passes_def blocked_end_def
  apply -
  apply (rule returns_bindI, rule w_head_rule, assumption, simp add: MAXPROC_def, rule returns_bindI, rule expect_rule, simp)
  apply (rule returns_bindI, rule w_head_rule, assumption, simp add: MAXPROC_def)
  apply (rule returns_bindI, rule expect_rule, simp, rule returns_bindI, rule expect_rule, simp add: wsim_procp, simp)
  apply (rule returns_bindI, rule w_out_rule [where i = 9], assumption, simp add: MAXPROC_def, rule returns_pair)
  apply (rule returns_bindI, rule expect_rule, simp)
  apply (rule returns_bindI, rule w_head_rule, assumption, simp add: MAXPROC_def)
  apply (rule returns_bindI, rule expect_rule, simp, rule returns_bindI, rule expect_rule, simp add: wsim_procp, simp)
  apply (rule returns_bindI, rule w_out_rule [where i = 9], assumption, simp add: MAXPROC_def, rule returns_pair)
  apply (rule returns_bindI, rule expect_rule, simp)
  apply (rule returns_bindI, rule w_out_other_rule, assumption, simp add: MAXPROC_def, rule returns_pair)
  apply (rule returns_bindI, rule expect_rule, simp)
  apply (rule returns_bindI, rule w_head_rule, assumption, simp add: MAXPROC_def, rule returns_bindI, rule expect_rule, simp)
  apply (rule returns_bindI, rule w_addokbuf_rule, assumption, simp)
  apply (rule returns_bindI, rule w_addokbuf_rule, assumption, simp)
  apply (rule w_addokbuf_rule, assumption, simp)
  apply (rule exI, rule conjI, assumption, simp)
  done

section \<open>The whole test\<close>

definition messages :: "string list" where
  "messages = [
    ''Initialized process control blocks   '', ''allocPcb ok   '', ''freed 10 entries   '',
    ''Inserting...   '', ''inserted 10 elements   '', ''outProcQ ok   '', ''Removing...   '',
    ''Stating priority queue tests...   '', ''insertProcQ, removeProcQ and emptyProcQ ok   '', ''process queues module ok      '',
    ''checking process trees...'', ''Inserting...   '', ''Inserted 9 children   '', ''outChild ok   '', ''Removing...   '',
    ''insertChild, removeChild and emptyChild ok   '', ''process tree module ok      '',
    ''Initialized active semaphore list   '', ''insertBlocked test #1 started  '', ''insertBlocked test #2 started  '',
    ''removeBlocked test started   '', ''insertBlocked and removeBlocked ok   '', ''headBlocked and outBlocked ok   '',
    ''ASL module ok   '', ''So Long and Thanks for All the Fish'']"

text \<open>From a part that passes to the next one.\<close>

lemma passes_bind:
  assumes "passes r P ms er" "\<And>t v. sim t v \<Longrightarrow> P v \<Longrightarrow> v_ok v = ms \<Longrightarrow> v_err v = er \<Longrightarrow> returns (f t) Q"
  shows "returns (Option.bind r f) Q"
  using assms unfolding passes_def by (auto intro: returns_seq)

lemma w_passes_bind:
  assumes "w_passes tm r P ms er" "\<And>t w. wsim tm t w \<Longrightarrow> P w \<Longrightarrow> w_ok w = ms \<Longrightarrow> w_err w = er \<Longrightarrow> returns (f t) Q"
  shows "returns (Option.bind r f) Q"
  using assms unfolding w_passes_def by (auto intro: returns_seq)

lemma p1test_main_returns:
  assumes "terminal_answers tm" "okbuf t = []" "adr_onesem tm \<notin> sem tm ` {..<MAXPROC}"
  shows "returns (p1test_main tm t) (\<lambda>(r, t'). r = 0 \<and> okbuf t' = lines_of messages \<and> errbuf t' = errbuf t)"
  unfolding p1test_main_def
  apply (rule passes_bind, rule test_alloc_passes [OF assms(2,1)], elim conjE)
  apply (rule passes_bind, rule test_insert_passes, assumption, assumption, rule assms(1), simp add: alloc_msgs_def, elim conjE)
  apply (rule returns_seq, rule test_out_passes, assumption, assumption, rule assms(1), simp add: alloc_msgs_def, assumption, assumption,
    assumption, assumption, clarify)
  apply (rule passes_bind, rule test_remove_passes, assumption, assumption, rule assms(1), simp add: alloc_msgs_def, assumption, assumption, elim conjE)
  apply (rule passes_bind, rule test_priority_passes, assumption, assumption, rule assms(1), simp add: alloc_msgs_def, assumption, elim conjE)
  apply (rule passes_bind, rule test_insertChild_passes, assumption, assumption, rule assms(1), simp add: alloc_msgs_def, elim conjE)
  apply (rule passes_bind, rule test_outChild_passes, assumption, assumption, assumption, assumption, assumption, rule assms(1),
    simp add: alloc_msgs_def, elim conjE)
  apply (rule passes_bind, rule test_removeChild_passes, assumption, simp, assumption, simp, simp, rule assms(1), simp add: alloc_msgs_def, elim conjE)
  apply (rule w_passes_bind, rule test_block_passes, assumption, simp add: order_def, assumption, rule assms(1), simp add: alloc_msgs_def, elim conjE)
  apply (rule w_passes_bind, rule test_unblock_passes, assumption, assumption, assumption, rule assms(3), rule assms(1), simp add: alloc_msgs_def)
  apply (rule w_passes_bind, rule test_head_out_passes, assumption, assumption, rule assms(1), simp add: alloc_msgs_def)
  apply (rule returns_SomeI, simp add: wsim_def alloc_msgs_def messages_def)
  done

end
