(* ===== verification/Props_Tests.thy ===== *)
theory Props_Tests
  imports P1_Semaphores Samples
begin

text \<open>The test of phase 1 passes, with an instance for a terminal that is busy at every other read.\<close>

section \<open>A terminal\<close>

text \<open>
  The terminal is busy at every other read of its status; \<open>onesem\<close> is the word before \<open>sem\<close>.
\<close>

definition sample_tester :: tester where
  "sample_tester = \<lparr>platform_of = sample_platform, BUSY = 3, READY = 1, TRANSTATUS = 2, TRANCOMMAND = 3, DEVREGLEN = 4,
     read_register = (\<lambda>n _. if even n then 5 else 3), adr_sem = 0x20004000, adr_onesem = 0x20003FFC\<rparr>"

definition sample_p1 :: p1 where
  "sample_p1 = \<lparr>kern = zero_kernel, okbuf = [], errbuf = [], procp = (\<lambda>_. None), firstproc = None, midproc = None,
     lastproc = None, reads = 0, commands = []\<rparr>"

lemma sample_terminal_answers: "terminal_answers sample_tester"
  unfolding terminal_answers_def
proof
  fix n
  have "n \<le> 2 * n" "read_register sample_tester (2 * n) (term0_status sample_tester) AND STATUSMASK \<noteq> BUSY sample_tester"
    by (simp_all add: sample_tester_def)
  then show "\<exists>m\<ge>n. read_register sample_tester m (term0_status sample_tester) AND STATUSMASK \<noteq> BUSY sample_tester" by blast
qed

lemma sample_onesem: "adr_onesem sample_tester \<notin> sem sample_tester ` {..<MAXPROC}"
proof
  assume "adr_onesem sample_tester \<in> sem sample_tester ` {..<MAXPROC}"
  then obtain i where i: "i < 20" "(0x20003FFC :: u32) = 0x20004000 + 4 * of_nat i"
    by (auto simp: sem_def sample_tester_def MAXPROC_def)
  have "[0..<20] = [0, 1, 2, 3, 4, 5, 6, 7, 8, 9, 10, 11, 12, 13, 14, 15, 16, 17, 18, 19::nat]" by (simp add: upt_rec)
  moreover have "i \<in> set [0..<20]" using i(1) by simp
  ultimately have "i \<in> set [0, 1, 2, 3, 4, 5, 6, 7, 8, 9, 10, 11, 12, 13, 14, 15, 16, 17, 18, 19]" by metis
  then show False using i(2) by (simp, elim disjE) simp_all
qed

section \<open>The property\<close>

text \<open>
  C10: The test of phase 1 passes. From any contents of the kernel structures and of the variables of
  the test, with any terminal that does not stay busy for ever, main of p1test.c returns 0: every
  call of the operations of pcb.c and asl.c is defined, each of the checks succeeds, so that nothing
  is written to errbuf and the endless loop of adderrbuf is never entered, and okbuf holds exactly the
  messages of success, in their order, inside the bounds of the buffer. The semaphore onesem is only
  taken not to be one of the array sem.
\<close>

theorem p1test_passes:
  assumes "terminal_answers tm" "okbuf t = []" "adr_onesem tm \<notin> sem tm ` {..<MAXPROC}"
  shows "\<exists>t'. p1test_main tm t = Some (0, t') \<and> okbuf t' = lines_of messages \<and> length (okbuf t') < 2048 \<and> errbuf t' = errbuf t"
proof -
  obtain t' where "p1test_main tm t = Some (0, t')" "okbuf t' = lines_of messages" "errbuf t' = errbuf t"
    using p1test_main_returns [OF assms] by (auto simp: returns_def)
  moreover have "length (lines_of messages) < 2048" by (simp add: lines_of_def messages_def)
  ultimately show ?thesis by auto
qed

theorem p1test_passes_witness:
  "terminal_answers sample_tester \<and>
    (\<exists>t'. p1test_main sample_tester sample_p1 = Some (0, t') \<and> okbuf t' = lines_of messages \<and> errbuf t' = [])"
  using p1test_passes [OF sample_terminal_answers _ sample_onesem, of sample_p1] sample_terminal_answers
  by (auto simp: sample_p1_def)

end
