(* ===== verification/P2test.thy ===== *)
theory P2test
  imports Support "HOL-Library.Signed_Division"
begin

text \<open>
  phase2/src/p2test.c: the test of phase 2. Its processes share the variables of the test and ask
  the nucleus for services. A process is modelled as a program that is given what the machine, the
  nucleus and the other processes do: the answer of the nucleus to a request, with the variables as
  they are when the process goes on, and what the others do to the variables before each access. A
  statement takes the rest of the program as its last argument, so that a request that does not
  return, a trap or PANIC ends the run. \<open>None\<close> is an endless or undefined run.
\<close>

section \<open>Variables\<close>

text \<open>The integer variables, the states and the functions whose addresses the test takes.\<close>

datatype gvar = Sem_term_mut | Sem_s nat | Sem_testsem | Sem_startp2 | Sem_endp2 | Sem_endp3 | Sem_blkp4 | Sem_synp4
  | Sem_endp4 | Sem_endp5 | Sem_endp8 | Sem_endcreate nat | Sem_blkp8 | Sem_blkp9
  | P2pid | P3pid | P4pid | P8pid | P9pid | P1p2synch | P8inc | P4inc | P5Stack | P5MemLocation

datatype pvar = P2state | P3state | P4state | P5state | P6state | P7state | P8rootstate | Child1state | Child2state
  | Gchild1state | Gchild2state | Gchild3state | Gchild4state | P9state | P10state | Hp_p1state | Hp_p2state

datatype fname = F_p2 | F_p3 | F_p4 | F_p5 | F_p5a | F_p5b | F_p5gen | F_p5mm | F_p6 | F_p7 | F_p8root | F_child1 | F_child2
  | F_p8leaf1 | F_p8leaf2 | F_p8leaf3 | F_p8leaf4 | F_p9 | F_p10 | F_hp_p1 | F_hp_p2

type_synonym vars2 = "gvar \<Rightarrow> u32"

text \<open>
  What surrounds a process, with a state of its own: the nucleus (\<open>None\<close>: the process does not run
  again), the other processes, the variables, the clock, the processor state of STST, the addresses
  that can be accessed, and the addresses that the linker gives.
\<close>

record 'w machine2 =
  nucleus :: "u32 \<times> u32 \<times> u32 \<times> u32 \<Rightarrow> 'w \<Rightarrow> (u32 \<times> 'w) option"
  others :: "'w \<Rightarrow> 'w"
  peek :: "'w \<Rightarrow> vars2"
  poke :: "gvar \<Rightarrow> u32 \<Rightarrow> 'w \<Rightarrow> 'w"
  clock :: "'w \<Rightarrow> u32"
  stst :: "'w \<Rightarrow> state_t"
  timescale :: u32
  accessible :: "u32 \<Rightarrow> bool"
  adr :: "gvar \<Rightarrow> u32"
  adr_state :: "pvar \<Rightarrow> u32"
  adr_pFiveSupport :: u32
  entry :: "fname \<Rightarrow> u32"
  sp2 :: nat                                          \<comment> \<open>index of \<open>reg_sp\<close> in a state\<close>

record 'w p2state =
  around :: 'w
  pstates :: "pvar \<Rightarrow> state_t"
  pFiveSupport :: support_t
  requests :: "(u32 \<times> u32 \<times> u32 \<times> u32) list"

datatype ending = PANICKED | GONE | TRAPPED u32 | LOADED state_t | RETURNED

type_synonym 'w run = "'w p2state \<Rightarrow> (ending \<times> 'w p2state) option"

section \<open>Statements\<close>

definition PANIC2 :: "'w run" where
  "PANIC2 t = Some (PANICKED, t)"

definition return2 :: "'w run" where
  "return2 t = Some (RETURNED, t)"

definition LDST2 :: "('w p2state \<Rightarrow> state_t) \<Rightarrow> 'w run" where
  "LDST2 st t = Some (LOADED (st t), t)"

definition SYSCALL2 :: "'w machine2 \<Rightarrow> u32 \<Rightarrow> u32 \<Rightarrow> u32 \<Rightarrow> u32 \<Rightarrow> (u32 \<Rightarrow> 'w run) \<Rightarrow> 'w run" where
  "SYSCALL2 e n a1 a2 a3 k t =
    (let t' = t\<lparr>requests := requests t @ [(n, a1, a2, a3)]\<rparr>
     in case nucleus e (n, a1, a2, a3) (around t) of
          None \<Rightarrow> Some (GONE, t')
        | Some (r, w) \<Rightarrow> k r (t'\<lparr>around := w\<rparr>))"

definition rd :: "'w machine2 \<Rightarrow> gvar \<Rightarrow> (u32 \<Rightarrow> 'w run) \<Rightarrow> 'w run" where
  "rd e x k t = (let w = others e (around t) in k (peek e w x) (t\<lparr>around := w\<rparr>))"

definition wr :: "'w machine2 \<Rightarrow> gvar \<Rightarrow> u32 \<Rightarrow> 'w run \<Rightarrow> 'w run" where
  "wr e x v k t = k (t\<lparr>around := poke e x v (others e (around t))\<rparr>)"

definition STCK2 :: "'w machine2 \<Rightarrow> (u32 \<Rightarrow> 'w run) \<Rightarrow> 'w run" where
  "STCK2 e k t = (let w = others e (around t) in k (clock e w) (t\<lparr>around := w\<rparr>))"

text \<open>An access to a word that is not one of the variables.\<close>

definition touch :: "'w machine2 \<Rightarrow> u32 \<Rightarrow> 'w run \<Rightarrow> 'w run" where
  "touch e a k t = (if accessible e a then k t else Some (TRAPPED a, t))"

definition upd2 :: "('w p2state \<Rightarrow> 'w p2state) \<Rightarrow> 'w run \<Rightarrow> 'w run" where
  "upd2 f k t = k (f t)"

text \<open>P and V, and a line of text.\<close>

definition passeren :: "'w machine2 \<Rightarrow> gvar \<Rightarrow> 'w run \<Rightarrow> 'w run" where
  "passeren e x k = SYSCALL2 e PASSEREN (adr e x) 0 0 (\<lambda>_. k)"

definition verhogen :: "'w machine2 \<Rightarrow> gvar \<Rightarrow> 'w run \<Rightarrow> 'w run" where
  "verhogen e x k = SYSCALL2 e VERHOGEN (adr e x) 0 0 (\<lambda>_. k)"

definition create :: "'w machine2 \<Rightarrow> pvar \<Rightarrow> u32 \<Rightarrow> u32 \<Rightarrow> (u32 \<Rightarrow> 'w run) \<Rightarrow> 'w run" where
  "create e v pr su = SYSCALL2 e CREATEPROCESS (adr_state e v) pr su"

text \<open>The same with the result stored in a variable, or dropped.\<close>

definition create_into :: "'w machine2 \<Rightarrow> gvar \<Rightarrow> pvar \<Rightarrow> u32 \<Rightarrow> u32 \<Rightarrow> 'w run \<Rightarrow> 'w run" where
  "create_into e x v pr su k = create e v pr su (\<lambda>pid. wr e x pid k)"

definition create_only :: "'w machine2 \<Rightarrow> pvar \<Rightarrow> u32 \<Rightarrow> u32 \<Rightarrow> 'w run \<Rightarrow> 'w run" where
  "create_only e v pr su k = create e v pr su (\<lambda>_. k)"

definition request2 :: "'w machine2 \<Rightarrow> u32 \<Rightarrow> u32 \<Rightarrow> 'w run \<Rightarrow> 'w run" where
  "request2 e n a1 k = SYSCALL2 e n a1 0 0 (\<lambda>_. k)"

abbreviation (input) line :: "string \<Rightarrow> string" where
  "line msg \<equiv> msg @ [CHR 0x0A]"

abbreviation (input) quote :: string where
  "quote \<equiv> [CHR 0x27]"

abbreviation (input) GETTIME :: u32 where
  "GETTIME \<equiv> - 6"

abbreviation (input) CLOCKWAIT :: u32 where
  "CLOCKWAIT \<equiv> - 7"

abbreviation (input) GETPROCESSID :: u32 where
  "GETPROCESSID \<equiv> - 9"

abbreviation (input) YIELD :: u32 where
  "YIELD \<equiv> - 10"

abbreviation (input) PROCESS_PRIO_HIGH :: u32 where
  "PROCESS_PRIO_HIGH \<equiv> 1"

abbreviation (input) QPAGE :: u32 where
  "QPAGE \<equiv> 1024"

abbreviation (input) BADADDR :: u32 where
  "BADADDR \<equiv> 0xFFFFFFFF"

abbreviation (input) MAXSEM :: nat where
  "MAXSEM \<equiv> 20"

abbreviation (input) NOLEAVES :: nat where
  "NOLEAVES \<equiv> 4"

section \<open>Printing\<close>

text \<open>The command register of terminal 0 is the fourth word of its register.\<close>

abbreviation (input) print_command :: u32 where
  "print_command \<equiv> 0x10000254 + 3 * 4"

primrec print_loop :: "'w machine2 \<Rightarrow> string \<Rightarrow> 'w run \<Rightarrow> 'w run" where
  "print_loop e [] k = k"
| "print_loop e (c # cs) k =
    SYSCALL2 e DOIO print_command (2 OR push_bit 8 (of_char c)) 0 (\<lambda>st.
      if st AND 0xFF \<noteq> 5 then PANIC2 else print_loop e cs k)"

definition print2 :: "'w machine2 \<Rightarrow> string \<Rightarrow> 'w run \<Rightarrow> 'w run" where
  "print2 e msg k = passeren e Sem_term_mut (print_loop e msg (verhogen e Sem_term_mut k))"

text \<open>An error that ends the test.\<close>

definition fail2 :: "'w machine2 \<Rightarrow> string \<Rightarrow> 'w run" where
  "fail2 e msg = print2 e msg PANIC2"

text \<open>A check of a variable, and of the identifier of the process (0) or of its parent (1).\<close>

definition check_var :: "'w machine2 \<Rightarrow> gvar \<Rightarrow> u32 \<Rightarrow> string \<Rightarrow> 'w run \<Rightarrow> 'w run" where
  "check_var e x v msg k = rd e x (\<lambda>v'. if v' \<noteq> v then fail2 e msg else k)"

definition check_pid :: "'w machine2 \<Rightarrow> u32 \<Rightarrow> gvar \<Rightarrow> string \<Rightarrow> 'w run \<Rightarrow> 'w run" where
  "check_pid e who x msg k =
    SYSCALL2 e GETPROCESSID who 0 0 (\<lambda>pid. rd e x (\<lambda>v. if pid \<noteq> v then fail2 e msg else k))"

section \<open>The root process\<close>

definition test_semaphores :: "'w machine2 \<Rightarrow> 'w run \<Rightarrow> 'w run" where
  "test_semaphores e =
    verhogen e Sem_testsem \<circ>
    verhogen e Sem_testsem \<circ>
    verhogen e Sem_testsem \<circ>
    check_var e Sem_testsem 3 (line ''Error: wrong semaphore value'') \<circ>
    passeren e Sem_testsem \<circ>
    passeren e Sem_testsem \<circ>
    passeren e Sem_testsem \<circ>
    check_var e Sem_testsem 0 (line ''Error: wrong semaphore value'') \<circ>
    print2 e (line ''p1 v(sem_testsem)'')"

text \<open>A state: STST, then the stack below that of another state, the entry point, the mode and the interrupts.\<close>

definition sp_of :: "'w machine2 \<Rightarrow> pvar \<Rightarrow> 'w p2state \<Rightarrow> u32" where
  "sp_of e v t = gpr (pstates t v) (sp2 e)"

definition prepare :: "'w machine2 \<Rightarrow> pvar \<Rightarrow> pvar \<Rightarrow> u32 \<Rightarrow> fname \<Rightarrow> 'w run \<Rightarrow> 'w run" where
  "prepare e v u n f = upd2 (\<lambda>t.
    let w = others e (around t);
        st = stst e w;
        t = t\<lparr>around := w, pstates := (pstates t)(v := st)\<rparr>;
        st = st\<lparr>gpr := (gpr st)(sp2 e := sp_of e u t - n * QPAGE), pc_epc := entry e f,
                status := status st OR (MSTATUS_MPIE_MASK OR MSTATUS_MPP_M), mie := MIE_ALL\<rparr>
    in t\<lparr>pstates := (pstates t)(v := st)\<rparr>)"

definition set_p5Stack :: "'w machine2 \<Rightarrow> 'w run \<Rightarrow> 'w run" where
  "set_p5Stack e k t = wr e P5Stack (sp_of e P5state t) k t"

definition test_states :: "'w machine2 \<Rightarrow> 'w run \<Rightarrow> 'w run" where
  "test_states e =
    prepare e Hp_p1state Hp_p1state 1 F_hp_p1 \<circ>
    prepare e Hp_p2state Hp_p1state 1 F_hp_p2 \<circ>
    prepare e P2state Hp_p2state 1 F_p2 \<circ>
    prepare e P3state P2state 1 F_p3 \<circ>
    prepare e P4state P3state 1 F_p4 \<circ>
    prepare e P5state P4state 2 F_p5 \<circ>
    set_p5Stack e \<circ>
    prepare e P6state P5state 2 F_p6 \<circ>
    prepare e P7state P6state 1 F_p7 \<circ>
    prepare e P8rootstate P7state 1 F_p8root \<circ>
    prepare e Child1state P8rootstate 1 F_child1 \<circ>
    prepare e Child2state Child1state 1 F_child2 \<circ>
    prepare e Gchild1state Child2state 1 F_p8leaf1 \<circ>
    prepare e Gchild2state Gchild1state 1 F_p8leaf2 \<circ>
    prepare e Gchild3state Gchild2state 1 F_p8leaf3 \<circ>
    prepare e Gchild4state Gchild3state 1 F_p8leaf4 \<circ>
    prepare e P9state Gchild4state 1 F_p9 \<circ>
    prepare e P10state P9state 1 F_p10"

text \<open>One of the two exception contexts of p5.\<close>

definition set_five_context :: "'w machine2 \<Rightarrow> nat \<Rightarrow> fname \<Rightarrow> 'w run \<Rightarrow> 'w run" where
  "set_five_context e i f k = rd e P5Stack (\<lambda>sp. upd2 (\<lambda>t.
    let c = sup_exceptContext (pFiveSupport t) i;
        c = c\<lparr>ctx_stackPtr := sp, ctx_status := ctx_status c OR (MSTATUS_MPIE_MASK OR MSTATUS_MPP_M), ctx_pc := entry e f\<rparr>
    in t\<lparr>pFiveSupport := (pFiveSupport t)\<lparr>sup_exceptContext := (sup_exceptContext (pFiveSupport t))(i := c)\<rparr>\<rparr>) k)"

text \<open>The check that p1 has waited for p2.\<close>

definition check_synch :: "'w machine2 \<Rightarrow> 'w run \<Rightarrow> 'w run" where
  "check_synch e k = rd e P1p2synch (\<lambda>v.
    if v = 0 then print2 e (line ''error: p1/p2 synchronization bad'') k else k)"

definition test_start :: "'w machine2 \<Rightarrow> 'w run \<Rightarrow> 'w run" where
  "test_start e =
    create_into e P2pid P2state PROCESS_PRIO_LOW 0 \<circ>
    print2 e (line ''p2 was started'') \<circ>
    verhogen e Sem_startp2 \<circ>
    passeren e Sem_endp2 \<circ>
    check_synch e \<circ>
    create_into e P3pid P3state PROCESS_PRIO_LOW 0 \<circ>
    print2 e (line ''p3 is started'') \<circ>
    passeren e Sem_endp3 \<circ>
    create_only e Hp_p1state 10 0 \<circ>
    create_only e Hp_p2state PROCESS_PRIO_HIGH 0 \<circ>
    create_into e P4pid P4state PROCESS_PRIO_LOW 0"

definition test_five :: "'w machine2 \<Rightarrow> 'w run \<Rightarrow> 'w run" where
  "test_five e =
    set_five_context e GENERALEXCEPT F_p5gen \<circ>
    set_five_context e PGFAULTEXCEPT F_p5mm \<circ>
    create_only e P5state PROCESS_PRIO_LOW (adr_pFiveSupport e) \<circ>
    create_only e P6state PROCESS_PRIO_LOW 0 \<circ>
    create_only e P7state PROCESS_PRIO_LOW 0 \<circ>
    create_into e P9pid P9state PROCESS_PRIO_LOW 0 \<circ>
    passeren e Sem_endp5 \<circ>
    print2 e (line ''p1 knows p5 ended'') \<circ>
    passeren e Sem_blkp4"

primrec reset_leaves :: "'w machine2 \<Rightarrow> nat list \<Rightarrow> 'w run \<Rightarrow> 'w run" where
  "reset_leaves e [] k = k"
| "reset_leaves e (i # is) k = wr e (Sem_endcreate i) 0 (reset_leaves e is k)"

text \<open>The body of the loop over the incarnations of p8, and the loop; its counter is a variable of the test.\<close>

definition p8_body :: "'w machine2 \<Rightarrow> 'w run \<Rightarrow> 'w run" where
  "p8_body e =
    wr e Sem_blkp8 0 \<circ>
    wr e Sem_endp8 0 \<circ>
    reset_leaves e [0..<NOLEAVES] \<circ>
    create_into e P8pid P8rootstate PROCESS_PRIO_LOW 0 \<circ>
    passeren e Sem_endp8"

lemma mono_SYSCALL2 [partial_function_mono]:
  "(\<And>r t. mono_option (\<lambda>f. K f r t)) \<Longrightarrow> mono_option (\<lambda>f. SYSCALL2 e n a1 a2 a3 (K f) t)"
  by (cases "nucleus e (n, a1, a2, a3) (around t)") (auto simp: SYSCALL2_def Let_def split_def option.const_mono)

lemma mono_access [partial_function_mono]:
  "(\<And>v t. mono_option (\<lambda>f. K f v t)) \<Longrightarrow> mono_option (\<lambda>f. rd e x (K f) t)"
  "(\<And>v t. mono_option (\<lambda>f. K f v t)) \<Longrightarrow> mono_option (\<lambda>f. STCK2 e (K f) t)"
  "(\<And>t. mono_option (\<lambda>f. L f t)) \<Longrightarrow> mono_option (\<lambda>f. wr e x v (L f) t)"
  by (simp_all add: rd_def wr_def STCK2_def Let_def)

lemma mono_reset_leaves [partial_function_mono]:
  "(\<And>t. mono_option (\<lambda>f. L f t)) \<Longrightarrow> mono_option (\<lambda>f. reset_leaves e is (L f) t)"
  by (induction "is" arbitrary: t) (simp_all add: mono_access)

lemma mono_p8_body [partial_function_mono]:
  "(\<And>t. mono_option (\<lambda>f. L f t)) \<Longrightarrow> mono_option (\<lambda>f. p8_body e (L f) t)"
  unfolding p8_body_def passeren_def create_into_def create_def o_apply
  by (intro mono_access mono_reset_leaves mono_SYSCALL2)

partial_function (option) p8_loop :: "'w machine2 \<Rightarrow> 'w run \<Rightarrow> 'w run" where
  "p8_loop e k t = rd e P8inc (\<lambda>i t. if slt i 4 then
     p8_body e (rd e P8inc (\<lambda>i. wr e P8inc (i + 1) (p8_loop e k))) t else k t) t"

definition p2test_main :: "'w machine2 \<Rightarrow> 'w run" where
  "p2test_main e =
    (test_semaphores e \<circ>
     test_states e \<circ>
     test_start e \<circ>
     test_five e \<circ>
     wr e P8inc 0 \<circ>
     p8_loop e \<circ>
     print2 e (line ''p1 finishes OK -- TTFN'') \<circ>
     touch e BADADDR)
    (fail2 e (line ''error: p1 still alive after progtrap & no trap vector''))"

section \<open>p2: semaphores and processor time\<close>

primrec clear_s :: "'w machine2 \<Rightarrow> nat list \<Rightarrow> 'w run \<Rightarrow> 'w run" where
  "clear_s e [] k = k"
| "clear_s e (i # is) k = wr e (Sem_s i) 0 (clear_s e is k)"

primrec pairs_s :: "'w machine2 \<Rightarrow> nat list \<Rightarrow> 'w run \<Rightarrow> 'w run" where
  "pairs_s e [] k = k"
| "pairs_s e (i # is) k =
    verhogen e (Sem_s i) (passeren e (Sem_s i) (rd e (Sem_s i) (\<lambda>v.
      if v \<noteq> 0 then print2 e (line ''error: p2 bad v/p pairs'') (pairs_s e is k) else pairs_s e is k)))"

text \<open>
  The comparison of the times; cpu_t is a signed integer. The empty loop between the two readings
  takes time and does nothing else.
\<close>

definition check_times :: "'w machine2 \<Rightarrow> u32 \<Rightarrow> u32 \<Rightarrow> u32 \<Rightarrow> u32 \<Rightarrow> 'w run \<Rightarrow> 'w run" where
  "check_times e now1 now2 cpu_t1 cpu_t2 k t =
    (if timescale e = 0 then None
     else let least = (30000 :: int) sdiv sint (timescale e)
          in if sint (now2 - now1) \<ge> sint (cpu_t2 - cpu_t1) \<and> sint (cpu_t2 - cpu_t1) \<ge> least
             then print2 e (line ''p2 is OK'') k t
             else ((if sint (now2 - now1) < sint (cpu_t2 - cpu_t1)
                    then print2 e (line ''error: more cpu time than real time'') else id) \<circ>
                   (if sint (cpu_t2 - cpu_t1) < least
                    then print2 e (line ''error: not enough cpu time went by'') else id) \<circ>
                   print2 e (line ''p2 blew it!'')) k t)"

definition p2_times :: "'w machine2 \<Rightarrow> 'w run \<Rightarrow> 'w run" where
  "p2_times e k =
    STCK2 e (\<lambda>now1. SYSCALL2 e GETTIME 0 0 0 (\<lambda>cpu_t1. SYSCALL2 e GETTIME 0 0 0 (\<lambda>cpu_t2. STCK2 e (\<lambda>now2.
      check_times e now1 now2 cpu_t1 cpu_t2 k))))"

definition p2 :: "'w machine2 \<Rightarrow> 'w run" where
  "p2 e =
    (passeren e Sem_startp2 \<circ>
     print2 e (line ''p2 starts'') \<circ>
     check_pid e 0 P2pid (line ''Inconsistent process id for p2!'') \<circ>
     clear_s e [0..<Suc MAXSEM] \<circ>
     pairs_s e [0..<Suc MAXSEM] \<circ>
     print2 e (line (''p2 v'' @ quote @ ''s successfully'')) \<circ>
     p2_times e \<circ>
     wr e P1p2synch 1 \<circ>
     verhogen e Sem_endp2 \<circ>
     request2 e TERMPROCESS 0)
    (fail2 e (line (''error: p2 didn'' @ quote @ ''t terminate'')))"

section \<open>p3: the pseudo-clock\<close>

text \<open>CLOCKINTERVAL is an unsigned constant, so that the comparison is unsigned.\<close>

partial_function (option) clock_loop :: "'w machine2 \<Rightarrow> u32 \<Rightarrow> u32 \<Rightarrow> 'w run \<Rightarrow> 'w run" where
  "clock_loop e time1 time2 k t =
    (if time2 - time1 < 50000 then
       STCK2 e (\<lambda>time1. SYSCALL2 e CLOCKWAIT 0 0 0 (\<lambda>_. STCK2 e (\<lambda>time2. clock_loop e time1 time2 k))) t
     else k t)"

primrec repeat2 :: "nat \<Rightarrow> ('w run \<Rightarrow> 'w run) \<Rightarrow> 'w run \<Rightarrow> 'w run" where
  "repeat2 0 f k = k"
| "repeat2 (Suc n) f k = f (repeat2 n f k)"

definition check_cpu :: "'w machine2 \<Rightarrow> u32 \<Rightarrow> u32 \<Rightarrow> 'w run \<Rightarrow> 'w run" where
  "check_cpu e cpu_t1 cpu_t2 k t =
    (if timescale e = 0 then None
     else if sint (cpu_t2 - cpu_t1) < (3000 :: int) sdiv sint (timescale e)
     then print2 e (line ''error: p3 - CPU time incorrectly maintained'') k t
     else print2 e (line ''p3 - CPU time correctly maintained'') k t)"

definition p3 :: "'w machine2 \<Rightarrow> 'w run" where
  "p3 e =
    (clock_loop e 0 0 \<circ>
     print2 e (line ''p3 - CLOCKWAIT OK'') \<circ>
     (\<lambda>k. SYSCALL2 e GETTIME 0 0 0 (\<lambda>cpu_t1. repeat2 10 (request2 e CLOCKWAIT 0) (
        SYSCALL2 e GETTIME 0 0 0 (\<lambda>cpu_t2. check_cpu e cpu_t1 cpu_t2 k)))) \<circ>
     check_pid e 0 P3pid (line ''Inconsistent process id for p3!'') \<circ>
     verhogen e Sem_endp3 \<circ>
     request2 e TERMPROCESS 0)
    (fail2 e (line (''error: p3 didn'' @ quote @ ''t terminate'')))"

section \<open>p4: termination\<close>

definition p4_starts :: "'w machine2 \<Rightarrow> 'w run \<Rightarrow> 'w run" where
  "p4_starts e k = rd e P4inc (\<lambda>i.
    if i = 1 then print2 e (line ''first incarnation of p4 starts'') (rd e P4inc (\<lambda>i. wr e P4inc (i + 1) k))
    else if i = 2 then print2 e (line ''second incarnation of p4 starts'') k
    else k)"

definition lower_stack :: "'w machine2 \<Rightarrow> pvar \<Rightarrow> 'w p2state \<Rightarrow> 'w p2state" where
  "lower_stack e v t = t\<lparr>pstates := (pstates t)(v := (pstates t v)\<lparr>gpr := (gpr (pstates t v))(sp2 e := sp_of e v t - QPAGE)\<rparr>)\<rparr>"

definition p4 :: "'w machine2 \<Rightarrow> 'w run" where
  "p4 e =
    (p4_starts e \<circ>
     check_pid e 0 P4pid (line ''Inconsistent process id for p4!'') \<circ>
     verhogen e Sem_synp4 \<circ>
     passeren e Sem_blkp4 \<circ>
     passeren e Sem_synp4 \<circ>
     upd2 (lower_stack e P4state) \<circ>
     create_into e P4pid P4state PROCESS_PRIO_LOW 0 \<circ>
     passeren e Sem_synp4 \<circ>
     print2 e (line ''p4 is OK'') \<circ>
     verhogen e Sem_endp4 \<circ>
     request2 e TERMPROCESS 0)
    (fail2 e (line (''error: p4 didn'' @ quote @ ''t terminate'')))"

section \<open>p5: traps\<close>

definition upd_five :: "nat \<Rightarrow> (state_t \<Rightarrow> state_t) \<Rightarrow> 'w p2state \<Rightarrow> 'w p2state" where
  "upd_five i f t = t\<lparr>pFiveSupport := (pFiveSupport t)\<lparr>sup_exceptState :=
     (sup_exceptState (pFiveSupport t))(i := f (sup_exceptState (pFiveSupport t) i))\<rparr>\<rparr>"

abbreviation (input) five_state :: "nat \<Rightarrow> 'w p2state \<Rightarrow> state_t" where
  "five_state i \<equiv> (\<lambda>t. sup_exceptState (pFiveSupport t) i)"

definition p5sys :: "'w machine2 \<Rightarrow> 'w run" where
  "p5sys e t =
    (let p5status = drop_bit 31 (push_bit 28 (status (five_state GENERALEXCEPT t)))
     in ((if p5status = 1 then print2 e (line ''High level SYS call from user mode process'')
          else if p5status = 0 then print2 e (line ''High level SYS call from kernel mode process'') else id) \<circ>
         upd2 (upd_five GENERALEXCEPT (\<lambda>st. st\<lparr>pc_epc := pc_epc st + 4\<rparr>)))
        (LDST2 (five_state GENERALEXCEPT)) t)"

definition p5gen :: "'w machine2 \<Rightarrow> 'w run" where
  "p5gen e t =
    (let exeCode = cause (five_state GENERALEXCEPT t)
     in if exeCode = 7 then
          (print2 e (line ''Bus Error (as expected): Access non-existent memory'') \<circ>
           upd2 (upd_five GENERALEXCEPT (\<lambda>st. st\<lparr>pc_epc := entry e F_p5a\<rparr>)))
          (LDST2 (five_state GENERALEXCEPT)) t
        else if exeCode = 5 then
          (print2 e (line ''Address Error (as expected): non-kuseg access w/KU=1'') \<circ>
           upd2 (upd_five GENERALEXCEPT (\<lambda>st. st\<lparr>status := status st OR MSTATUS_MPP_M\<rparr>)) \<circ>
           upd2 (upd_five GENERALEXCEPT (\<lambda>st. st\<lparr>pc_epc := entry e F_p5b\<rparr>)))
          (LDST2 (five_state GENERALEXCEPT)) t
        else if exeCode = 11 then p5sys e t
        else fail2 e (line ''ERROR: other program trap'') t)"

definition p5mm :: "'w machine2 \<Rightarrow> 'w run" where
  "p5mm e =
    (print2 e (line ''memory management trap'') \<circ>
     (\<lambda>k. SYSCALL2 e GETSUPPORTPTR 0 0 0 (\<lambda>a.
        print2 e (line (if a \<noteq> adr_pFiveSupport e then ''Support Structure Address Error''
          else ''Correct Support Structure Address'')) k)) \<circ>
     upd2 (upd_five PGFAULTEXCEPT (\<lambda>st. st\<lparr>status := status st AND NOT MSTATUS_MPP_M\<rparr>)) \<circ>
     upd2 (upd_five PGFAULTEXCEPT (\<lambda>st. st\<lparr>pc_epc := entry e F_p5b\<rparr>)))
    (LDST2 (five_state PGFAULTEXCEPT))"

definition p5 :: "'w machine2 \<Rightarrow> 'w run" where
  "p5 e = print2 e (line ''p5 starts'') (rd e P5MemLocation (\<lambda>a. touch e a (rd e P5MemLocation (\<lambda>b. touch e b return2))))"

definition p5a :: "'w machine2 \<Rightarrow> 'w run" where
  "p5a e = wr e P5MemLocation 0x80000000 (rd e P5MemLocation (\<lambda>a. touch e a return2))"

definition p5b :: "'w machine2 \<Rightarrow> 'w run" where
  "p5b e =
    (request2 e 1 0 \<circ>
     passeren e Sem_endp4 \<circ>
     clock_loop e 0 0 \<circ>
     verhogen e Sem_blkp4 \<circ>
     verhogen e Sem_endp5 \<circ>
     request2 e TERMPROCESS 0)
    (fail2 e (line (''error: p5 didn'' @ quote @ ''t terminate'')))"

section \<open>p6 and p7: traps without a support structure\<close>

definition p6 :: "'w machine2 \<Rightarrow> 'w run" where
  "p6 e =
    (print2 e (line ''p6 starts'') \<circ>
     request2 e 1 0)
    (fail2 e (line ''error: p6 alive after SYS9() with no trap vector''))"

definition p7 :: "'w machine2 \<Rightarrow> 'w run" where
  "p7 e =
    (print2 e (line ''p7 starts'') \<circ>
     touch e BADADDR)
    (fail2 e (line ''error: p7 alive after program trap with no trap vector''))"

section \<open>p8: a tree of processes\<close>

primrec wait_leaves :: "'w machine2 \<Rightarrow> nat list \<Rightarrow> 'w run \<Rightarrow> 'w run" where
  "wait_leaves e [] k = k"
| "wait_leaves e (i # is) k = passeren e (Sem_endcreate i) (wait_leaves e is k)"

definition p8root :: "'w machine2 \<Rightarrow> 'w run" where
  "p8root e =
    (print2 e (line ''p8root starts'') \<circ>
     create_only e Child1state PROCESS_PRIO_LOW 0 \<circ>
     create_only e Child2state PROCESS_PRIO_LOW 0 \<circ>
     wait_leaves e [0..<NOLEAVES] \<circ>
     verhogen e Sem_endp8 \<circ>
     request2 e TERMPROCESS 0)
    return2"

definition child1 :: "'w machine2 \<Rightarrow> 'w run" where
  "child1 e =
    (print2 e (line ''child1 starts'') \<circ>
     check_pid e 1 P8pid (line (''Inconsistent (parent) process id for p8'' @ quote @ ''s first child'')) \<circ>
     create_only e Gchild1state PROCESS_PRIO_LOW 0 \<circ>
     create_only e Gchild2state PROCESS_PRIO_LOW 0 \<circ>
     passeren e Sem_blkp8)
    return2"

definition child2 :: "'w machine2 \<Rightarrow> 'w run" where
  "child2 e =
    (print2 e (line ''child2 starts'') \<circ>
     check_pid e 1 P8pid (line (''Inconsistent (parent) process id for p8'' @ quote @ ''s first child'')) \<circ>
     create_only e Gchild3state PROCESS_PRIO_LOW 0 \<circ>
     create_only e Gchild4state PROCESS_PRIO_LOW 0 \<circ>
     passeren e Sem_blkp8)
    return2"

definition p8leaf1 :: "'w machine2 \<Rightarrow> 'w run" where
  "p8leaf1 e = (print2 e (line ''leaf process (1) starts'') \<circ> verhogen e (Sem_endcreate 0) \<circ> passeren e Sem_blkp8) return2"

definition p8leaf2 :: "'w machine2 \<Rightarrow> 'w run" where
  "p8leaf2 e = (print2 e (line ''leaf process (2) starts'') \<circ> verhogen e (Sem_endcreate 1) \<circ> passeren e Sem_blkp8) return2"

definition p8leaf3 :: "'w machine2 \<Rightarrow> 'w run" where
  "p8leaf3 e = (print2 e (line ''leaf process (3) starts'') \<circ> verhogen e (Sem_endcreate 2) \<circ> passeren e Sem_blkp8) return2"

definition p8leaf4 :: "'w machine2 \<Rightarrow> 'w run" where
  "p8leaf4 e = (print2 e (line ''leaf process (4) starts'') \<circ> verhogen e (Sem_endcreate 3) \<circ> passeren e Sem_blkp8) return2"

section \<open>p9 and p10: identifiers; hp_p1 and hp_p2: priorities\<close>

definition p9 :: "'w machine2 \<Rightarrow> 'w run" where
  "p9 e = (print2 e (line ''p9 starts'') \<circ> create_only e P10state PROCESS_PRIO_LOW 0 \<circ> passeren e Sem_blkp9) return2"

definition p10 :: "'w machine2 \<Rightarrow> 'w run" where
  "p10 e = print2 e (line ''p10 starts'') (SYSCALL2 e GETPROCESSID 1 0 0 (\<lambda>ppid. rd e P9pid (\<lambda>v.
    if ppid \<noteq> v then fail2 e (line ''Inconsistent process id for p9!'')
    else request2 e TERMPROCESS ppid (fail2 e (line (''Error: p10 didn'' @ quote @ ''t die with its parent!''))))))"

definition hp_p1 :: "'w machine2 \<Rightarrow> 'w run" where
  "hp_p1 e =
    (print2 e (line ''hp_p1 starts'') \<circ>
     repeat2 100 (request2 e YIELD 0) \<circ>
     print2 e (line ''hp_p1 ends'') \<circ>
     request2 e TERMPROCESS 0)
    (fail2 e (line (''Error: hp_p1 didn'' @ quote @ ''t die!'')))"

definition hp_p2 :: "'w machine2 \<Rightarrow> 'w run" where
  "hp_p2 e =
    (print2 e (line ''hp_p2 starts'') \<circ>
     request2 e YIELD 0 \<circ>
     print2 e (line ''hp_p2 ends'') \<circ>
     request2 e TERMPROCESS 0)
    (fail2 e (line (''Error: hp_p2 didn'' @ quote @ ''t die!'')))"

end
