(* ===== verification/P2_Run.thy ===== *)
theory P2_Run
  imports P2test
begin

text \<open>
  Runs of the processes of the test of phase 2: what the test relies on, and rules that execute a
  process on the variables that only it uses.
\<close>

section \<open>What a process relies on\<close>

text \<open>The variables of the test; the arrays have 21 and 4 elements.\<close>

definition variables :: "gvar set" where
  "variables = - (Sem_s ` {MAXSEM<..} \<union> Sem_endcreate ` {NOLEAVES..})"

lemma variables_iff [simp]:
  "Sem_s i \<in> variables \<longleftrightarrow> i \<le> MAXSEM" "Sem_endcreate j \<in> variables \<longleftrightarrow> j < NOLEAVES"
  "Sem_term_mut \<in> variables" "Sem_testsem \<in> variables" "Sem_startp2 \<in> variables" "Sem_endp2 \<in> variables" "Sem_endp3 \<in> variables"
  "Sem_blkp4 \<in> variables" "Sem_synp4 \<in> variables" "Sem_endp4 \<in> variables" "Sem_endp5 \<in> variables" "Sem_endp8 \<in> variables"
  "Sem_blkp8 \<in> variables" "Sem_blkp9 \<in> variables" "P2pid \<in> variables" "P3pid \<in> variables" "P4pid \<in> variables"
  "P8pid \<in> variables" "P9pid \<in> variables" "P1p2synch \<in> variables" "P8inc \<in> variables" "P4inc \<in> variables"
  "P5Stack \<in> variables" "P5MemLocation \<in> variables"
  by (auto simp: variables_def)

text \<open>
  The memory holds the variables at different addresses. The variables \<open>own\<close> are changed only by the
  process, and by its own P and V as these promise. A service of the nucleus returns, except a
  termination, P on one of these semaphores when its value is not positive, and P on the semaphores
  \<open>bl\<close>, which are never signalled. The terminal accepts characters.
\<close>

definition serves :: "'w machine2 \<Rightarrow> gvar set \<Rightarrow> gvar set \<Rightarrow> bool" where
  "serves e own bl \<longleftrightarrow> own \<subseteq> variables - {Sem_term_mut} \<and> bl \<subseteq> variables - {Sem_term_mut} \<and> inj_on (adr e) variables \<and>
    (\<forall>x\<in>bl. \<forall>w. nucleus e (PASSEREN, adr e x, 0, 0) w = None) \<and>
    (\<forall>x v w. \<forall>y\<in>own. x \<in> variables \<longrightarrow> peek e (poke e x v w) y = (if y = x then v else peek e w y)) \<and>
    (\<forall>w. \<forall>x\<in>own. peek e (others e w) x = peek e w x) \<and>
    (\<forall>n a1 a2 a3 w. sint n < 0 \<and> n \<noteq> TERMPROCESS \<and>
      (n = PASSEREN \<longrightarrow> a1 \<notin> adr e ` bl \<and> (\<forall>x\<in>own. a1 = adr e x \<longrightarrow> 0 < sint (peek e w x))) \<longrightarrow>
      nucleus e (n, a1, a2, a3) w \<noteq> None) \<and>
    (\<forall>n a1 a2 a3 w r w'. nucleus e (n, a1, a2, a3) w = Some (r, w') \<longrightarrow>
      (n = DOIO \<longrightarrow> r AND 0xFF = 5) \<and>
      (\<forall>x\<in>own. peek e w' x =
        (if n = VERHOGEN \<and> a1 = adr e x then peek e w x + 1
         else if n = PASSEREN \<and> a1 = adr e x then peek e w x - 1 else peek e w x)))"

text \<open>What the requests print.\<close>

definition printed :: "(u32 \<times> u32 \<times> u32 \<times> u32) list \<Rightarrow> string" where
  "printed rs = concat (map (\<lambda>(n, a1, a2, a3). if n = DOIO \<and> a1 = print_command then [char_of (unat (drop_bit 8 a2))] else []) rs)"

lemma printed_append [simp]: "printed (rs @ qs) = printed rs @ printed qs"
  by (simp add: printed_def)

lemma printed_bits: "drop_bit 8 (2 OR push_bit 8 (x :: u32)) = take_bit 24 x"
proof (rule bit_word_eqI)
  fix i assume i: "i < LENGTH(32)"
  have "\<not> bit (2 :: u32) (8 + i)" by (simp add: bit_numeral_rec numeral_eq_Suc)
  then show "bit (drop_bit 8 (2 OR push_bit 8 x)) i = bit (take_bit 24 x) i"
    using i by (auto simp: bit_simps)
qed

lemma printed_char: "char_of (unat (drop_bit 8 (2 OR push_bit 8 (of_char c :: u32)))) = c"
proof -
  have "(of_char c :: u32) = of_nat (of_char c)" by (simp only: of_nat_of_char)
  moreover have "take_bit 24 (of_char c :: nat) = of_char c" by (rule take_bit_nat_eq_self) (rule less_trans [of _ 256], simp_all)
  moreover have "take_bit 32 (of_char c :: nat) = of_char c" by (rule take_bit_nat_eq_self) (rule less_trans [of _ 256], simp_all)
  ultimately have "unat (drop_bit 8 (2 OR push_bit 8 (of_char c :: u32))) = of_char c"
    unfolding printed_bits by (simp only: unsigned_take_bit_eq unsigned_of_nat) simp
  then show ?thesis by simp
qed

section \<open>Rules\<close>

text \<open>
  Where a run is: the values of the variables that are its own, what it has printed, the states it
  has prepared, and the support structure of p5.
\<close>

definition at :: "'w machine2 \<Rightarrow> gvar set \<Rightarrow> vars2 \<Rightarrow> string \<Rightarrow> (pvar \<Rightarrow> state_t) \<times> support_t \<Rightarrow> 'w p2state \<Rightarrow> bool" where
  "at e own g out ps t \<longleftrightarrow> (\<forall>x\<in>own. peek e (around t) x = g x) \<and> printed (requests t) = out \<and> (pstates t, pFiveSupport t) = ps"

named_theorems p2_rules

lemma servesD:
  assumes "serves e own bl"
  shows "own \<subseteq> variables" "Sem_term_mut \<notin> own" "inj_on (adr e) variables"
    and "x \<in> variables \<Longrightarrow> y \<in> own \<Longrightarrow> peek e (poke e x v w) y = (if y = x then v else peek e w y)"
    and "y \<in> own \<Longrightarrow> peek e (others e w) y = peek e w y"
    and "nucleus e (n, a1, a2, a3) w = Some (r, w') \<Longrightarrow> n = DOIO \<Longrightarrow> r AND 0xFF = 5"
    and "nucleus e (n, a1, a2, a3) w = Some (r, w') \<Longrightarrow> y \<in> own \<Longrightarrow> peek e w' y =
        (if n = VERHOGEN \<and> a1 = adr e y then peek e w y + 1
         else if n = PASSEREN \<and> a1 = adr e y then peek e w y - 1 else peek e w y)"
    and "bl \<subseteq> variables" "Sem_term_mut \<notin> bl" "x \<in> bl \<Longrightarrow> nucleus e (PASSEREN, adr e x, 0, 0) w = None"
proof -
  show "own \<subseteq> variables" "Sem_term_mut \<notin> own" "inj_on (adr e) variables" "bl \<subseteq> variables" "Sem_term_mut \<notin> bl"
    "x \<in> bl \<Longrightarrow> nucleus e (PASSEREN, adr e x, 0, 0) w = None" using assms unfolding serves_def by auto
  have p: "\<forall>x v w. \<forall>y\<in>own. x \<in> variables \<longrightarrow> peek e (poke e x v w) y = (if y = x then v else peek e w y)"
    and o: "\<forall>w. \<forall>x\<in>own. peek e (others e w) x = peek e w x"
    and n: "\<forall>n a1 a2 a3 w r w'. nucleus e (n, a1, a2, a3) w = Some (r, w') \<longrightarrow>
      (n = DOIO \<longrightarrow> r AND 0xFF = 5) \<and>
      (\<forall>x\<in>own. peek e w' x =
        (if n = VERHOGEN \<and> a1 = adr e x then peek e w x + 1
         else if n = PASSEREN \<and> a1 = adr e x then peek e w x - 1 else peek e w x))"
    using assms unfolding serves_def by - (elim conjE, assumption)+
  show "peek e (poke e x v w) y = (if y = x then v else peek e w y)" if "x \<in> variables" "y \<in> own" using p that by blast
  show "peek e (others e w) y = peek e w y" if "y \<in> own" using o that by blast
  show "r AND 0xFF = 5" if "nucleus e (n, a1, a2, a3) w = Some (r, w')" "n = DOIO" using n [rule_format, OF that(1)] that(2) by blast
  show "peek e w' y = (if n = VERHOGEN \<and> a1 = adr e y then peek e w y + 1
      else if n = PASSEREN \<and> a1 = adr e y then peek e w y - 1 else peek e w y)"
    if "nucleus e (n, a1, a2, a3) w = Some (r, w')" "y \<in> own"
    using n [rule_format, OF that(1)] that(2) by (elim conjE) (rule bspec)
qed

lemma served:
  assumes "serves e own bl" "sint n < 0" "n \<noteq> TERMPROCESS"
    and "n = PASSEREN \<Longrightarrow> a1 \<notin> adr e ` bl \<and> (\<forall>x\<in>own. a1 = adr e x \<longrightarrow> 0 < sint (peek e w x))"
  shows "\<exists>r w'. nucleus e (n, a1, a2, a3) w = Some (r, w')"
proof -
  have "\<forall>n a1 a2 a3 w. sint n < 0 \<and> n \<noteq> TERMPROCESS \<and>
      (n = PASSEREN \<longrightarrow> a1 \<notin> adr e ` bl \<and> (\<forall>x\<in>own. a1 = adr e x \<longrightarrow> 0 < sint (peek e w x))) \<longrightarrow>
      nucleus e (n, a1, a2, a3) w \<noteq> None"
    using assms(1) unfolding serves_def by - (elim conjE, assumption)
  then have "nucleus e (n, a1, a2, a3) w \<noteq> None" using assms(2-4) by blast
  then show ?thesis by force
qed

lemma returns_SYSCALL2:
  assumes "nucleus e (n, a1, a2, a3) (around t) = Some (r, w)"
    and "returns (k r (t\<lparr>requests := requests t @ [(n, a1, a2, a3)], around := w\<rparr>)) Q"
  shows "returns (SYSCALL2 e n a1 a2 a3 k t) Q"
  using assms by (simp add: SYSCALL2_def)

text \<open>A request that neither changes a variable of the process nor prints.\<close>

lemma request_rule:
  assumes "serves e own bl" "at e own g out ps t" "n \<in> {CREATEPROCESS, GETTIME, CLOCKWAIT, GETSUPPORTPTR, GETPROCESSID, YIELD}"
    and "\<And>r t'. at e own g out ps t' \<Longrightarrow> nucleus e (n, a1, a2, a3) (around t) = Some (r, around t') \<Longrightarrow> returns (k r t') Q"
  shows "returns (SYSCALL2 e n a1 a2 a3 k t) Q"
proof -
  obtain r w where r: "nucleus e (n, a1, a2, a3) (around t) = Some (r, w)" using served [OF assms(1), of n] assms(3) by fastforce
  then have "at e own g out ps (t\<lparr>requests := requests t @ [(n, a1, a2, a3)], around := w\<rparr>)"
    using assms(2,3) servesD(7) [OF assms(1) r] by (auto simp: at_def printed_def)
  then show ?thesis using r assms(4) by (intro returns_SYSCALL2 [OF r]) simp
qed

lemma adr_eq_iff: "serves e own bl \<Longrightarrow> x \<in> variables \<Longrightarrow> y \<in> variables \<Longrightarrow> adr e x = adr e y \<longleftrightarrow> x = y"
  using servesD(3) by (metis inj_on_eq_iff)

lemma verhogen_rule [p2_rules]:
  assumes "serves e own bl" "at e own g out ps t" "x \<in> variables"
    and "\<And>t'. at e own (g(x := g x + 1)) out ps t' \<Longrightarrow> returns (k t') Q"
  shows "returns (verhogen e x k t) Q"
proof -
  obtain r w where r: "nucleus e (VERHOGEN, adr e x, 0, 0) (around t) = Some (r, w)" using served [OF assms(1)] by fastforce
  have "peek e w y = (g(x := g x + 1)) y" if "y \<in> own" for y
    using servesD(7) [OF assms(1) r that] assms(2,3) that servesD(1) [OF assms(1)] adr_eq_iff [OF assms(1,3), of y]
    by (auto simp: at_def)
  then have "at e own (g(x := g x + 1)) out ps (t\<lparr>requests := requests t @ [(VERHOGEN, adr e x, 0, 0)], around := w\<rparr>)"
    using assms(2) by (simp add: at_def printed_def)
  then show ?thesis unfolding verhogen_def by (intro returns_SYSCALL2 [OF r] assms(4))
qed

lemma passeren_rule [p2_rules]:
  assumes "serves e own bl" "at e own g out ps t" "x \<in> variables - bl \<and> (x \<in> own \<longrightarrow> 0 < sint (g x))"
    and "\<And>t'. at e own (g(x := g x - 1)) out ps t' \<Longrightarrow> returns (k t') Q"
  shows "returns (passeren e x k t) Q"
proof -
  have "0 < sint (peek e (around t) y)" if "y \<in> own" "adr e x = adr e y" for y
    using that assms(2,3) adr_eq_iff [OF assms(1), of x y] servesD(1) [OF assms(1)] by (auto simp: at_def)
  moreover have "adr e x \<notin> adr e ` bl" using assms(3) adr_eq_iff [OF assms(1), of x] servesD(8) [OF assms(1)] by auto
  ultimately obtain r w where r: "nucleus e (PASSEREN, adr e x, 0, 0) (around t) = Some (r, w)"
    using served [OF assms(1), of PASSEREN "adr e x" "around t" 0 0] by auto
  have "peek e w y = (g(x := g x - 1)) y" if "y \<in> own" for y
    using servesD(7) [OF assms(1) r that] assms(2,3) that servesD(1) [OF assms(1)] adr_eq_iff [OF assms(1), of x y]
    by (auto simp: at_def)
  then have "at e own (g(x := g x - 1)) out ps (t\<lparr>requests := requests t @ [(PASSEREN, adr e x, 0, 0)], around := w\<rparr>)"
    using assms(2) by (simp add: at_def printed_def)
  then show ?thesis unfolding passeren_def by (intro returns_SYSCALL2 [OF r] assms(4))
qed

text \<open>Printing changes only the mutual exclusion semaphore of the terminal.\<close>

lemma at_cong: "at e own g out ps t \<Longrightarrow> (\<And>x. x \<in> own \<Longrightarrow> g' x = g x) \<Longrightarrow> at e own g' out ps t"
  by (simp add: at_def)

lemma print_loop_rule:
  assumes "serves e own bl" "at e own g out ps t" "\<And>t'. at e own g (out @ msg) ps t' \<Longrightarrow> returns (k t') Q"
  shows "returns (print_loop e msg k t) Q"
  using assms(2,3)
proof (induction msg arbitrary: out t)
  case Nil
  then show ?case by simp
next
  case (Cons c msg)
  let ?c = "(DOIO, print_command, 2 OR push_bit 8 (of_char c) :: u32, 0 :: u32)"
  obtain r w where r: "nucleus e ?c (around t) = Some (r, w)" using served [OF assms(1)] by fastforce
  have st: "r AND 0xFF = 5" by (rule servesD(6) [OF assms(1) r refl])
  have "printed [?c] = [c]" unfolding printed_def by (simp only: list.map concat.simps prod.case simp_thms if_True printed_char append_Nil2)
  then have "at e own g (out @ [c]) ps (t\<lparr>requests := requests t @ [?c], around := w\<rparr>)"
    using Cons.prems(1) servesD(7) [OF assms(1) r] by (simp add: at_def)
  then have "returns (print_loop e msg k (t\<lparr>requests := requests t @ [?c], around := w\<rparr>)) Q"
    by (rule Cons.IH) (use Cons.prems(2) in simp)
  then show ?case unfolding print_loop.simps by (intro returns_SYSCALL2 [OF r]) (simp add: st)
qed

lemma print2_rule [p2_rules]:
  assumes "serves e own bl" "at e own g out ps t" "\<And>t'. at e own g (out @ msg) ps t' \<Longrightarrow> returns (k t') Q"
  shows "returns (print2 e msg k t) Q"
proof -
  have m: "Sem_term_mut \<notin> own" by (rule servesD(2) [OF assms(1)])
  show ?thesis
    unfolding print2_def
  proof (rule passeren_rule [OF assms(1,2)])
    show "Sem_term_mut \<in> variables - bl \<and> (Sem_term_mut \<in> own \<longrightarrow> 0 < sint (g Sem_term_mut))"
      using m servesD(9) [OF assms(1)] by simp
    fix t1 assume "at e own (g(Sem_term_mut := g Sem_term_mut - 1)) out ps t1"
    then have "at e own g out ps t1" by (rule at_cong) (use m in auto)
    then show "returns (print_loop e msg (verhogen e Sem_term_mut k) t1) Q"
    proof (rule print_loop_rule [OF assms(1)])
      fix t2 assume "at e own g (out @ msg) ps t2"
      then show "returns (verhogen e Sem_term_mut k t2) Q"
      proof (rule verhogen_rule [OF assms(1)])
        fix t3 assume "at e own (g(Sem_term_mut := g Sem_term_mut + 1)) (out @ msg) ps t3"
        then have "at e own g (out @ msg) ps t3" by (rule at_cong) (use m in auto)
        then show "returns (k t3) Q" by (rule assms(3))
      qed simp
    qed
  qed
qed

lemma others_at: "serves e own bl \<Longrightarrow> at e own g out ps t \<Longrightarrow> at e own g out ps (t\<lparr>around := others e (around t)\<rparr>)"
  by (simp add: at_def servesD(5))

lemma rd_rule [p2_rules]:
  assumes "serves e own bl" "at e own g out ps t" "x \<in> own" "\<And>t'. at e own g out ps t' \<Longrightarrow> returns (k (g x) t') Q"
  shows "returns (rd e x k t) Q"
  using assms(4) [OF others_at [OF assms(1,2)]] others_at [OF assms(1,2)] assms(3) by (simp add: rd_def at_def)

lemma wr_rule [p2_rules]:
  assumes "serves e own bl" "at e own g out ps t" "x \<in> variables" "\<And>t'. at e own (g(x := v)) out ps t' \<Longrightarrow> returns (k t') Q"
  shows "returns (wr e x v k t) Q"
proof -
  have "at e own (g(x := v)) out ps (t\<lparr>around := poke e x v (others e (around t))\<rparr>)"
    using assms(2) servesD(4) [OF assms(1,3)] servesD(5) [OF assms(1)] by (simp add: at_def)
  then show ?thesis unfolding wr_def by (rule assms(4))
qed

lemma STCK2_rule:
  assumes "serves e own bl" "at e own g out ps t"
    and "\<And>t'. at e own g out ps t' \<Longrightarrow> around t' = others e (around t) \<Longrightarrow> returns (k (clock e (around t')) t') Q"
  shows "returns (STCK2 e k t) Q"
  using assms(3) [OF others_at [OF assms(1,2)]] by (simp add: STCK2_def Let_def)

lemma check_var_rule [p2_rules]:
  assumes "serves e own bl" "at e own g out ps t" "x \<in> own \<and> g x = v" "\<And>t'. at e own g out ps t' \<Longrightarrow> returns (k t') Q"
  shows "returns (check_var e x v msg k t) Q"
  unfolding check_var_def by (rule rd_rule [OF assms(1,2)]) (use assms(3,4) in simp_all)

lemma create_only_rule [p2_rules]:
  assumes "serves e own bl" "at e own g out ps t" "\<And>t'. at e own g out ps t' \<Longrightarrow> returns (k t') Q"
  shows "returns (create_only e v pr su k t) Q"
  unfolding create_only_def create_def by (rule request_rule [OF assms(1,2)]) (simp_all add: assms(3))

lemma create_into_rule [p2_rules]:
  assumes "serves e own bl" "at e own g out ps t" "x \<in> variables - own" "\<And>t'. at e own g out ps t' \<Longrightarrow> returns (k t') Q"
  shows "returns (create_into e x v pr su k t) Q"
  unfolding create_into_def create_def
proof (rule request_rule [OF assms(1,2)])
  fix r t1 assume "at e own g out ps t1"
  then show "returns (wr e x r k t1) Q"
  proof (rule wr_rule [OF assms(1)])
    fix t2 assume "at e own (g(x := r)) out ps t2"
    then have "at e own g out ps t2" by (rule at_cong) (use assms(3) in auto)
    then show "returns (k t2) Q" by (rule assms(4))
  qed (use assms(3) in simp)
qed simp

lemma request2_rule [p2_rules]:
  assumes "serves e own bl" "at e own g out ps t" "n \<in> {CREATEPROCESS, GETTIME, CLOCKWAIT, GETSUPPORTPTR, GETPROCESSID, YIELD}"
    and "\<And>t'. at e own g out ps t' \<Longrightarrow> returns (k t') Q"
  shows "returns (request2 e n a1 k t) Q"
  unfolding request2_def by (rule request_rule [OF assms(1-3)]) (rule assms(4))

text \<open>The identifiers that the nucleus reports are those that the creators have stored.\<close>

definition knows_pid :: "'w machine2 \<Rightarrow> u32 \<Rightarrow> gvar \<Rightarrow> bool" where
  "knows_pid e who x \<longleftrightarrow> (\<forall>w r w'. nucleus e (GETPROCESSID, who, 0, 0) w = Some (r, w') \<longrightarrow> r = peek e w' x)"

lemma check_pid_rule:
  assumes "serves e own bl" "at e own g out ps t" "x \<in> own" "knows_pid e who x" "\<And>t'. at e own g out ps t' \<Longrightarrow> returns (k t') Q"
  shows "returns (check_pid e who x msg k t) Q"
  unfolding check_pid_def
proof (rule request_rule [OF assms(1,2)])
  fix r t1 assume t1: "at e own g out ps t1" "nucleus e (GETPROCESSID, who, 0, 0) (around t) = Some (r, around t1)"
  then have "r = peek e (around t1) x" using assms(4) unfolding knows_pid_def by blast
  then have "r = g x" using assms(3) t1(1) by (simp add: at_def)
  then show "returns (rd e x (\<lambda>v. if r \<noteq> v then fail2 e msg else k) t1) Q"
    by (intro rd_rule [OF assms(1) t1(1) assms(3)]) (simp add: assms(5))
qed simp

text \<open>A termination that does not return.\<close>

definition dies :: "'w machine2 \<Rightarrow> u32 \<Rightarrow> bool" where
  "dies e pid \<longleftrightarrow> (\<forall>w. nucleus e (TERMPROCESS, pid, 0, 0) w = None)"

lemma terminate_rule:
  assumes "dies e pid" "at e own g out ps t"
    and "\<And>t'. at e own g out ps t' \<Longrightarrow> requests t' = requests t @ [(TERMPROCESS, pid, 0, 0)] \<Longrightarrow> Q (GONE, t')"
  shows "returns (request2 e TERMPROCESS pid k t) Q"
  using assms(1) assms(3) [of "t\<lparr>requests := requests t @ [(TERMPROCESS, pid, 0, 0)]\<rparr>"] assms(2)
  by (simp add: request2_def SYSCALL2_def dies_def returns_Some at_def printed_def)

text \<open>P on a semaphore that is never signalled.\<close>

lemma blocked_rule:
  assumes "serves e own bl" "at e own g out ps t" "x \<in> bl" "\<And>t'. at e own g out ps t' \<Longrightarrow> Q (GONE, t')"
  shows "returns (passeren e x k t) Q"
  using servesD(10) [OF assms(1,3)] assms(4) [of "t\<lparr>requests := requests t @ [(PASSEREN, adr e x, 0, 0)]\<rparr>"] assms(2)
  by (simp add: passeren_def SYSCALL2_def returns_Some at_def printed_def)

text \<open>A creation that stores the identifier in a variable of the process.\<close>

lemma create_own_rule:
  assumes "serves e own bl" "at e own g out ps t" "x \<in> variables" "\<And>t' r. at e own (g(x := r)) out ps t' \<Longrightarrow> returns (k t') Q"
  shows "returns (create_into e x v pr su k t) Q"
  unfolding create_into_def create_def
  by (rule request_rule [OF assms(1,2)], simp, rule wr_rule [OF assms(1) _ assms(3)], assumption, rule assms(4))

text \<open>The same on variables that the process does not look at.\<close>

lemma other_rules:
  assumes "serves e own bl" "at e own g out ps t" "x \<in> variables - own" "\<And>t'. at e own g out ps t' \<Longrightarrow> returns (k t') Q"
  shows "returns (verhogen e x k t) Q" "x \<notin> bl \<Longrightarrow> returns (passeren e x k t) Q" "returns (wr e x v k t) Q"
proof -
  have *: "returns (k t') Q" if "at e own (g(x := a)) out ps t'" for a t'
    by (rule assms(4), rule at_cong [OF that]) (use assms(3) in auto)
  show "returns (verhogen e x k t) Q" by (rule verhogen_rule [OF assms(1,2) _ *]) (use assms(3) in simp)
  show "returns (passeren e x k t) Q" if "x \<notin> bl" by (rule passeren_rule [OF assms(1,2) _ *]) (use assms(3) that in simp)
  show "returns (wr e x v k t) Q" by (rule wr_rule [OF assms(1,2) _ *]) (use assms(3) in simp)
qed

end
