(* ===== verification/P2_Tests.thy ===== *)
theory P2_Tests
  imports P2_Run
begin

text \<open>The processes of the test of phase 2, one by one: what each prints and how it ends when it is served.\<close>

definition says :: "'w run \<Rightarrow> 'w p2state \<Rightarrow> ending \<Rightarrow> string list \<Rightarrow> bool" where
  "says r t en ms \<longleftrightarrow> returns (r t) (\<lambda>(en', t'). en' = en \<and> printed (requests t') = printed (requests t) @ concat (map (\<lambda>m. line m) ms))"

lemma at_start: "at e own (peek e (around t)) (printed (requests t)) (pstates t, pFiveSupport t) t"
  by (simp add: at_def)

lemma repeat_rule:
  assumes "\<And>t k. at e own g out ps t \<Longrightarrow> (\<And>t'. at e own g out ps t' \<Longrightarrow> returns (k t') Q) \<Longrightarrow> returns (f k t) Q"
    and "at e own g out ps t" "\<And>t'. at e own g out ps t' \<Longrightarrow> returns (k t') Q"
  shows "returns (repeat2 n f k t) Q"
  using assms(2,3)
proof (induction n arbitrary: t)
  case (Suc n)
  have "returns (f (repeat2 n f k) t) Q" by (rule assms(1) [OF Suc.prems(1)]) (rule Suc.IH [OF _ Suc.prems(2)])
  then show ?case by simp
qed simp

section \<open>Priorities, traps, trees and identifiers\<close>

lemma hp_p1_says:
  assumes "serves e {} {}" "dies e 0"
  shows "says (hp_p1 e) t GONE [''hp_p1 starts'', ''hp_p1 ends'']"
  unfolding says_def hp_p1_def o_apply
  apply (rule print2_rule [OF assms(1) at_start])
  apply (rule repeat_rule, rule request2_rule [OF assms(1)], assumption, simp, assumption, assumption)
  apply (rule print2_rule [OF assms(1)], assumption)
  apply (rule terminate_rule [OF assms(2)], assumption, simp add: at_def)
  done

lemma hp_p2_says:
  assumes "serves e {} {}" "dies e 0"
  shows "says (hp_p2 e) t GONE [''hp_p2 starts'', ''hp_p2 ends'']"
  unfolding says_def hp_p2_def o_apply
  apply (rule print2_rule [OF assms(1) at_start])
  apply (rule request2_rule [OF assms(1)], assumption, simp)
  apply (rule print2_rule [OF assms(1)], assumption)
  apply (rule terminate_rule [OF assms(2)], assumption, simp add: at_def)
  done

text \<open>A request above the services of the nucleus, by a process without a support structure.\<close>

definition unsupported :: "'w machine2 \<Rightarrow> bool" where
  "unsupported e \<longleftrightarrow> (\<forall>w. nucleus e (1, 0, 0, 0) w = None)"

lemma p6_says:
  assumes "serves e {} {}" "unsupported e"
  shows "says (p6 e) t GONE [''p6 starts'']"
  unfolding says_def p6_def o_apply request2_def
  apply (rule print2_rule [OF assms(1) at_start])
  apply (use assms(2) in \<open>simp add: SYSCALL2_def unsupported_def returns_Some at_def printed_def\<close>)
  done

lemma p7_says:
  assumes "serves e {} {}" "\<not> accessible e BADADDR"
  shows "says (p7 e) t (TRAPPED BADADDR) [''p7 starts'']"
  unfolding says_def p7_def o_apply
  apply (rule print2_rule [OF assms(1) at_start])
  apply (use assms(2) in \<open>simp add: touch_def returns_Some at_def\<close>)
  done

lemma leaf_rule:
  assumes "serves e {} {Sem_blkp8}" "i < NOLEAVES"
  shows "says ((print2 e (line msg) \<circ> verhogen e (Sem_endcreate i) \<circ> passeren e Sem_blkp8) return2) t GONE [msg]"
  unfolding says_def o_apply
  apply (rule print2_rule [OF assms(1) at_start])
  apply (rule verhogen_rule [OF assms(1)], assumption, simp add: assms(2))
  apply (rule blocked_rule [OF assms(1)], assumption, simp, simp add: at_def)
  done

lemma leaves_say:
  assumes "serves e {} {Sem_blkp8}"
  shows "says (p8leaf1 e) t GONE [''leaf process (1) starts'']" "says (p8leaf2 e) t GONE [''leaf process (2) starts'']"
    "says (p8leaf3 e) t GONE [''leaf process (3) starts'']" "says (p8leaf4 e) t GONE [''leaf process (4) starts'']"
  unfolding p8leaf1_def p8leaf2_def p8leaf3_def p8leaf4_def by (rule leaf_rule [OF assms]; simp)+

lemma p8root_says:
  assumes "serves e {} {}" "dies e 0"
  shows "says (p8root e) t GONE [''p8root starts'']"
  unfolding says_def p8root_def o_apply
  apply (rule print2_rule [OF assms(1) at_start])
  apply (rule create_only_rule [OF assms(1)], assumption)+
  apply (simp add: upt_rec)
  apply (rule passeren_rule [OF assms(1)], assumption, simp)+
  apply (rule verhogen_rule [OF assms(1)], assumption, simp)
  apply (rule terminate_rule [OF assms(2)], assumption, simp add: at_def)
  done

lemma children_say:
  assumes "serves e {P8pid} {Sem_blkp8}" "knows_pid e 1 P8pid"
  shows "says (child1 e) t GONE [''child1 starts'']" "says (child2 e) t GONE [''child2 starts'']"
  unfolding says_def child1_def child2_def o_apply
  by (rule print2_rule [OF assms(1) at_start], rule check_pid_rule [OF assms(1)], assumption, simp, rule assms(2),
      rule create_only_rule [OF assms(1)], assumption, rule create_only_rule [OF assms(1)], assumption,
      rule blocked_rule [OF assms(1)], assumption, simp, simp add: at_def)+

lemma p9_says:
  assumes "serves e {} {Sem_blkp9}"
  shows "says (p9 e) t GONE [''p9 starts'']"
  unfolding says_def p9_def o_apply
  apply (rule print2_rule [OF assms(1) at_start])
  apply (rule create_only_rule [OF assms(1)], assumption)
  apply (rule blocked_rule [OF assms(1)], assumption, simp, simp add: at_def)
  done

lemma p10_says:
  assumes "serves e {P9pid} {}" "knows_pid e 1 P9pid" "dies e (peek e (around t) P9pid)"
  shows "says (p10 e) t GONE [''p10 starts'']"
  unfolding says_def p10_def
proof (rule print2_rule [OF assms(1) at_start])
  let ?at = "at e {P9pid} (peek e (around t)) (printed (requests t) @ line ''p10 starts'') (pstates t, pFiveSupport t)"
  fix t1 assume t1: "?at t1"
  show "returns (SYSCALL2 e GETPROCESSID 1 0 0 (\<lambda>ppid. rd e P9pid (\<lambda>v.
      if ppid \<noteq> v then fail2 e (line ''Inconsistent process id for p9!'')
      else request2 e TERMPROCESS ppid (fail2 e (line (''Error: p10 didn'' @ quote @ ''t die with its parent!''))))) t1)
    (\<lambda>(en', t'). en' = GONE \<and> printed (requests t') = printed (requests t) @ concat (map (\<lambda>m. line m) [''p10 starts'']))"
  proof (rule request_rule [OF assms(1) t1])
    fix r t2 assume t2: "?at t2" "nucleus e (GETPROCESSID, 1, 0, 0) (around t1) = Some (r, around t2)"
    then have "r = peek e (around t2) P9pid" using assms(2) unfolding knows_pid_def by blast
    then have r: "r = peek e (around t) P9pid" using t2(1) by (simp add: at_def)
    show "returns (rd e P9pid (\<lambda>v. if r \<noteq> v then fail2 e (line ''Inconsistent process id for p9!'')
        else request2 e TERMPROCESS r (fail2 e (line (''Error: p10 didn'' @ quote @ ''t die with its parent!'')))) t2)
      (\<lambda>(en', t'). en' = GONE \<and> printed (requests t') = printed (requests t) @ concat (map (\<lambda>m. line m) [''p10 starts'']))"
      unfolding r
      apply (rule rd_rule [OF assms(1) t2(1)], simp, simp del: append_assoc)
      apply (rule terminate_rule [OF assms(3)], assumption, simp add: at_def)
      done
  qed simp
qed

section \<open>Semaphores and processor time\<close>

lemma clear_s_rule:
  assumes "serves e own bl" "at e own g out ps t" "\<forall>i\<in>set is. i \<le> MAXSEM"
    and "\<And>t'. at e own (\<lambda>x. if x \<in> Sem_s ` set is then 0 else g x) out ps t' \<Longrightarrow> returns (k t') Q"
  shows "returns (clear_s e is k t) Q"
  using assms(2-)
proof (induction "is" arbitrary: t g)
  case Nil
  then show ?case by simp
next
  case (Cons i "is")
  show ?case
    unfolding clear_s.simps
  proof (rule wr_rule [OF assms(1) Cons.prems(1)])
    fix t1 assume "at e own (g(Sem_s i := 0)) out ps t1"
    then show "returns (clear_s e is k t1) Q"
    proof (rule Cons.IH)
      fix t2 assume "at e own (\<lambda>x. if x \<in> Sem_s ` set is then 0 else (g(Sem_s i := 0)) x) out ps t2"
      then have "at e own (\<lambda>x. if x \<in> Sem_s ` set (i # is) then 0 else g x) out ps t2" by (rule at_cong) auto
      then show "returns (k t2) Q" by (rule Cons.prems(3))
    qed (use Cons.prems(2) in simp)
  qed (use Cons.prems(2) in simp)
qed

lemma pairs_s_rule:
  assumes "serves e own bl" "at e own g out ps t" "\<forall>i\<in>set is. i \<le> MAXSEM \<and> Sem_s i \<in> own - bl \<and> g (Sem_s i) = 0"
    and "\<And>t'. at e own g out ps t' \<Longrightarrow> returns (k t') Q"
  shows "returns (pairs_s e is k t) Q"
  using assms(2,3)
proof (induction "is" arbitrary: t)
  case Nil
  then show ?case using assms(4) by simp
next
  case (Cons i "is")
  have i: "Sem_s i \<in> variables" "Sem_s i \<in> own" "Sem_s i \<notin> bl" "g (Sem_s i) = 0" using Cons.prems(2) by auto
  have "g(Sem_s i := 0) = g" using i(4) by (simp add: fun_upd_idem)
  then have rest: "returns (pairs_s e is k t') Q" if "at e own (g(Sem_s i := 0)) out ps t'" for t'
    using Cons.IH that Cons.prems(2) by simp
  show ?case
    unfolding pairs_s.simps
    apply (rule verhogen_rule [OF assms(1) Cons.prems(1) i(1)])
    apply (rule passeren_rule [OF assms(1)], assumption, use i in simp)
    apply (rule rd_rule [OF assms(1)], assumption, rule i(2), simp add: i rest)
    done
qed

text \<open>The time of the machine and the processor time of the process, as p2 compares them.\<close>

definition times_ok :: "'w machine2 \<Rightarrow> bool" where
  "times_ok e \<longleftrightarrow> timescale e \<noteq> 0 \<and> (\<forall>w c1 w1 c2 w2.
    nucleus e (GETTIME, 0, 0, 0) (others e w) = Some (c1, w1) \<longrightarrow> nucleus e (GETTIME, 0, 0, 0) w1 = Some (c2, w2) \<longrightarrow>
    sint (c2 - c1) \<le> sint (clock e (others e w2) - clock e (others e w)) \<and> (30000 :: int) sdiv sint (timescale e) \<le> sint (c2 - c1))"

lemma p2_times_rule:
  assumes "serves e own bl" "times_ok e" "at e own g out ps t"
    and "\<And>t'. at e own g (out @ line ''p2 is OK'') ps t' \<Longrightarrow> returns (k t') Q"
  shows "returns (p2_times e k t) Q"
  unfolding p2_times_def
proof (rule STCK2_rule [OF assms(1,3)], rule request_rule [OF assms(1)], assumption, simp,
    rule request_rule [OF assms(1)], assumption, simp, rule STCK2_rule [OF assms(1)], assumption)
  fix t1 c1 t2 c2 t3 t4
  assume "around t1 = others e (around t)" "nucleus e (GETTIME, 0, 0, 0) (around t1) = Some (c1, around t2)"
    "nucleus e (GETTIME, 0, 0, 0) (around t2) = Some (c2, around t3)" "around t4 = others e (around t3)"
    and t4: "at e own g out ps t4"
  then have "sint (c2 - c1) \<le> sint (clock e (around t4) - clock e (around t1))" "(30000 :: int) sdiv sint (timescale e) \<le> sint (c2 - c1)"
    "timescale e \<noteq> 0" using assms(2) unfolding times_ok_def by metis+
  then have "check_times e (clock e (around t1)) (clock e (around t4)) c1 c2 k t4 = print2 e (line ''p2 is OK'') k t4"
    by (simp add: check_times_def Let_def)
  then show "returns (check_times e (clock e (around t1)) (clock e (around t4)) c1 c2 k t4) Q"
    using print2_rule [OF assms(1) t4 assms(4)] by simp
qed

lemma p2_says:
  assumes "serves e (insert P2pid (Sem_s ` {..MAXSEM})) {}" "knows_pid e 0 P2pid" "dies e 0" "times_ok e"
  shows "says (p2 e) t GONE [''p2 starts'', ''p2 v'' @ quote @ ''s successfully'', ''p2 is OK'']"
  unfolding says_def p2_def o_apply
  apply (rule passeren_rule [OF assms(1) at_start], simp add: image_iff)
  apply (rule print2_rule [OF assms(1)], assumption)
  apply (rule check_pid_rule [OF assms(1)], assumption, simp, rule assms(2))
  apply (rule clear_s_rule [OF assms(1)], assumption, simp)
  apply (rule pairs_s_rule [OF assms(1)], assumption, auto simp: image_iff)
  apply (rule print2_rule [OF assms(1)], assumption)
  apply (rule p2_times_rule [OF assms(1,4)], assumption)
  apply (rule wr_rule [OF assms(1)], assumption, simp)
  apply (rule verhogen_rule [OF assms(1)], assumption, simp)
  apply (rule terminate_rule [OF assms(3)], assumption, simp add: at_def)
  done

section \<open>The pseudo-clock\<close>

text \<open>
  After a tick of the pseudo-clock the next one comes at least half an interval later. The processor time
  of ten waits is at least what p3 expects.
\<close>

fun waits :: "'w machine2 \<Rightarrow> nat \<Rightarrow> 'w \<Rightarrow> 'w option" where
  "waits e 0 w = Some w"
| "waits e (Suc n) w = (case nucleus e (CLOCKWAIT, 0, 0, 0) w of None \<Rightarrow> None | Some (_, w') \<Rightarrow> waits e n w')"

definition clock_ok :: "'w machine2 \<Rightarrow> bool" where
  "clock_ok e \<longleftrightarrow> timescale e \<noteq> 0 \<and>
    (\<forall>w r1 w1 r2 w2. nucleus e (CLOCKWAIT, 0, 0, 0) (others e w) = Some (r1, w1) \<longrightarrow>
      nucleus e (CLOCKWAIT, 0, 0, 0) (others e (others e w1)) = Some (r2, w2) \<longrightarrow>
      50000 \<le> clock e (others e w2) - clock e (others e (others e w1))) \<and>
    (\<forall>w c1 w1 w2 c2 w3. nucleus e (GETTIME, 0, 0, 0) w = Some (c1, w1) \<longrightarrow> waits e 10 w1 = Some w2 \<longrightarrow>
      nucleus e (GETTIME, 0, 0, 0) w2 = Some (c2, w3) \<longrightarrow> (3000 :: int) sdiv sint (timescale e) \<le> sint (c2 - c1))"

text \<open>One turn of the loop.\<close>

lemma clock_turn:
  assumes "serves e own bl" "at e own g out ps t" "time2 - time1 < 50000"
    and "\<And>t' r w. at e own g out ps t' \<Longrightarrow> nucleus e (CLOCKWAIT, 0, 0, 0) (others e (around t)) = Some (r, w) \<Longrightarrow>
      around t' = others e w \<Longrightarrow> returns (clock_loop e (clock e (others e (around t))) (clock e (others e w)) k t') Q"
  shows "returns (clock_loop e time1 time2 k t) Q"
proof -
  have "returns (STCK2 e (\<lambda>time1. SYSCALL2 e CLOCKWAIT 0 0 0 (\<lambda>_. STCK2 e (\<lambda>time2. clock_loop e time1 time2 k))) t) Q"
  proof (rule STCK2_rule [OF assms(1,2)], rule request_rule [OF assms(1)], assumption, simp, rule STCK2_rule [OF assms(1)], assumption)
    fix t1 r t2 t3
    assume "around t1 = others e (around t)" "nucleus e (CLOCKWAIT, 0, 0, 0) (around t1) = Some (r, around t2)"
      "around t3 = others e (around t2)" "at e own g out ps t3"
    then show "returns (clock_loop e (clock e (around t1)) (clock e (around t3)) k t3) Q" using assms(4) [of t3 r "around t2"] by simp
  qed
  then show ?thesis using assms(3) by (subst clock_loop.simps) simp
qed

lemma clock_loop_rule:
  assumes "serves e own bl" "clock_ok e" "at e own g out ps t" "\<And>t'. at e own g out ps t' \<Longrightarrow> returns (k t') Q"
  shows "returns (clock_loop e 0 0 k t) Q"
proof (rule clock_turn [OF assms(1,3)])
  have ends: "returns (clock_loop e a b k t') Q" if "\<not> b - a < 50000" "at e own g out ps t'" for a b t'
    using that assms(4) by (subst clock_loop.simps) simp
  fix t1 r w
  assume t1: "at e own g out ps t1" "nucleus e (CLOCKWAIT, 0, 0, 0) (others e (around t)) = Some (r, w)" "around t1 = others e w"
  show "returns (clock_loop e (clock e (others e (around t))) (clock e (others e w)) k t1) Q"
  proof (cases "clock e (others e w) - clock e (others e (around t)) < 50000")
    case True
    show ?thesis
    proof (rule clock_turn [OF assms(1) t1(1) True])
      fix t2 r2 w2 assume t2: "at e own g out ps t2" "nucleus e (CLOCKWAIT, 0, 0, 0) (others e (around t1)) = Some (r2, w2)"
      then have "50000 \<le> clock e (others e w2) - clock e (others e (around t1))"
        using assms(2) t1(2,3) unfolding clock_ok_def by metis
      then show "returns (clock_loop e (clock e (others e (around t1))) (clock e (others e w2)) k t2) Q"
        using ends t2(1) by (simp add: not_less)
    qed
  qed (use ends t1(1) in blast)
qed simp

lemma waits_rule:
  assumes "serves e own bl" "at e own g out ps t"
    and "\<And>t'. at e own g out ps t' \<Longrightarrow> waits e n (around t) = Some (around t') \<Longrightarrow> returns (k t') Q"
  shows "returns (repeat2 n (request2 e CLOCKWAIT 0) k t) Q"
  using assms(2,3)
proof (induction n arbitrary: t)
  case 0
  then show ?case by simp
next
  case (Suc n)
  show ?case
    unfolding repeat2.simps request2_def [of e CLOCKWAIT 0]
  proof (rule request_rule [OF assms(1) Suc.prems(1)])
    fix r t1 assume t1: "at e own g out ps t1" "nucleus e (CLOCKWAIT, 0, 0, 0) (around t) = Some (r, around t1)"
    show "returns (repeat2 n (\<lambda>k. SYSCALL2 e CLOCKWAIT 0 0 0 (\<lambda>_. k)) k t1) Q"
      using Suc.IH [OF t1(1)] Suc.prems(2) t1(2) unfolding request2_def [of e CLOCKWAIT 0, abs_def] by simp
  qed simp
qed

lemma p3_says:
  assumes "serves e {P3pid} {}" "knows_pid e 0 P3pid" "dies e 0" "clock_ok e"
  shows "says (p3 e) t GONE [''p3 - CLOCKWAIT OK'', ''p3 - CPU time correctly maintained'']"
  unfolding says_def p3_def o_apply
proof (rule clock_loop_rule [OF assms(1,4) at_start], rule print2_rule [OF assms(1)], assumption,
    rule request_rule [OF assms(1)], assumption, simp, rule waits_rule [OF assms(1)], assumption,
    rule request_rule [OF assms(1)], assumption, simp)
  fix t0 c1 t1 t2 c2 t3
  assume "nucleus e (GETTIME, 0, 0, 0) (around t0) = Some (c1, around t1)" "waits e 10 (around t1) = Some (around t2)"
    "nucleus e (GETTIME, 0, 0, 0) (around t2) = Some (c2, around t3)"
    and t3: "at e {P3pid} (peek e (around t)) (printed (requests t) @ line ''p3 - CLOCKWAIT OK'') (pstates t, pFiveSupport t) t3"
  then have c: "(3000 :: int) sdiv sint (timescale e) \<le> sint (c2 - c1)" "timescale e \<noteq> 0"
    using assms(4) unfolding clock_ok_def by metis+
  let ?k = "check_pid e 0 P3pid (line ''Inconsistent process id for p3!'') (verhogen e Sem_endp3
    (request2 e TERMPROCESS 0 (fail2 e (line (''error: p3 didn'' @ quote @ ''t terminate'')))))"
  have "returns (print2 e (line ''p3 - CPU time correctly maintained'') ?k t3) (\<lambda>(en', t'). en' = GONE \<and> printed (requests t') =
      printed (requests t) @ concat (map (\<lambda>m. line m) [''p3 - CLOCKWAIT OK'', ''p3 - CPU time correctly maintained'']))"
    apply (rule print2_rule [OF assms(1) t3])
    apply (rule check_pid_rule [OF assms(1)], assumption, simp, rule assms(2))
    apply (rule verhogen_rule [OF assms(1)], assumption, simp)
    apply (rule terminate_rule [OF assms(3)], assumption, simp add: at_def)
    done
  then show "returns (check_cpu e c1 c2 ?k t3) (\<lambda>(en', t'). en' = GONE \<and> printed (requests t') =
      printed (requests t) @ concat (map (\<lambda>m. line m) [''p3 - CLOCKWAIT OK'', ''p3 - CPU time correctly maintained'']))"
    using c by (simp add: check_cpu_def)
qed

section \<open>Termination of p4\<close>

lemma lower_at: "at e own g out (ps, su) t \<Longrightarrow>
  at e own g out (ps(v := (ps v)\<lparr>gpr := (gpr (ps v))(sp2 e := gpr (ps v) (sp2 e) - QPAGE)\<rparr>), su) (lower_stack e v t)"
  by (simp add: at_def lower_stack_def sp_of_def)

lemma p4_says:
  assumes "serves e {P4inc, P4pid} {}" "knows_pid e 0 P4pid" "dies e 0" "peek e (around t) P4inc = 1"
  shows "says (p4 e) t GONE [''first incarnation of p4 starts'', ''p4 is OK'']"
  using assms(4) unfolding says_def p4_def p4_starts_def o_apply
  apply -
  apply (rule rd_rule [OF assms(1) at_start], simp, simp)
  apply (rule print2_rule [OF assms(1)], assumption)
  apply (rule rd_rule [OF assms(1)], assumption, simp, rule wr_rule [OF assms(1)], assumption, simp)
  apply (rule check_pid_rule [OF assms(1)], assumption, simp, rule assms(2))
  apply (rule verhogen_rule [OF assms(1)], assumption, simp)
  apply (rule passeren_rule [OF assms(1)], assumption, simp)
  apply (rule passeren_rule [OF assms(1)], assumption, simp)
  apply (unfold upd2_def)
  apply (rule create_own_rule [OF assms(1)], erule lower_at, simp)
  apply (rule passeren_rule [OF assms(1)], assumption, simp)
  apply (rule print2_rule [OF assms(1)], assumption)
  apply (rule verhogen_rule [OF assms(1)], assumption, simp)
  apply (rule terminate_rule [OF assms(3)], assumption, simp add: at_def)
  done

lemma p4_second_says:
  assumes "serves e {P4inc, P4pid} {Sem_blkp4}" "knows_pid e 0 P4pid" "peek e (around t) P4inc = 2"
  shows "says (p4 e) t GONE [''second incarnation of p4 starts'']"
  using assms(3) unfolding says_def p4_def p4_starts_def o_apply
  apply -
  apply (rule rd_rule [OF assms(1) at_start], simp, simp)
  apply (rule print2_rule [OF assms(1)], assumption)
  apply (rule check_pid_rule [OF assms(1)], assumption, simp, rule assms(2))
  apply (rule verhogen_rule [OF assms(1)], assumption, simp)
  apply (rule blocked_rule [OF assms(1)], assumption, simp, simp add: at_def)
  done

section \<open>Traps of p5\<close>

lemma p5_says:
  assumes "serves e {P5MemLocation} {}" "\<not> accessible e (peek e (around t) P5MemLocation)"
  shows "says (p5 e) t (TRAPPED (peek e (around t) P5MemLocation)) [''p5 starts'']"
  unfolding says_def p5_def
  apply (rule print2_rule [OF assms(1) at_start])
  apply (rule rd_rule [OF assms(1)], assumption, simp)
  apply (use assms(2) in \<open>simp add: touch_def returns_Some at_def\<close>)
  done

lemma p5a_says:
  assumes "serves e {P5MemLocation} {}" "\<not> accessible e 0x80000000"
  shows "says (p5a e) t (TRAPPED 0x80000000) []"
  unfolding says_def p5a_def
  apply (rule wr_rule [OF assms(1) at_start], simp)
  apply (rule rd_rule [OF assms(1)], assumption, simp)
  apply (use assms(2) in \<open>simp add: touch_def returns_Some at_def\<close>)
  done

text \<open>With a support structure the request above the services returns, through p5gen.\<close>

definition supported :: "'w machine2 \<Rightarrow> bool" where
  "supported e \<longleftrightarrow> (\<forall>w. nucleus e (1, 0, 0, 0) w \<noteq> None)"

lemma p5b_says:
  assumes "serves e {} {}" "supported e" "clock_ok e" "dies e 0"
  shows "says (p5b e) t GONE []"
proof -
  obtain r w where r: "nucleus e (1, 0, 0, 0) (around t) = Some (r, w)" using assms(2) unfolding supported_def by fastforce
  have "at e {} (\<lambda>_. 0) (printed (requests t)) (pstates t, pFiveSupport t) (t\<lparr>requests := requests t @ [(1, 0, 0, 0)], around := w\<rparr>)"
    by (simp add: at_def printed_def)
  then show ?thesis
    unfolding says_def p5b_def o_apply request2_def [of e 1]
    apply -
    apply (rule returns_SYSCALL2 [OF r])
    apply (rule passeren_rule [OF assms(1)], assumption, simp)
    apply (rule clock_loop_rule [OF assms(1,3)], assumption)
    apply (rule verhogen_rule [OF assms(1)], assumption, simp)
    apply (rule verhogen_rule [OF assms(1)], assumption, simp)
    apply (rule terminate_rule [OF assms(4)], assumption, simp add: at_def)
    done
qed

text \<open>The handlers of p5 load the saved state, changed as the test wants it.\<close>

lemma p5gen_says:
  assumes "serves e {} {}" "sup_exceptState (pFiveSupport t) GENERALEXCEPT = st"
  shows "cause st = 7 \<Longrightarrow> says (p5gen e) t (LOADED (st\<lparr>pc_epc := entry e F_p5a\<rparr>))
      [''Bus Error (as expected): Access non-existent memory'']"
    and "cause st = 5 \<Longrightarrow> says (p5gen e) t (LOADED (st\<lparr>status := status st OR MSTATUS_MPP_M, pc_epc := entry e F_p5b\<rparr>))
      [''Address Error (as expected): non-kuseg access w/KU=1'']"
    and "cause st = 11 \<Longrightarrow> says (p5gen e) t (LOADED (st\<lparr>pc_epc := pc_epc st + 4\<rparr>))
      [if bit (status st) 3 then ''High level SYS call from user mode process'' else ''High level SYS call from kernel mode process'']"
proof -
  let ?ps = "(pstates t, pFiveSupport t)"
  show "says (p5gen e) t (LOADED (st\<lparr>pc_epc := entry e F_p5a\<rparr>)) [''Bus Error (as expected): Access non-existent memory'']" if "cause st = 7"
    using that assms(2) unfolding says_def p5gen_def o_apply Let_def
    apply simp
    apply (rule print2_rule [OF assms(1) at_start])
    apply (simp add: upd2_def LDST2_def upd_five_def returns_Some at_def)
    done
  show "says (p5gen e) t (LOADED (st\<lparr>status := status st OR MSTATUS_MPP_M, pc_epc := entry e F_p5b\<rparr>))
      [''Address Error (as expected): non-kuseg access w/KU=1'']" if "cause st = 5"
    using that assms(2) unfolding says_def p5gen_def o_apply Let_def
    apply simp
    apply (rule print2_rule [OF assms(1) at_start])
    apply (simp add: upd2_def LDST2_def upd_five_def returns_Some at_def)
    done
  have "drop_bit 31 (push_bit 28 (status st)) = (if bit (status st) 3 then 1 else 0)"
    by (rule bit_word_eqI) (auto simp: bit_simps)
  then show "says (p5gen e) t (LOADED (st\<lparr>pc_epc := pc_epc st + 4\<rparr>))
      [if bit (status st) 3 then ''High level SYS call from user mode process'' else ''High level SYS call from kernel mode process'']"
    if "cause st = 11"
    using that assms(2) unfolding says_def p5gen_def p5sys_def o_apply Let_def
    by (auto intro!: print2_rule [OF assms(1) at_start] simp: upd2_def LDST2_def upd_five_def returns_Some at_def)
qed

definition knows_support :: "'w machine2 \<Rightarrow> bool" where
  "knows_support e \<longleftrightarrow> (\<forall>w r w'. nucleus e (GETSUPPORTPTR, 0, 0, 0) w = Some (r, w') \<longrightarrow> r = adr_pFiveSupport e)"

lemma p5mm_says:
  assumes "serves e {} {}" "knows_support e" "sup_exceptState (pFiveSupport t) PGFAULTEXCEPT = st"
  shows "says (p5mm e) t (LOADED (st\<lparr>status := status st AND NOT MSTATUS_MPP_M, pc_epc := entry e F_p5b\<rparr>))
    [''memory management trap'', ''Correct Support Structure Address'']"
  unfolding says_def p5mm_def o_apply
proof (rule print2_rule [OF assms(1) at_start], rule request_rule [OF assms(1)], assumption, simp)
  fix t1 r t2
  assume t2: "at e {} (peek e (around t)) (printed (requests t) @ line ''memory management trap'') (pstates t, pFiveSupport t) t2"
    and "nucleus e (GETSUPPORTPTR, 0, 0, 0) (around t1) = Some (r, around t2)"
  then have r: "r = adr_pFiveSupport e" using assms(2) unfolding knows_support_def by blast
  show "returns (print2 e (line (if r \<noteq> adr_pFiveSupport e then ''Support Structure Address Error'' else ''Correct Support Structure Address''))
      (upd2 (upd_five PGFAULTEXCEPT (\<lambda>st. st\<lparr>status := status st AND NOT MSTATUS_MPP_M\<rparr>))
        (upd2 (upd_five PGFAULTEXCEPT (\<lambda>st. st\<lparr>pc_epc := entry e F_p5b\<rparr>)) (LDST2 (five_state PGFAULTEXCEPT)))) t2)
    (\<lambda>(en', t'). en' = LOADED (st\<lparr>status := status st AND NOT MSTATUS_MPP_M, pc_epc := entry e F_p5b\<rparr>) \<and>
      printed (requests t') = printed (requests t) @ concat (map (\<lambda>m. line m) [''memory management trap'', ''Correct Support Structure Address'']))"
    by (rule print2_rule [OF assms(1) t2])
      (use assms(3) r in \<open>simp add: upd2_def LDST2_def upd_five_def returns_Some at_def\<close>)
qed

end
