(* ===== verification/P2_Root.thy ===== *)
theory P2_Root
  imports P2_Tests
begin

text \<open>The root process of the test of phase 2: the states it prepares, and its whole run.\<close>

section \<open>States\<close>

text \<open>The place of each stack, counted in quarters of a page below the stack of the root, and the entry points.\<close>

fun slot :: "pvar \<Rightarrow> nat" where
  "slot Hp_p1state = 1" | "slot Hp_p2state = 2" | "slot P2state = 3" | "slot P3state = 4" | "slot P4state = 5"
| "slot P5state = 7" | "slot P6state = 9" | "slot P7state = 10" | "slot P8rootstate = 11" | "slot Child1state = 12"
| "slot Child2state = 13" | "slot Gchild1state = 14" | "slot Gchild2state = 15" | "slot Gchild3state = 16"
| "slot Gchild4state = 17" | "slot P9state = 18" | "slot P10state = 19"

fun start_of :: "pvar \<Rightarrow> fname" where
  "start_of Hp_p1state = F_hp_p1" | "start_of Hp_p2state = F_hp_p2" | "start_of P2state = F_p2" | "start_of P3state = F_p3"
| "start_of P4state = F_p4" | "start_of P5state = F_p5" | "start_of P6state = F_p6" | "start_of P7state = F_p7"
| "start_of P8rootstate = F_p8root" | "start_of Child1state = F_child1" | "start_of Child2state = F_child2"
| "start_of Gchild1state = F_p8leaf1" | "start_of Gchild2state = F_p8leaf2" | "start_of Gchild3state = F_p8leaf3"
| "start_of Gchild4state = F_p8leaf4" | "start_of P9state = F_p9" | "start_of P10state = F_p10"

text \<open>A state that is ready for a process: machine mode, interrupts on, its stack and its entry point.\<close>

definition fit :: "'w machine2 \<Rightarrow> u32 \<Rightarrow> (pvar \<Rightarrow> state_t) \<Rightarrow> pvar \<Rightarrow> bool" where
  "fit e base ps v \<longleftrightarrow> gpr (ps v) (sp2 e) = base - of_nat (slot v) * QPAGE \<and> pc_epc (ps v) = entry e (start_of v) \<and>
    status (ps v) AND 0x1880 = 0x1880 \<and> mie (ps v) = MIE_ALL"

lemma status_bits: "(x OR (MSTATUS_MPIE_MASK OR MSTATUS_MPP_M)) AND 0x1880 = (0x1880 :: u32)"
proof -
  have "(x OR m) AND m = m" for m :: u32 by (rule bit_word_eqI) (auto simp: bit_simps)
  moreover have "(MSTATUS_MPIE_MASK OR MSTATUS_MPP_M :: u32) = 0x1880" by simp
  ultimately show ?thesis by metis
qed

text \<open>The states in \<open>D\<close> are ready; the next one goes below one of them.\<close>

lemma prepare_rule:
  assumes "serves e own bl" "at e own g out (ps, su) t" "\<forall>x\<in>D. fit e base ps x"
    and "u \<in> D - {v} \<and> slot v = slot u + m \<and> n = of_nat m \<and> f = start_of v"
    and "\<And>t' ps'. at e own g out (ps', su) t' \<Longrightarrow> \<forall>x\<in>insert v D. fit e base ps' x \<Longrightarrow> returns (k t') Q"
  shows "returns (prepare e v u n f k t) Q"
proof -
  let ?st = "(stst e (others e (around t)))"
  let ?ps = "ps(v := ?st\<lparr>gpr := (gpr ?st)(sp2 e := gpr (ps u) (sp2 e) - n * QPAGE), pc_epc := entry e f,
    status := status ?st OR (MSTATUS_MPIE_MASK OR MSTATUS_MPP_M), mie := MIE_ALL\<rparr>)"
  let ?t = "t\<lparr>around := others e (around t), pstates := ?ps\<rparr>"
  have "at e own g out (?ps, su) ?t" using others_at [OF assms(1,2)] by (simp add: at_def)
  moreover have "gpr (ps u) (sp2 e) = base - of_nat (slot u) * QPAGE" using assms(3,4) by (simp add: fit_def)
  then have "fit e base ?ps v" using assms(4) status_bits by (simp add: fit_def algebra_simps del: or_numerals)
  then have "\<forall>x\<in>insert v D. fit e base ?ps x" using assms(3) by (auto simp: fit_def)
  ultimately have "returns (k ?t) Q" by (rule assms(5))
  moreover have "prepare e v u n f k t = k ?t"
    using assms(2,4) by (simp add: prepare_def upd2_def sp_of_def Let_def at_def fun_upd_twist del: or_numerals)
  ultimately show ?thesis by simp
qed

lemma prepare_first_rule:
  assumes "serves e own bl" "at e own g out (ps, su) t" "slot v = m \<and> n = of_nat m \<and> f = start_of v"
    and "\<And>t' ps' base. at e own g out (ps', su) t' \<Longrightarrow> \<forall>x\<in>{v}. fit e base ps' x \<Longrightarrow> returns (k t') Q"
  shows "returns (prepare e v v n f k t) Q"
proof -
  let ?st = "(stst e (others e (around t)))"
  let ?ps = "ps(v := ?st\<lparr>gpr := (gpr ?st)(sp2 e := gpr ?st (sp2 e) - n * QPAGE), pc_epc := entry e f,
    status := status ?st OR (MSTATUS_MPIE_MASK OR MSTATUS_MPP_M), mie := MIE_ALL\<rparr>)"
  let ?t = "t\<lparr>around := others e (around t), pstates := ?ps\<rparr>"
  have "at e own g out (?ps, su) ?t" using others_at [OF assms(1,2)] by (simp add: at_def)
  moreover have "\<forall>x\<in>{v}. fit e (gpr ?st (sp2 e)) ?ps x" using assms(3) status_bits by (simp add: fit_def del: or_numerals)
  ultimately have "returns (k ?t) Q" by (rule assms(4))
  moreover have "prepare e v v n f k t = k ?t"
    using assms(2) by (simp add: prepare_def upd2_def sp_of_def Let_def at_def del: or_numerals)
  ultimately show ?thesis by simp
qed

lemma test_states_rule:
  assumes "serves e own bl" "at e own g out (ps, su) t" "P5Stack \<in> own"
    and "\<And>t' ps' base sp. at e own (g(P5Stack := sp)) out (ps', su) t' \<Longrightarrow> \<forall>v. fit e base ps' v \<Longrightarrow> returns (k t') Q"
  shows "returns (test_states e k t) Q"
proof -
  have all: "\<forall>v. fit e base ps' v" if "\<forall>x\<in>D. fit e base ps' x" "UNIV \<subseteq> D" for base ps' and D :: "pvar set" using that by blast
  note step = prepare_rule [OF assms(1), where m = 1]
  show ?thesis
    unfolding test_states_def o_apply set_p5Stack_def
    apply (rule prepare_first_rule [OF assms(1,2), where m = 1], simp)
    apply (rule step, assumption, assumption, simp)
    apply (rule step, assumption, assumption, simp)
    apply (rule step, assumption, assumption, simp)
    apply (rule step, assumption, assumption, simp)
    apply (rule prepare_rule [OF assms(1), where m = 2], assumption, assumption, simp)
    apply (rule wr_rule [OF assms(1)], assumption, simp)
    apply (rule prepare_rule [OF assms(1), where m = 2], assumption, assumption, simp)
    apply (rule step, assumption, assumption, simp)+
    apply (erule assms(4), erule all)
    apply (rule subsetI, case_tac x rule: pvar.exhaust; simp)
    done
qed

lemma set_five_context_rule:
  assumes "serves e own bl" "at e own g out (ps, su) t" "P5Stack \<in> own" "\<And>t' su'. at e own g out (ps, su') t' \<Longrightarrow> returns (k t') Q"
  shows "returns (set_five_context e i f k t) Q"
  unfolding set_five_context_def upd2_def Let_def
proof (rule rd_rule [OF assms(1-3)])
  fix t1 assume "at e own g out (ps, su) t1"
  then have "at e own g out (ps, sup) (t1\<lparr>pFiveSupport := sup\<rparr>)" for sup by (simp add: at_def)
  then show "returns (k (t1\<lparr>pFiveSupport := h t1\<rparr>)) Q" for h by (rule assms(4))
qed

text \<open>When p1 goes on after its P on sem_endp2, p2 has set the flag.\<close>

definition synchronises :: "'w machine2 \<Rightarrow> bool" where
  "synchronises e \<longleftrightarrow> (\<forall>w r w'. nucleus e (PASSEREN, adr e Sem_endp2, 0, 0) w = Some (r, w') \<longrightarrow> peek e (others e w') P1p2synch \<noteq> 0)"

lemma synch_rule:
  assumes "serves e own bl" "synchronises e" "at e own g out ps t" "Sem_endp2 \<notin> own \<and> Sem_endp2 \<notin> bl"
    and "\<And>t'. at e own g out ps t' \<Longrightarrow> returns (k t') Q"
  shows "returns (passeren e Sem_endp2 (check_synch e k) t) Q"
proof (cases "nucleus e (PASSEREN, adr e Sem_endp2, 0, 0) (around t)")
  case None
  have "adr e Sem_endp2 \<notin> adr e ` bl" using assms(4) adr_eq_iff [OF assms(1), of Sem_endp2] servesD(8) [OF assms(1)] by auto
  moreover have "adr e Sem_endp2 \<noteq> adr e x" if "x \<in> own" for x
    using that assms(4) adr_eq_iff [OF assms(1), of Sem_endp2 x] servesD(1) [OF assms(1)] by auto
  ultimately show ?thesis using None served [OF assms(1), of PASSEREN "adr e Sem_endp2" "around t" 0 0] by auto
next
  case (Some rw)
  obtain r w where r: "nucleus e (PASSEREN, adr e Sem_endp2, 0, 0) (around t) = Some (r, w)" using Some by (cases rw) simp
  let ?t = "t\<lparr>requests := requests t @ [(PASSEREN, adr e Sem_endp2, 0, 0)], around := w\<rparr>"
  have "peek e w x = g x" if "x \<in> own" for x
    using servesD(7) [OF assms(1) r that] assms(3,4) that adr_eq_iff [OF assms(1), of Sem_endp2 x] servesD(1) [OF assms(1)]
    by (auto simp: at_def)
  then have "at e own g out ps ?t" using assms(3) by (simp add: at_def printed_def)
  then have "at e own g out ps (?t\<lparr>around := others e (around ?t)\<rparr>)" by (rule others_at [OF assms(1)])
  moreover have "peek e (others e w) P1p2synch \<noteq> 0" using assms(2) r unfolding synchronises_def by blast
  ultimately show ?thesis
    unfolding passeren_def check_synch_def by (intro returns_SYSCALL2 [OF r]) (simp add: rd_def Let_def assms(5))
qed

section \<open>The loop over p8\<close>

lemma reset_leaves_rule:
  assumes "serves e own bl" "at e own g out ps t" "\<forall>i\<in>set is. i < NOLEAVES \<and> Sem_endcreate i \<notin> own"
    and "\<And>t'. at e own g out ps t' \<Longrightarrow> returns (k t') Q"
  shows "returns (reset_leaves e is k t) Q"
  using assms(2,3)
proof (induction "is" arbitrary: t)
  case Nil
  then show ?case using assms(4) by simp
next
  case (Cons i "is")
  show ?case
    unfolding reset_leaves.simps
  proof (rule wr_rule [OF assms(1) Cons.prems(1)])
    fix t1 assume "at e own (g(Sem_endcreate i := 0)) out ps t1"
    then have "at e own g out ps t1" by (rule at_cong) (use Cons.prems(2) in auto)
    then show "returns (reset_leaves e is k t1) Q" by (rule Cons.IH) (use Cons.prems(2) in simp)
  qed (use Cons.prems(2) in simp)
qed

lemma p8_body_rule:
  assumes "serves e own bl" "at e own g out ps t" "own \<subseteq> {Sem_testsem, P8inc, P5Stack}" "bl = {}"
    and "\<And>t'. at e own g out ps t' \<Longrightarrow> returns (k t') Q"
  shows "returns (p8_body e k t) Q"
proof -
  have o: "Sem_blkp8 \<notin> own" "Sem_endp8 \<notin> own" "P8pid \<notin> own" "\<And>i. Sem_endcreate i \<notin> own" using assms(3) by auto
  show ?thesis
    unfolding p8_body_def o_apply
    apply (rule other_rules(3) [OF assms(1,2)], use o in simp)
    apply (rule other_rules(3) [OF assms(1)], assumption, use o in simp)
    apply (rule reset_leaves_rule [OF assms(1)], assumption, use o in simp)
    apply (rule create_into_rule [OF assms(1)], assumption, use o in simp)
    apply (rule other_rules(2) [OF assms(1)], assumption, use o in simp, erule assms(5), simp add: assms(4))
    done
qed

lemma p8_loop_rule:
  assumes "serves e own bl" "own \<subseteq> {Sem_testsem, P8inc, P5Stack}" "P8inc \<in> own" "bl = {}"
    and "at e own g out ps t" "g P8inc = 4 - of_nat n" "n \<le> 4"
    and "\<And>t' i. at e own (g(P8inc := i)) out ps t' \<Longrightarrow> returns (k t') Q"
  shows "returns (p8_loop e k t) Q"
  using assms(5-)
proof (induction n arbitrary: g t)
  case 0
  have "at e own (g(P8inc := g P8inc)) out ps t' \<Longrightarrow> returns (k t') Q" for t' by (rule 0(4))
  then have "at e own g out ps t' \<Longrightarrow> returns (k t') Q" for t' by simp
  then show ?case using 0(2) by (subst p8_loop.simps) (rule rd_rule [OF assms(1) 0(1) assms(3)], simp)
next
  case (Suc n)
  have "slt (4 - of_nat (Suc n)) 4" if "Suc n \<le> 4" using that by (auto simp: le_Suc_eq numeral_eq_Suc)
  then have lt: "slt (g P8inc) 4" using Suc.prems(2,3) by simp
  have "returns (p8_loop e k t') Q" if "at e own (g(P8inc := g P8inc + 1)) out ps t'" for t'
  proof (rule Suc.IH [OF that])
    show "(g(P8inc := g P8inc + 1)) P8inc = 4 - of_nat n" "n \<le> 4" using Suc.prems(2,3) by simp_all
  qed (unfold fun_upd_upd, rule Suc.prems(4))
  then show ?case
    apply (subst p8_loop.simps)
    apply (rule rd_rule [OF assms(1) Suc.prems(1) assms(3)], subst if_P [OF lt])
    apply (rule p8_body_rule [OF assms(1) _ assms(2,4)], assumption)
    apply (rule rd_rule [OF assms(1) _ assms(3)], assumption)
    apply (rule wr_rule [OF assms(1)], assumption, simp, blast)
    done
qed

section \<open>The whole run\<close>

lemma test_semaphores_rule:
  assumes "serves e own {}" "at e own g out ps t" "Sem_testsem \<in> own" "g Sem_testsem = 0"
    and "\<And>t'. at e own g (out @ line ''p1 v(sem_testsem)'') ps t' \<Longrightarrow> returns (k t') Q"
  shows "returns (test_semaphores e k t) Q"
proof -
  have "g(Sem_testsem := 0) = g" using assms(4) by (simp add: fun_upd_idem)
  then show ?thesis
    using assms(3,4) unfolding test_semaphores_def o_apply
    apply -
    apply (rule verhogen_rule [OF assms(1,2)], simp)
    apply (rule verhogen_rule [OF assms(1)], assumption, simp)
    apply (rule verhogen_rule [OF assms(1)], assumption, simp)
    apply (rule check_var_rule [OF assms(1)], assumption, simp)
    apply (rule passeren_rule [OF assms(1)], assumption, simp)
    apply (rule passeren_rule [OF assms(1)], assumption, simp)
    apply (rule passeren_rule [OF assms(1)], assumption, simp)
    apply (rule check_var_rule [OF assms(1)], assumption, simp)
    apply (rule print2_rule [OF assms(1)], assumption, simp add: assms(5))
    done
qed

lemma test_start_rule:
  assumes "serves e {Sem_testsem, P8inc, P5Stack} {}" "synchronises e" "at e {Sem_testsem, P8inc, P5Stack} g out ps t"
    and "\<And>t'. at e {Sem_testsem, P8inc, P5Stack} g (out @ line ''p2 was started'' @ line ''p3 is started'') ps t' \<Longrightarrow> returns (k t') Q"
  shows "returns (test_start e k t) Q"
  unfolding test_start_def o_apply
  apply (rule create_into_rule [OF assms(1,3)], simp)
  apply (rule print2_rule [OF assms(1)], assumption)
  apply (rule other_rules(1) [OF assms(1)], assumption, simp)
  apply (rule synch_rule [OF assms(1,2)], assumption, simp)
  apply (rule create_into_rule [OF assms(1)], assumption, simp)
  apply (rule print2_rule [OF assms(1)], assumption)
  apply (rule other_rules(2) [OF assms(1)], assumption, simp)
  apply (rule create_only_rule [OF assms(1)], assumption)
  apply (rule create_only_rule [OF assms(1)], assumption)
  apply (rule create_into_rule [OF assms(1)], assumption, simp)
  apply (rule assms(4), simp, simp)
  done

lemma test_five_rule:
  assumes "serves e {Sem_testsem, P8inc, P5Stack} {}" "at e {Sem_testsem, P8inc, P5Stack} g out (ps, su) t"
    and "\<And>t' su'. at e {Sem_testsem, P8inc, P5Stack} g (out @ line ''p1 knows p5 ended'') (ps, su') t' \<Longrightarrow> returns (k t') Q"
  shows "returns (test_five e k t) Q"
  unfolding test_five_def o_apply
  apply (rule set_five_context_rule [OF assms(1,2)], simp)
  apply (rule set_five_context_rule [OF assms(1)], assumption, simp)
  apply (rule create_only_rule [OF assms(1)], assumption)
  apply (rule create_only_rule [OF assms(1)], assumption)
  apply (rule create_only_rule [OF assms(1)], assumption)
  apply (rule create_into_rule [OF assms(1)], assumption, simp)
  apply (rule other_rules(2) [OF assms(1)], assumption, simp)
  apply (rule print2_rule [OF assms(1)], assumption)
  apply (rule other_rules(2) [OF assms(1)], assumption, simp)
  apply (erule assms(3), simp_all)
  done

definition root_msgs :: "string list" where
  "root_msgs = [''p1 v(sem_testsem)'', ''p2 was started'', ''p3 is started'', ''p1 knows p5 ended'', ''p1 finishes OK -- TTFN'']"

lemma root_runs:
  assumes "serves e {Sem_testsem, P8inc, P5Stack} {}" "synchronises e" "\<not> accessible e BADADDR" "peek e (around t) Sem_testsem = 0"
  shows "returns (p2test_main e t) (\<lambda>(en, t'). en = TRAPPED BADADDR \<and>
    printed (requests t') = printed (requests t) @ concat (map (\<lambda>m. line m) root_msgs) \<and> (\<exists>base. \<forall>v. fit e base (pstates t') v))"
  unfolding p2test_main_def o_apply
  apply (rule test_semaphores_rule [OF assms(1) at_start], simp, rule assms(4))
  apply (rule test_states_rule [OF assms(1)], assumption, simp)
  apply (rule test_start_rule [OF assms(1,2)], assumption)
  apply (rule test_five_rule [OF assms(1)], assumption)
  apply (rule wr_rule [OF assms(1)], assumption, simp)
  apply (rule p8_loop_rule [OF assms(1), where n = 4], simp, simp, simp, assumption, simp, simp)
  apply (rule print2_rule [OF assms(1)], assumption)
  apply (use assms(3) in \<open>auto simp: touch_def returns_Some at_def root_msgs_def\<close>)
  done

text \<open>The stacks of the processes, and of the second incarnation of p4, do not overlap.\<close>

lemma slot_inject: "slot v = slot w \<Longrightarrow> v = w"
  by (cases v; cases w) simp_all

lemma slot_range: "1 \<le> slot v \<and> slot v \<le> 19 \<and> slot v \<noteq> 6"
  by (cases v) simp_all

lemma stack_words:
  assumes "n \<le> 19" "m \<le> 19" "n \<noteq> m" "i < 1024" "j < 1024"
  shows "base - of_nat n * QPAGE - of_nat (Suc i) \<noteq> base - of_nat m * QPAGE - of_nat (Suc j)"
proof
  assume "base - of_nat n * QPAGE - of_nat (Suc i) = base - of_nat m * QPAGE - of_nat (Suc j)"
  then have "(of_nat (1024 * n + Suc i) :: u32) = of_nat (1024 * m + Suc j)" by (simp add: algebra_simps)
  moreover have "1024 * n + Suc i < 2 ^ 32" "1024 * m + Suc j < 2 ^ 32" using assms by simp_all
  ultimately have "1024 * n + Suc i = 1024 * m + Suc j" unfolding word_of_nat_eq_iff by (simp add: take_bit_nat_eq_self)
  moreover have "(1024 * n + i) div 1024 = n" "(1024 * m + j) div 1024 = m" using assms(4,5) by simp_all
  ultimately show False using assms(3) by simp
qed

section \<open>All processes\<close>

text \<open>The program of an entry point, what it relies on, how it ends and what it prints.\<close>

fun body :: "'w machine2 \<Rightarrow> fname \<Rightarrow> 'w run" where
  "body e F_p2 = p2 e" | "body e F_p3 = p3 e" | "body e F_p4 = p4 e" | "body e F_p5 = p5 e" | "body e F_p5a = p5a e"
| "body e F_p5b = p5b e" | "body e F_p5gen = p5gen e" | "body e F_p5mm = p5mm e" | "body e F_p6 = p6 e" | "body e F_p7 = p7 e"
| "body e F_p8root = p8root e" | "body e F_child1 = child1 e" | "body e F_child2 = child2 e" | "body e F_p8leaf1 = p8leaf1 e"
| "body e F_p8leaf2 = p8leaf2 e" | "body e F_p8leaf3 = p8leaf3 e" | "body e F_p8leaf4 = p8leaf4 e" | "body e F_p9 = p9 e"
| "body e F_p10 = p10 e" | "body e F_hp_p1 = hp_p1 e" | "body e F_hp_p2 = hp_p2 e"

abbreviation (input) incarnation :: "'w machine2 \<Rightarrow> 'w p2state \<Rightarrow> u32" where
  "incarnation e t \<equiv> peek e (around t) P4inc"

fun relies :: "'w machine2 \<Rightarrow> 'w p2state \<Rightarrow> fname \<Rightarrow> bool" where
  "relies e t F_p2 \<longleftrightarrow> serves e (insert P2pid (Sem_s ` {..MAXSEM})) {} \<and> knows_pid e 0 P2pid \<and> dies e 0 \<and> times_ok e"
| "relies e t F_p3 \<longleftrightarrow> serves e {P3pid} {} \<and> knows_pid e 0 P3pid \<and> dies e 0 \<and> clock_ok e"
| "relies e t F_p4 \<longleftrightarrow> knows_pid e 0 P4pid \<and> dies e 0 \<and>
    (incarnation e t = 1 \<and> serves e {P4inc, P4pid} {} \<or> incarnation e t = 2 \<and> serves e {P4inc, P4pid} {Sem_blkp4})"
| "relies e t F_p5 \<longleftrightarrow> serves e {P5MemLocation} {} \<and> \<not> accessible e (peek e (around t) P5MemLocation)"
| "relies e t F_p5a \<longleftrightarrow> serves e {P5MemLocation} {} \<and> \<not> accessible e 0x80000000"
| "relies e t F_p5b \<longleftrightarrow> serves e {} {} \<and> supported e \<and> clock_ok e \<and> dies e 0"
| "relies e t F_p5gen \<longleftrightarrow> serves e {} {} \<and> cause (five_state GENERALEXCEPT t) \<in> {7, 5, 11}"
| "relies e t F_p5mm \<longleftrightarrow> serves e {} {} \<and> knows_support e"
| "relies e t F_p6 \<longleftrightarrow> serves e {} {} \<and> unsupported e"
| "relies e t F_p7 \<longleftrightarrow> serves e {} {} \<and> \<not> accessible e BADADDR"
| "relies e t F_child1 \<longleftrightarrow> serves e {P8pid} {Sem_blkp8} \<and> knows_pid e 1 P8pid"
| "relies e t F_child2 \<longleftrightarrow> serves e {P8pid} {Sem_blkp8} \<and> knows_pid e 1 P8pid"
| "relies e t F_p8leaf1 \<longleftrightarrow> serves e {} {Sem_blkp8}"
| "relies e t F_p8leaf2 \<longleftrightarrow> serves e {} {Sem_blkp8}"
| "relies e t F_p8leaf3 \<longleftrightarrow> serves e {} {Sem_blkp8}"
| "relies e t F_p8leaf4 \<longleftrightarrow> serves e {} {Sem_blkp8}"
| "relies e t F_p9 \<longleftrightarrow> serves e {} {Sem_blkp9}"
| "relies e t F_p10 \<longleftrightarrow> serves e {P9pid} {} \<and> knows_pid e 1 P9pid \<and> dies e (peek e (around t) P9pid)"
| "relies e t _ \<longleftrightarrow> serves e {} {} \<and> dies e 0"

fun final :: "'w machine2 \<Rightarrow> 'w p2state \<Rightarrow> fname \<Rightarrow> ending" where
  "final e t F_p5 = TRAPPED (peek e (around t) P5MemLocation)"
| "final e t F_p5a = TRAPPED 0x80000000"
| "final e t F_p7 = TRAPPED BADADDR"
| "final e t F_p5gen = LOADED (let st = five_state GENERALEXCEPT t in
     if cause st = 7 then st\<lparr>pc_epc := entry e F_p5a\<rparr>
     else if cause st = 5 then st\<lparr>status := status st OR MSTATUS_MPP_M, pc_epc := entry e F_p5b\<rparr>
     else st\<lparr>pc_epc := pc_epc st + 4\<rparr>)"
| "final e t F_p5mm = LOADED (let st = five_state PGFAULTEXCEPT t in
     st\<lparr>status := status st AND NOT MSTATUS_MPP_M, pc_epc := entry e F_p5b\<rparr>)"
| "final e t _ = GONE"

fun text_of :: "'w machine2 \<Rightarrow> 'w p2state \<Rightarrow> fname \<Rightarrow> string list" where
  "text_of e t F_p2 = [''p2 starts'', ''p2 v'' @ quote @ ''s successfully'', ''p2 is OK'']"
| "text_of e t F_p3 = [''p3 - CLOCKWAIT OK'', ''p3 - CPU time correctly maintained'']"
| "text_of e t F_p4 = (if incarnation e t = 1 then [''first incarnation of p4 starts'', ''p4 is OK''] else [''second incarnation of p4 starts''])"
| "text_of e t F_p5 = [''p5 starts'']"
| "text_of e t F_p5a = []"
| "text_of e t F_p5b = []"
| "text_of e t F_p5gen = [let st = five_state GENERALEXCEPT t in
     if cause st = 7 then ''Bus Error (as expected): Access non-existent memory''
     else if cause st = 5 then ''Address Error (as expected): non-kuseg access w/KU=1''
     else if bit (status st) 3 then ''High level SYS call from user mode process'' else ''High level SYS call from kernel mode process'']"
| "text_of e t F_p5mm = [''memory management trap'', ''Correct Support Structure Address'']"
| "text_of e t F_p6 = [''p6 starts'']"
| "text_of e t F_p7 = [''p7 starts'']"
| "text_of e t F_p8root = [''p8root starts'']"
| "text_of e t F_child1 = [''child1 starts'']"
| "text_of e t F_child2 = [''child2 starts'']"
| "text_of e t F_p8leaf1 = [''leaf process (1) starts'']"
| "text_of e t F_p8leaf2 = [''leaf process (2) starts'']"
| "text_of e t F_p8leaf3 = [''leaf process (3) starts'']"
| "text_of e t F_p8leaf4 = [''leaf process (4) starts'']"
| "text_of e t F_p9 = [''p9 starts'']"
| "text_of e t F_p10 = [''p10 starts'']"
| "text_of e t F_hp_p1 = [''hp_p1 starts'', ''hp_p1 ends'']"
| "text_of e t F_hp_p2 = [''hp_p2 starts'', ''hp_p2 ends'']"

lemma processes_say: "relies e t f \<Longrightarrow> says (body e f) t (final e t f) (text_of e t f)"
proof (cases f)
  case F_p4
  assume "relies e t f"
  then show ?thesis using F_p4 p4_says [of e t] p4_second_says [of e t] by auto
next
  case F_p5gen
  assume "relies e t f"
  then show ?thesis using F_p5gen p5gen_says [of e t] by (auto simp: Let_def)
next
  case F_p5mm
  assume "relies e t f"
  then show ?thesis using F_p5mm p5mm_says [of e t] by (auto simp: Let_def)
qed (simp_all add: p2_says [simplified] p3_says p5_says p5a_says p5b_says p6_says p7_says p8root_says children_say leaves_say p9_says p10_says
    hp_p1_says hp_p2_says)

end
