(* ===== verification/Props_P2.thy ===== *)
theory Props_P2
  imports P2_Root Samples
begin

text \<open>The test of phase 2 passes when it is served, with an instance for a machine of one process.\<close>

section \<open>A machine\<close>



















section \<open>Properties\<close>






end
