(* ===== verification/Spec2Isabelle.thy ===== *)
theory Spec2Isabelle
  imports Props_Structures Props_Nucleus Props_Support Props_Programs Props_Sharing Props_Tests Props_P2
begin

text \<open>
  PandOSsh is a small operating system for the uRISCV machine: a nucleus with processes,
  semaphores, interrupts and devices, and above it a support level with virtual memory and
  terminal services for user processes. This development models its C code and proves what
  makes it correct.

  \<^bold>\<open>The program.\<close> Phase 1 keeps the linked structures (phase1/pcb.c, phase1/asl.c on
  headers/listx.h): the free PCBs, process queues ordered by priority, trees of processes,
  and the queues of processes blocked on semaphores. Phase 2 is the nucleus: boot
  (initial.c), the scheduler (scheduler.c), the services NSYS1 to NSYS10 (syscall.c), the
  interrupt handlers (interrupts.c) and the dispatch of exceptions (exceptions.c). Phase 3 is
  the support level: the pager and the Swap Pool (vmSupport.c), the preparation of user
  processes (helpers.c, initProc.c), their services (syscalls.c) and the handlers that lead
  to them (sysSupport.c). The nucleus passes page faults and the services of user processes
  up to phase 3, which asks the nucleus for services in turn. klog.c is a log in memory. The
  programs of testers/ (the shell, the calculator and smaller ones) run on the services of
  phase 3.

  \<^bold>\<open>The theories.\<close>
  \<^item> \<open>Prelude\<close>: machine words, conventions (undefined or endless computations are \<open>None\<close>),
    shared facts. \<open>Listx\<close>: the list operations of listx.h on a heap of links, and the ring
    invariant. \<open>Machine\<close>: constants and structures of const.h and types.h, the state
    \<open>kernel\<close> of the nucleus and the registers of the machine, and the parameter \<open>platform\<close>
    with what the code takes from the uRISCV library.
  \<^item> \<open>Pcb\<close>, \<open>Asl\<close>: the operations of pcb.c and asl.c. \<open>Phase1\<close>, \<open>Blocking\<close>: the abstract
    state \<open>phase1\<close> (lists of PCBs), the relation \<open>wf\<close> between it and the heap, and one
    refinement lemma for each operation.
  \<^item> \<open>Interfaces\<close>: the contracts as locales: \<open>prio_queue\<close> (the ready queue; interpreted as
    \<open>readyq\<close> in \<open>Phase1\<close>), \<open>wait_queues\<close> (semaphore queues; \<open>semq\<close> in \<open>Blocking\<close>),
    \<open>transition_system\<close> and \<open>responsive_system\<close> (\<open>nuc\<close> in \<open>Nucleus\<close>, \<open>mutex\<close> in \<open>Exclusion\<close>, \<open>supp\<close>
    in \<open>Support_Level\<close>).
  \<^item> \<open>Scheduler\<close>, \<open>Syscall\<close>, \<open>Interrupts\<close>, \<open>Exceptions\<close>: dispatch, nsys1 to nsys10,
    terminateProcess, findPcbByPid, the interrupt and exception handlers, main; a handler
    returns how it leaves (\<open>LDST\<close>, \<open>HALT\<close>, \<open>WAIT\<close>, \<open>PANIC\<close>, \<open>RETURN\<close>) and the new state.
  \<^item> \<open>Services\<close>, \<open>Devices\<close>, \<open>Boot\<close>, \<open>Trees\<close>, \<open>Search\<close>, \<open>Termination\<close>, \<open>Nucleus\<close>: what these
    do on states with the invariant \<open>sys_inv\<close>; \<open>nstep\<close> is the nucleus as a transition system.
    \<open>Exclusion\<close>: the nucleus with processes that use one semaphore as a mutex (\<open>mstep\<close>).
  \<^item> \<open>Support\<close>, \<open>UserProc\<close>: the code of phase 3. Its state \<open>world\<close> extends \<open>kernel\<close>; each
    request to the nucleus is recorded in \<open>calls\<close> and answered by the next of \<open>replies\<close>, so
    that the theorems hold for every behaviour of the nucleus and of the devices.
  \<^item> \<open>Paging\<close>, \<open>Pager\<close>, \<open>Terminal\<close>, \<open>Support_Level\<close>: page tables, the invariant \<open>pool_inv\<close> of
    the Swap Pool, the pager on each of its branches, the terminal services, the creation of
    processes, and \<open>sstep\<close>, the support level as a transition system.
  \<^item> \<open>Klog\<close>: klog.c. \<open>Programs\<close>: shell.c. \<open>Calc\<close>: the other programs of testers/. Their
    requests are recorded as events, and the results of the requests are given.
    \<open>Program_Facts\<close>: what the programs compute.
  \<^item> \<open>P1test\<close>: p1test.c, the test of phase 1, with its buffers and its terminal. \<open>P1_Run\<close>,
    \<open>P1_Tests\<close>, \<open>P1_Semaphores\<close>: rules that execute it on a view of the state in which the linked
    structures are lists, and the parts of the test one by one.
  \<^item> \<open>P2test\<close>: p2test.c, the test of phase 2. A process is a program whose statements take the
    rest of the program as an argument; the parameter \<open>machine2\<close> holds the nucleus, the clock, the
    memory and what the other processes do between two accesses. \<open>P2_Run\<close> states what a process
    relies on (\<open>serves\<close>) and has rules that execute its statements; \<open>P2_Tests\<close> runs each process,
    \<open>P2_Root\<close> the root process, and collects them in tables (\<open>body\<close>, \<open>relies\<close>, \<open>final\<close>, \<open>text_of\<close>).
  \<^item> \<open>Samples\<close>, \<open>Support_Samples\<close>: concrete states for the instances.
    \<open>Props_Structures\<close>, \<open>Props_Sharing\<close> (C6), \<open>Props_P2\<close> (C7 and C11), \<open>Props_Tests\<close> (C10) and
    \<open>Props_Programs\<close> (C8 and C14) hold C5 to C15, \<open>Props_Nucleus\<close> C16 to C29, \<open>Props_Support\<close> C30 to C40, and this theory C1 to
    C4.

  \<^bold>\<open>What is shown.\<close> C1 to C4: every state the nucleus reaches has its invariant, every
  acceptable exception is handled, boot establishes the invariant, termination removes exactly
  a subtree. C5 to C15: the loops over lists, the order of the ready queue, refinement of the semaphore operations and bounded bypass; mutual exclusion of
  processes that share a semaphore, through every service and interrupt (C6); the test of phase
  1 passes from any state (C10); each process of the test of phase 2, and its root, passes when it is
  served as documented, and their stacks do not overlap (C7, C11); the shell on any lines of input, and the calculator. C16 to C29: the
  scheduler, each service and interrupt handler on its branches, the match of DoIO and
  interrupts, traps of user mode, and two errors of termination. C30 to C40: isolation of
  user pages, the pager, the refill handler, release on termination, creation, terminal input
  and output, the accepted strings, the path from a flash operation to the semaphore of its
  device, and the log.

  \<^bold>\<open>Bounds and loops.\<close> The list loops, terminateProcess, the search of the process tree, the
  interval timer's loop, readTerminal, the busy waiting of p1test.c, the loops of p2test.c that wait for
  the clock and that create p8, the main loop of the shell and
  the recursion of fib are
  \<open>partial_function (option)\<close>: not returning is \<open>None\<close>, and each is shown to return on states
  with the invariant, or on the stated inputs; no fuel is used. Integers are 32-bit words;
  signed comparisons read them with \<open>sint\<close>. The pager makes at most 8 requests, which is why 8
  answers are enough for it.

  \<^bold>\<open>Restrictions.\<close> Exceptions are taken to be \<open>acceptable\<close> (in \<open>Nucleus\<close>): a termination
  concerns processes whose PCBs say truly whether they are blocked, which the nucleus does not
  ensure (C28). In C6 the processes that share the semaphore follow the discipline of a mutex, and
  no process is terminated inside it. The handlers of the support level are atomic steps of \<open>sstep\<close>: the
  interleaving of two handlers at their requests to the nucleus is not modelled, nor are page
  faults of the support level itself when it reads or writes the memory of a process.

  \<^bold>\<open>Not modelled.\<close> The uRISCV library and BIOS (the parameters \<open>platform\<close> and \<open>splatform\<close>);
  the interleaving of the processes of p2test.c on the model of the nucleus (each is shown to pass
  against the contract \<open>serves\<close>, with the values of the clock and the answers that its checks read as
  hypotheses); the macros of listx.h that the code does not use.
\<close>

section \<open>The nucleus as a whole\<close>

text \<open>
  C1: Every state the nucleus can reach after boot has the invariant. From any state that
  main leaves, whatever the processes and the devices do to the memory, and after any
  sequence of TLB refills and acceptable exceptions, the linked structures of phase 1 are
  well formed (the free list, the ready queue, the semaphore queues and the process trees
  are disjoint rings), every process is running, ready or blocked in exactly one queue,
  the ready queue is sorted by priority, and processCount and softBlock_count count the
  processes and those blocked on a device.
\<close>

theorem reachable_invariant:
  assumes "reach (nucleus_init pf) (nstep pf) s"
  shows "\<exists>a. sys_inv pf s a"
  using nuc.reach_inv [OF assms] by blast

theorem reachable_invariant_witness:
  "reach (nucleus_init sample_platform) (nstep sample_platform) ticked \<and> (\<exists>a. sys_inv sample_platform ticked a)"
  using reachable_invariant [OF ticked_reach] ticked_reach by blast

text \<open>
  C2: In every reachable state every acceptable exception is handled: exceptionHandler
  dereferences no NULL pointer, leaves no loop running forever, and the state it leaves
  is reachable again.
\<close>

theorem reachable_exception_handled:
  assumes "reach (nucleus_init pf) (nstep pf) s" "acceptable pf s"
  shows "\<exists>e s'. exceptionHandler pf s = Some (e, s') \<and> reach (nucleus_init pf) (nstep pf) s'"
  by (rule nuc.reach_answer [OF assms])

theorem reachable_exception_handled_witness:
  "acceptable sample_platform ticked \<and> (\<exists>e s'. exceptionHandler sample_platform ticked = Some (e, s'))"
  using reachable_exception_handled [OF ticked_reach ticked_acceptable] ticked_acceptable by blast

text \<open>
  C3: main boots the nucleus from any contents of the memory, given the initial values of
  the counters: it ends, and the first process runs alone, in PCB 19, with the process
  identifier 1, at the entry point test, with its stack at the top of the RAM; the
  invariant holds, the Pass Up Vector is set and the pseudo-clock is started.
\<close>

theorem main_boots:
  assumes "boot_globals pf s"
  shows "\<exists>s'. main pf s = Some (LDST (p_s (first_pcb pf s 19)), s') \<and> sys_inv pf s' boot_phase1 \<and>
    live boot_phase1 = {19} \<and> currProc s' = Some 19 \<and> p_pid (pcbs s' 19) = 1 \<and>
    pc_epc (p_s (pcbs s' 19)) = adr_test pf \<and>
    gpr (p_s (pcbs s' 19)) (gpr_sp pf) = ram s RAMBASEADDR + ram s RAMBASESIZE \<and>
    exception_handler (passupvector s') = adr_exceptionHandler pf \<and>
    tlb_refill_handler (passupvector s') = adr_uTLB_RefillHandler pf \<and> itimer s' = PSECOND"
proof -
  have M: "MAXPROC - 1 = 19" by (simp add: MAXPROC_def)
  have g: "processCount s = 0" "currProc s = None" "softBlock_count s = 0" "next_pid s = 1"
    using assms by (simp_all add: boot_globals_def)
  then show ?thesis
    using main_eq [OF g(1,2), of pf] unfolding M
    by (auto simp: sys_inv_def soft_ok_def soft_blocked_def initVector_def MAXPROC_def first_pcb_def set_sp_def fresh_pcb_def)
qed

theorem main_boots_witness:
  "boot_globals sample_platform zero_kernel \<and>
    (\<exists>s'. main sample_platform zero_kernel = Some (LDST (p_s (first_pcb sample_platform zero_kernel 19)), s') \<and>
      currProc s' = Some 19)"
  using main_boots [OF zero_kernel_boots] zero_kernel_boots by blast

text \<open>
  C4: terminateProcess ends and removes exactly the process and its descendants, when each
  of their PCBs says truly whether it is blocked: they leave the ready queue, the
  semaphore queues and the children lists, whose other entries keep their order; the
  process count goes down by their number and the soft-block count by the number of those
  that were blocked on a device; the processor is given up if the running process is
  among them; the structures stay well formed and the other PCBs are untouched.
\<close>

theorem terminateProcess_removes_subtree:
  assumes "kwf s a" "p \<in> live a" "\<And>q. q \<in> desc a p \<Longrightarrow> term_ok s a q"
  shows "\<exists>s' a'. terminateProcess pf (Some p) s = Some s' \<and> kwf s' a' \<and>
    live a' = live a - desc a p \<and>
    a_ready a' = filter (\<lambda>q. q \<notin> desc a p) (a_ready a) \<and>
    (\<forall>k. waiting s' a' k = filter (\<lambda>q. q \<notin> desc a p) (waiting s a k)) \<and>
    (\<forall>q\<in>live a - desc a p. pcbs s' q = pcbs s q \<and>
       a_child a' q = filter (\<lambda>c. c \<notin> desc a p) (a_child a q)) \<and>
    processCount s' = processCount s - of_nat (card (desc a p)) \<and>
    softBlock_count s' = softBlock_count s - of_nat (card (soft_blocked pf s a \<inter> desc a p)) \<and>
    currProc s' = (if \<exists>q\<in>desc a p. currProc s = Some q then None else currProc s)"
proof -
  obtain s' a' where t: "terminateProcess pf (Some p) s = Some s'" "kwf s' a'"
    "killed pf (desc a p) s a s' a'"
    using terminateProcess_eq [OF assms] by blast
  note K = killedD [OF t(3)]
  show ?thesis using t(1,2) K(2,4-9,13) by (intro exI [of _ s'] exI [of _ a']) simp
qed

theorem terminateProcess_removes_subtree_witness:
  "\<exists>s' a'. terminateProcess sample_platform (Some 19) forked = Some s' \<and> kwf s' a' \<and> live a' = {} \<and>
    a_ready a' = [] \<and> currProc s' = None"
proof -
  have "19 \<in> live forked_phase1" by simp
  moreover have "\<And>q. q \<in> desc forked_phase1 19 \<Longrightarrow> term_ok forked forked_phase1 q"
    using forked_term_ok unfolding forked_desc by blast
  ultimately show ?thesis
    using terminateProcess_removes_subtree [OF sample_wf(2), of 19 sample_platform] forked_inv(3)
    unfolding forked_desc by fastforce
qed

end
